(* ===== verification/Rpm_Prelude.thy ===== *)
theory Rpm_Prelude
  imports Main "HOL-Library.Word"
begin

text \<open>
  Shared vocabulary of the development: the machine integer types the Go sources use, Go
  errors and panics as values, sequencing of fallible computations, the decimal and
  hexadecimal formatting verbs of \<^verbatim>\<open>fmt\<close>, and the generic lemmas on lists and words the
  component theories rest on.

  A Go function that returns \<^verbatim>\<open>(T, error)\<close> and may panic is a HOL function into
  \<open>'a outcome\<close>: \<open>Ok x\<close> is a normal return with a nil error, \<open>Err e\<close> a return
  with a non-nil error, \<open>Panic m\<close> a panic. A Go string is a byte sequence; it is a HOL
  \<open>string\<close>, whose characters are bytes.
\<close>

unbundle bit_operations_syntax

section \<open>Types\<close>

type_synonym u8 = "8 word"
type_synonym u16 = "16 word"
type_synonym u32 = "32 word"
type_synonym u64 = "64 word"
type_synonym bytes = "8 word list"

datatype goerror =
    EOF
  | ErrShortWrite
  | Errorf string

datatype 'a outcome = Ok 'a | Err goerror | Panic string

named_theorems outcome_simps \<open>rewriting with the sequencing combinators\<close>
named_theorems word_nat_simps \<open>reading machine words as natural numbers\<close>

section \<open>Sequencing\<close>

fun obind :: "'a outcome \<Rightarrow> ('a \<Rightarrow> 'b outcome) \<Rightarrow> 'b outcome" where
  "obind (Ok x) f = f x"
| "obind (Err e) f = Err e"
| "obind (Panic m) f = Panic m"

fun ofold :: "('s \<Rightarrow> 'x \<Rightarrow> 's outcome) \<Rightarrow> 's \<Rightarrow> 'x list \<Rightarrow> 's outcome" where
  "ofold f s [] = Ok s"
| "ofold f s (x # xs) = obind (f s x) (\<lambda>s'. ofold f s' xs)"

fun is_ok :: "'a outcome \<Rightarrow> bool" where
  "is_ok (Ok x) = True"
| "is_ok (Err e) = False"
| "is_ok (Panic m) = False"

text \<open>Indexing a slice panics outside its length.\<close>

definition slice_at :: "'a list \<Rightarrow> nat \<Rightarrow> 'a outcome" where
  "slice_at xs i = (if i < length xs then Ok (xs ! i) else Panic ''index out of range'')"

section \<open>Formatting\<close>

fun digit_char :: "nat \<Rightarrow> char" where
  "digit_char d = (if d < 10 then char_of (48 + d) else char_of (87 + d))"

function radix_digits :: "nat \<Rightarrow> nat \<Rightarrow> string" where
  "radix_digits b n =
     (if b < 2 \<or> n < b then [digit_char n]
      else radix_digits b (n div b) @ [digit_char (n mod b)])"
  by pat_completeness auto
termination
  by (relation "measure snd") auto

declare radix_digits.simps [simp del]

text \<open>\<^verbatim>\<open>%d\<close> on an unsigned value, \<^verbatim>\<open>%d\<close> on a signed value, \<^verbatim>\<open>%x\<close>, and
  \<^verbatim>\<open>%08x\<close> (zero-padded to a width).\<close>

definition fmt_d :: "nat \<Rightarrow> string" where
  "fmt_d n = radix_digits 10 n"

definition fmt_int :: "int \<Rightarrow> string" where
  "fmt_int i = (if i < 0 then CHR ''-'' # fmt_d (nat (- i)) else fmt_d (nat i))"

definition fmt_x :: "nat \<Rightarrow> string" where
  "fmt_x n = radix_digits 16 n"

definition fmt_0x :: "nat \<Rightarrow> nat \<Rightarrow> string" where
  "fmt_0x w n = replicate (w - length (fmt_x n)) (CHR ''0'') @ fmt_x n"

definition char_of_byte :: "u8 \<Rightarrow> char" where
  "char_of_byte b = char_of (unat b)"

definition byte_of_char :: "char \<Rightarrow> u8" where
  "byte_of_char c = of_nat (of_char c)"

text \<open>\<^verbatim>\<open>strings.Join\<close>.\<close>

fun join_strings :: "string list \<Rightarrow> string \<Rightarrow> string" where
  "join_strings [] sep = []"
| "join_strings [s] sep = s"
| "join_strings (s # t # ss) sep = s @ sep @ join_strings (t # ss) sep"

section \<open>Lemmas on outcomes\<close>

lemma obind_Ok_iff [outcome_simps]:
  "obind m f = Ok y \<longleftrightarrow> (\<exists>x. m = Ok x \<and> f x = Ok y)"
  by (cases m) auto

lemma obind_OkE:
  assumes "obind m f = Ok y"
  obtains x where "m = Ok x" and "f x = Ok y"
  using assms by (auto simp: outcome_simps)

lemma obind_assoc: "obind (obind m f) g = obind m (\<lambda>x. obind (f x) g)"
  by (cases m) auto

lemma is_ok_iff: "is_ok m \<longleftrightarrow> (\<exists>x. m = Ok x)"
  by (cases m) auto

lemma slice_at_Ok [simp]: "i < length xs \<Longrightarrow> slice_at xs i = Ok (xs ! i)"
  by (simp add: slice_at_def)

lemma ofold_append: "ofold f s (xs @ ys) = obind (ofold f s xs) (\<lambda>s'. ofold f s' ys)"
  by (induction xs arbitrary: s) (auto simp: obind_assoc)

text \<open>An invariant every successful step keeps is kept by a successful fold.\<close>

lemma ofold_invariant:
  assumes "ofold f s xs = Ok s'" and "P s"
    and "\<And>t x t'. P t \<Longrightarrow> x \<in> set xs \<Longrightarrow> f t x = Ok t' \<Longrightarrow> P t'"
  shows "P s'"
  using assms
proof (induction xs arbitrary: s)
  case Nil
  then show ?case by simp
next
  case (Cons x xs)
  from Cons.prems(1) obtain t where t: "f s x = Ok t" and rest: "ofold f t xs = Ok s'"
    by (auto elim: obind_OkE)
  from t Cons.prems(2,3) have "P t" by auto
  with rest Cons.prems(3) show ?case by (intro Cons.IH) auto
qed

section \<open>Lemmas on words and lists\<close>

lemma unat_lt_u32 [word_nat_simps]: "unat (x :: u32) < 4294967296"
  using unsigned_less [of x] by simp

lemma unat_plus_u32:
  "unat (x :: u32) + unat y < 4294967296 \<Longrightarrow> unat (x + y) = unat x + unat y"
  by (simp add: unat_word_ariths)

lemma unat_mult_u32: "unat (x :: u32) * unat y < 4294967296 \<Longrightarrow> unat (x * y) = unat x * unat y"
  by (simp add: unat_word_ariths)

lemma unat_minus_le:
  "unat y \<le> unat x \<Longrightarrow> unat (x - y :: 'a::len word) = unat x - unat y"
  by (simp add: unat_sub_if_size)

lemma unat_of_nat_u32: "n < 4294967296 \<Longrightarrow> unat (of_nat n :: u32) = n"
  by (simp add: take_bit_nat_eq_self_iff unsigned_of_nat)

lemma unat_of_nat_u64: "n < 18446744073709551616 \<Longrightarrow> unat (of_nat n :: u64) = n"
  by (simp add: take_bit_nat_eq_self_iff unsigned_of_nat)

lemma byte_of_char_inverse [simp]: "byte_of_char (char_of_byte b) = b"
proof -
  have "unat b < 256" using unsigned_less [of b] by simp
  then show ?thesis by (simp add: byte_of_char_def char_of_byte_def)
qed

lemma char_of_byte_inverse [simp]: "char_of_byte (byte_of_char c) = c"
proof -
  have "(of_char c :: nat) < 256" by simp
  then have "unat (of_nat (of_char c) :: u8) = of_char c"
    by (simp add: take_bit_nat_eq_self_iff unsigned_of_nat)
  then show ?thesis by (simp add: byte_of_char_def char_of_byte_def)
qed

end
