(* ===== verification/Utils.thy ===== *)
theory Utils
  imports Rpm_Prelude
begin

text \<open>
  The arithmetic and slice helpers of \<^verbatim>\<open>common/utils.go\<close>: power-of-two test, alignment
  padding, growing a slice, removing an element, and the padding of table cells.
\<close>

section \<open>Definitions\<close>

definition IsPowerOfTwo :: "u64 \<Rightarrow> bool" where
  "IsPowerOfTwo value \<longleftrightarrow> value AND (value - 1) = 0"

definition CalcAlignmentByteCount :: "u64 \<Rightarrow> u8 \<Rightarrow> u8 outcome" where
  "CalcAlignmentByteCount address alignment =
     (if alignment = 1 then Ok 0
      else if alignment = 0 \<or> \<not> IsPowerOfTwo (ucast alignment) then
        Panic ''Invalid alignment''
      else
        (let v1 = ucast alignment;
             v2 = ucast (alignment - 1)
         in Ok (ucast ((v1 - (address AND v2)) AND v2))))"

text \<open>\<^verbatim>\<open>make\<close> fills with the zero value of the element type, here an argument.\<close>

definition growLen :: "'a \<Rightarrow> 'a list \<Rightarrow> nat \<Rightarrow> 'a list" where
  "growLen zero s targetLen =
     (if length s \<ge> targetLen then s else s @ replicate (targetLen - length s) zero)"

definition GrowSliceIfNecessary :: "'a \<Rightarrow> u32 \<Rightarrow> 'a list \<Rightarrow> 'a list" where
  "GrowSliceIfNecessary zero index arrayToGrow =
     (let currentLen = of_nat (length arrayToGrow) :: u32
      in if index \<ge> currentLen then
           (let newLen = 1 + (of_nat (length arrayToGrow * 2) :: u32);
                newLen' = (if newLen \<le> index then index + 1 else newLen)
            in growLen zero arrayToGrow (unat newLen'))
         else arrayToGrow)"

definition RemoveAtIndex :: "'a list \<Rightarrow> nat \<Rightarrow> 'a list" where
  "RemoveAtIndex s index = take index s @ drop (index + 1) s"

section \<open>The generic set\<close>

text \<open>\<^verbatim>\<open>SetImpl\<close> wraps a Go map with empty values; its content is the set of its keys.
  \<open>Add\<close> reports whether the element was new.\<close>

definition NewSet :: "'a set" where
  "NewSet = {}"

definition SetContains :: "'a set \<Rightarrow> 'a \<Rightarrow> bool" where
  "SetContains s element \<longleftrightarrow> element \<in> s"

definition SetAdd :: "'a set \<Rightarrow> 'a \<Rightarrow> bool \<times> 'a set" where
  "SetAdd s element = (if SetContains s element then (False, s) else (True, insert element s))"

definition SetSize :: "'a set \<Rightarrow> nat" where
  "SetSize s = card s"

definition SetIsEmpty :: "'a set \<Rightarrow> bool" where
  "SetIsEmpty s \<longleftrightarrow> SetSize s = 0"

section \<open>Runes and padding of table cells\<close>

text \<open>The number of bytes of the first rune of a non-empty string, as
  \<^verbatim>\<open>utf8.DecodeRune\<close> reports it: the length of a valid encoding, 1 for an invalid byte.\<close>

definition cont_byte :: "string \<Rightarrow> nat \<Rightarrow> nat \<Rightarrow> nat \<Rightarrow> bool" where
  "cont_byte s i lo hi \<longleftrightarrow> i < length s \<and> lo \<le> of_char (s ! i) \<and> of_char (s ! i) \<le> hi"

definition rune_width :: "string \<Rightarrow> nat" where
  "rune_width s =
     (case s of [] \<Rightarrow> 0
      | c # _ \<Rightarrow>
         (let b = of_char c :: nat;
              lo1 = (if b = 0xE0 then 0xA0 else if b = 0xF0 then 0x90 else 0x80);
              hi1 = (if b = 0xED then 0x9F else if b = 0xF4 then 0x8F else 0xBF)
          in if b < 0x80 then 1
             else if 0xC2 \<le> b \<and> b \<le> 0xDF then (if cont_byte s 1 0x80 0xBF then 2 else 1)
             else if 0xE0 \<le> b \<and> b \<le> 0xEF then
               (if cont_byte s 1 lo1 hi1 \<and> cont_byte s 2 0x80 0xBF then 3 else 1)
             else if 0xF0 \<le> b \<and> b \<le> 0xF4 then
               (if cont_byte s 1 lo1 hi1 \<and> cont_byte s 2 0x80 0xBF \<and> cont_byte s 3 0x80 0xBF
                then 4 else 1)
             else 1))"

lemma rune_width_pos: "s \<noteq> [] \<Longrightarrow> 0 < rune_width s"
  by (cases s) (auto simp: rune_width_def Let_def)

text \<open>A string cut into its runes.\<close>

function runes :: "string \<Rightarrow> string list" where
  "runes s = (if s = [] then [] else take (rune_width s) s # runes (drop (rune_width s) s))"
  by pat_completeness auto
termination
  by (relation "measure length") (auto simp: rune_width_pos)

declare runes.simps [simp del]

definition RuneCountInString :: "string \<Rightarrow> nat" where
  "RuneCountInString s = length (runes s)"

text \<open>\<^verbatim>\<open>strings.Repeat\<close> panics on a negative count; both callers pass a positive one.\<close>

fun repeat_string :: "string \<Rightarrow> nat \<Rightarrow> string" where
  "repeat_string s 0 = []"
| "repeat_string s (Suc n) = s @ repeat_string s n"

definition RightPad :: "string \<Rightarrow> string \<Rightarrow> nat \<Rightarrow> string" where
  "RightPad s padChar totalLength =
     (let charCount = RuneCountInString s
      in if charCount \<ge> totalLength then s
         else s @ repeat_string padChar (totalLength - charCount))"

definition CenterPad :: "string \<Rightarrow> string \<Rightarrow> nat \<Rightarrow> string" where
  "CenterPad s padChar totalLength =
     (let charCount = RuneCountInString s
      in if charCount \<ge> totalLength then s
         else
           (let delta = totalLength - charCount;
                deltaLeft = delta div 2;
                deltaRight = totalLength - charCount - deltaLeft
            in repeat_string padChar deltaLeft @ s @ repeat_string padChar deltaRight))"

text \<open>The white space of \<^verbatim>\<open>unicode.IsSpace\<close>, as encoded runes, and
  \<^verbatim>\<open>strings.TrimSpace\<close>.\<close>

definition utf8_bytes :: "nat list \<Rightarrow> string" where
  "utf8_bytes bs = map char_of bs"

definition space_runes :: "string list" where
  "space_runes =
     map utf8_bytes
       ([[9], [10], [11], [12], [13], [32], [0xC2, 0x85], [0xC2, 0xA0], [0xE1, 0x9A, 0x80]]
        @ map (\<lambda>k. [0xE2, 0x80, 0x80 + k]) [0..<11]
        @ [[0xE2, 0x80, 0xA8], [0xE2, 0x80, 0xA9], [0xE2, 0x80, 0xAF], [0xE2, 0x81, 0x9F],
           [0xE3, 0x80, 0x80]])"

definition is_space_rune :: "string \<Rightarrow> bool" where
  "is_space_rune r \<longleftrightarrow> r \<in> set space_runes"

definition TrimSpace :: "string \<Rightarrow> string" where
  "TrimSpace s =
     concat (rev (dropWhile is_space_rune (rev (dropWhile is_space_rune (runes s)))))"

definition IsEmptyString :: "string \<Rightarrow> bool" where
  "IsEmptyString s \<longleftrightarrow> length (TrimSpace s) = 0"

definition IsNotEmptyString :: "string \<Rightarrow> bool" where
  "IsNotEmptyString s \<longleftrightarrow> length (TrimSpace s) \<noteq> 0"

text \<open>The padding that moves an offset to the next multiple of an alignment.\<close>

definition pad_to :: "nat \<Rightarrow> nat \<Rightarrow> nat" where
  "pad_to a n = (a - n mod a) mod a"

section \<open>Powers of two and alignment\<close>

lemma less_8_cases: "(k::nat) < 8 \<Longrightarrow> k = 0 \<or> k = 1 \<or> k = 2 \<or> k = 3 \<or> k = 4 \<or> k = 5 \<or> k = 6 \<or> k = 7"
  by arith

lemma IsPowerOfTwo_power: "IsPowerOfTwo (2 ^ k)"
  unfolding IsPowerOfTwo_def
  by (rule bit_word_eqI) (auto simp: bit_simps mask_eq_exp_minus_1 [symmetric])

lemma ucast_u8_power:
  assumes "k < 8"
  shows "ucast (2 ^ k :: u8) = (2 ^ k :: u64)"
  using less_8_cases [OF assms] by (elim disjE) simp_all

lemma ucast_u8_power_minus:
  assumes "k < 8"
  shows  "ucast (2 ^ k - 1 :: u8) = (mask k :: u64)"
  using less_8_cases [OF assms] by (elim disjE) (simp_all add: mask_numeral)

lemma CalcAlignmentByteCount_power:
  assumes "k < 8"
  shows "CalcAlignmentByteCount a (2 ^ k) =
    Ok (of_nat (pad_to (2 ^ k) (unat a)))"
proof (cases "k = 0")
  case False
  have ne: "(2 ^ k :: u8) \<noteq> 1" "(2 ^ k :: u8) \<noteq> 0" 
    using less_8_cases [OF assms] False by (elim disjE; simp)+
  have k: "(2::u64) ^ k = of_nat (2 ^ k)" by simp
  have u: "unat ((2::u64) ^ k) = 2 ^ k" 
    using less_8_cases [OF assms] by (elim disjE) simp_all
  have t: "unat (take_bit k a) = unat a mod 2 ^ k"
    by (simp add: unsigned_take_bit_eq flip: take_bit_eq_mod)
  have le: "unat (take_bit k a) \<le> unat ((2::u64) ^ k)" by (simp add: u t less_imp_le)
  have "unat ((2 ^ k - (a AND mask k)) AND mask k) = (2 ^ k - unat a mod 2 ^ k) mod 2 ^ k"
    by (simp only: take_bit_eq_mask [symmetric] unsigned_take_bit_eq unat_minus_le [OF le] u t)
      (simp add: take_bit_eq_mod)
  then have "ucast ((2 ^ k - (a AND mask k)) AND mask k) = (of_nat ((2 ^ k - unat a mod 2 ^ k) mod 2 ^ k) :: u8)"
    by (metis of_nat_unat)
  with ne show ?thesis 
    by (simp add: CalcAlignmentByteCount_def ucast_u8_power [OF assms] ucast_u8_power_minus [OF assms] 
        IsPowerOfTwo_power Let_def pad_to_def)
qed (simp add: CalcAlignmentByteCount_def pad_to_def)

lemma IsPowerOfTwo_iff: "IsPowerOfTwo v \<longleftrightarrow> v = 0 \<or> (\<exists>k<64. v = 2 ^ k)"
proof
  assume p: "IsPowerOfTwo v"
  show "v = 0 \<or> (\<exists>k<64. v = 2 ^ k)"
  proof (cases "v = 0")
    case False
    then have "unat v > 0" by (simp add: unat_gt_0)
    then obtain n where n: "2 ^ n \<le> unat v" "unat v < 2 ^ (n + 1)"
      using ex_power_ivl1 [of 2 "unat v"] by auto
    have "unat v < 2 ^ 64" using unsigned_less [of v] by simp
    with n(1) have n64: "n < 64"
      using power_less_imp_less_exp [of "2 :: nat" n 64] by linarith
    have "unat v = 2 ^ n"
    proof (rule ccontr)
      assume "unat v \<noteq> 2 ^ n"
      with n have gt: "2 ^ n < unat v" by simp
      have "unat (v - 1) = unat v - 1"
        using False by (simp add: unat_minus_one)
      with gt n have div1: "unat (v - 1) div 2 ^ n = 1" "unat v div 2 ^ n = 1"
        by (simp_all add: div_nat_eqI)
      then have "bit v n" "bit (v - 1) n"
        by (simp_all add: bit_iff_odd flip: bit_unsigned_iff [where 'a = nat, simplified] ) 
      then have "bit (v AND (v - 1)) n" by (simp add: bit_and_iff)
      with p show False by (simp add: IsPowerOfTwo_def)
    qed
    then have "v = 2 ^ n"
      by (metis of_nat_numeral of_nat_power of_nat_unat ucast_id)
    with n64 show ?thesis by blast
  qed simp
next
  assume "v = 0 \<or> (\<exists>k<64. v = 2 ^ k)"
  then show "IsPowerOfTwo v"
    by (auto simp: IsPowerOfTwo_power) (simp add: IsPowerOfTwo_def)
qed

lemma pad_to_less: "0 < a \<Longrightarrow> pad_to a n < a"
  by (simp add: pad_to_def)

lemma pad_to_1 [simp]: "pad_to (Suc 0) n = 0"
  by (simp add: pad_to_def)

lemma pad_to_aligned:
  assumes "0 < a"
  shows "(n + pad_to a n) mod a = 0"
proof (cases "n mod a = 0")
  case True
  then show ?thesis by (simp add: pad_to_def mod_eq_0_iff_dvd)
next
  case False
  have "n mod a < a" using assms by simp
  with False have "pad_to a n = a - n mod a" by (simp add: pad_to_def)
  then have "n + pad_to a n = n div a * a + a"
    using \<open>n mod a < a\<close> by (metis add.assoc add_diff_inverse_nat div_mult_mod_eq nat_less_le not_less)
  then show ?thesis by simp
qed

lemma pad_to_dvd: "a dvd n \<Longrightarrow> pad_to a n = 0"
  by (simp add: pad_to_def mod_eq_0_iff_dvd [symmetric])

text \<open>Nothing smaller reaches the alignment.\<close>

lemma pad_to_least:
  assumes "q < pad_to a n"
  shows "(n + q) mod a \<noteq> 0"
proof
  assume z: "(n + q) mod a = 0"
  have a: "0 < a" using assms by (cases a) (auto simp: pad_to_def)
  then have r: "n mod a < a" by simp
  have nz: "n mod a \<noteq> 0"
    using assms by (cases "n mod a = 0") (auto simp: pad_to_def)
  with r have p: "pad_to a n = a - n mod a" by (simp add: pad_to_def)
  have "(n mod a + q) mod a = 0" using z by (simp add: mod_add_left_eq)
  moreover have "n mod a + q < a" using assms p r by linarith
  ultimately show False using nz by simp
qed

section \<open>Growing a slice\<close>

lemma length_growLen: "length (growLen z s n) = max (length s) n"
  by (simp add: growLen_def)

lemma nth_growLen:
  "i < length (growLen z s n) \<Longrightarrow> growLen z s n ! i = (if i < length s then s ! i else z)"
  by (auto simp: growLen_def nth_append)

lemma GrowSlice_growLen:
  assumes "length s < 4294967296" and "unat i < 4294967295"
  obtains n where "GrowSliceIfNecessary z i s = growLen z s n"
    and "n < 4294967296" and "unat i < max (length s) n"
    and "n \<le> max (length s) (max (unat i + 1) (2 * unat i + 1))"
proof (cases "i \<ge> of_nat (length s)")
  case False
  then have "unat i < length s"
    using assms(1) by (simp add: word_less_nat_alt not_le unat_of_nat_u32)
  moreover have "GrowSliceIfNecessary z i s = growLen z s 0"
    using False by (simp add: GrowSliceIfNecessary_def growLen_def)
  ultimately show thesis by (intro that [of 0]) auto
next
  case True
  then have le: "length s \<le> unat i"
    using assms(1) by (simp add: word_le_nat_alt unat_of_nat_u32)
  define m where "m = 1 + (of_nat (length s * 2) :: u32)"
  define k where "k = (if m \<le> i then i + 1 else m)"
  have eq: "GrowSliceIfNecessary z i s = growLen z s (unat k)"
    using True by (simp add: GrowSliceIfNecessary_def k_def m_def)
  have i1: "unat (i + 1) = unat i + 1"
    using assms(2) by (simp add: unat_word_ariths)
  have "unat m \<le> 1 + 2 * length s"
    unfolding m_def
    by (metis (no_types, opaque_lifting) mod_less_eq_dividend mult.commute of_nat_1 of_nat_add unat_of_nat)
  then have "unat k \<le> max (unat i + 1) (2 * unat i + 1)"
    using le i1 by (auto simp: k_def)
  moreover have "unat i < unat k"
    using i1 by (auto simp: k_def word_le_nat_alt)
  ultimately show thesis
    using eq that [of "unat k"] unat_lt_u32 [of k] by auto
qed

lemma GrowSlice_covers:
  "length s < 4294967296 \<Longrightarrow> unat i < 4294967295 \<Longrightarrow>
   unat i < length (GrowSliceIfNecessary z i s)"
  by (metis GrowSlice_growLen length_growLen)

lemma GrowSlice_bound:
  assumes "length s < 4294967296" and "unat i < 4294967295"
  shows "length (GrowSliceIfNecessary z i s) < 4294967296"
    and "length (GrowSliceIfNecessary z i s) \<le> max (length s) (2 * unat i + 1)"
    and "length s \<le> length (GrowSliceIfNecessary z i s)"
proof -
  obtain n where "GrowSliceIfNecessary z i s = growLen z s n" and "n < 4294967296"
    and "n \<le> max (length s) (max (unat i + 1) (2 * unat i + 1))"
    using GrowSlice_growLen [OF assms] by blast
  then show "length (GrowSliceIfNecessary z i s) < 4294967296"
    and "length (GrowSliceIfNecessary z i s) \<le> max (length s) (2 * unat i + 1)"
    and "length s \<le> length (GrowSliceIfNecessary z i s)"
    using assms(1) by (auto simp: length_growLen)
qed

lemma nth_GrowSlice:
  "length s < 4294967296 \<Longrightarrow> unat i < 4294967295 \<Longrightarrow> j < length (GrowSliceIfNecessary z i s) \<Longrightarrow>
   GrowSliceIfNecessary z i s ! j = (if j < length s then s ! j else z)"
  by (metis GrowSlice_growLen nth_growLen)

section \<open>Runes\<close>

lemma concat_runes [simp]: "concat (runes s) = s"
proof (induction s rule: runes.induct)
  case (1 s)
  then show ?case by (subst runes.simps) auto
qed

lemma runes_ascii:
  "\<forall>c \<in> set s. of_char c < (128 :: nat) \<Longrightarrow> runes s = map (\<lambda>c. [c]) s"
proof (induction s)
  case Nil
  then show ?case by (simp add: runes.simps)
next
  case (Cons c s)
  then have "rune_width (c # s) = 1" by (simp add: rune_width_def)
  with Cons show ?case by (subst runes.simps) simp
qed

section \<open>Properties\<close>

lemma unat_ucast_u8: "unat (ucast (x :: u8) :: u64) = unat x"
proof -
  have "unat x < 256" using unsigned_less [of x] by simp
  then show ?thesis by (simp add: unsigned_ucast_eq take_bit_nat_eq_self_iff)
qed

text \<open>C38: the alignment padding is exactly the least number of bytes that moves the address to a
  multiple of the alignment, for every power of two that fits a byte; any other alignment panics.\<close>

theorem alignment_padding:
  "case CalcAlignmentByteCount a al of
     Ok p \<Rightarrow> (\<exists>k<8. al = 2 ^ k) \<and> (unat a + unat p) mod unat al = 0 \<and> unat p < unat al \<and>
       (\<forall>q<unat p. (unat a + q) mod unat al \<noteq> 0)
   | Err e \<Rightarrow> False
   | Panic m \<Rightarrow> \<not> (\<exists>k<8. al = 2 ^ k)"
proof (cases "\<exists>k<8. al = 2 ^ k")
  case True
  then obtain k where k: "k < 8" "al = 2 ^ k" by blast
  have ua: "unat al = 2 ^ k" using less_8_cases [OF k(1)] unfolding k(2) by (elim disjE) simp_all
  have "pad_to (2 ^ k) (unat a) < 2 ^ k" by (simp add: pad_to_less)
  moreover have "(2 :: nat) ^ k \<le> 2 ^ 7" using k(1) by (intro power_increasing) auto
  ultimately have "unat (of_nat (pad_to (2 ^ k) (unat a)) :: u8) = pad_to (2 ^ k) (unat a)"
    by (simp add: unsigned_of_nat take_bit_nat_eq_self_iff)
  with CalcAlignmentByteCount_power [OF k(1), of a] k ua show ?thesis
    using pad_to_aligned [of "2 ^ k" "unat a"] pad_to_less [of "2 ^ k" "unat a"] pad_to_least [of _ "2 ^ k" "unat a"]
    by auto
next
  case False
  have "al \<noteq> 1" using False by (metis power_0 zero_less_numeral)
  moreover have "al = 0 \<or> \<not> IsPowerOfTwo (ucast al)"
  proof (rule ccontr)
    assume "\<not> (al = 0 \<or> \<not> IsPowerOfTwo (ucast al))"
    then have nz: "al \<noteq> 0" and "IsPowerOfTwo (ucast al)" by auto
    moreover have "ucast al \<noteq> (0 :: u64)" using nz unat_ucast_u8 [of al] by (metis unat_eq_zero)
    ultimately have "\<exists>k<64. ucast al = (2 ^ k :: u64)" unfolding IsPowerOfTwo_iff by blast
    then obtain k where k: "k < 64" "ucast al = (2 ^ k :: u64)" by blast
    have "unat (2 ^ k :: u64) = 2 ^ k"
      using unat_of_nat_u64 [of "2 ^ k"] power_strict_increasing [of k 64 "2 :: nat"] k(1) by simp
    then have u: "unat al = 2 ^ k" using k(2) unat_ucast_u8 [of al] by simp
    have "unat al < 256" using unsigned_less [of al] by simp
    then have "k < 8" using power_less_imp_less_exp [of "2 :: nat" k 8] by (simp add: u)
    moreover have "al = 2 ^ k" using u by (metis of_nat_numeral of_nat_power of_nat_unat ucast_id)
    ultimately show False using False by blast
  qed
  ultimately show ?thesis using False by (simp add: CalcAlignmentByteCount_def)
qed

theorem alignment_padding_witness:
  "CalcAlignmentByteCount 13 8 = Ok 3 \<and> CalcAlignmentByteCount 13 6 = Panic ''Invalid alignment'' \<and>
   (unat (13 :: u64) + unat (3 :: u8)) mod unat (8 :: u8) = 0"
proof -
  have e: "CalcAlignmentByteCount 13 8 = Ok 3" "CalcAlignmentByteCount 13 6 = Panic ''Invalid alignment''"
    by (simp_all add: CalcAlignmentByteCount_def IsPowerOfTwo_def)
  with alignment_padding [where a = 13 and al = 8] show ?thesis by simp
qed

end
