(* ===== verification/Readers.thy ===== *)
theory Readers
  imports Utils
begin

text \<open>
  The readers of \<^verbatim>\<open>common/serializer.go\<close>, \<^verbatim>\<open>common/rpmparser.go\<close>,
  \<^verbatim>\<open>common/utils.go\<close> and \<^verbatim>\<open>client/remotesign.go\<close> as one datatype, a constructor per Go
  type, so that a chain of wrapped readers is a term. \<open>Source\<close> is the \<^verbatim>\<open>io.Reader\<close> at the
  bottom (a file or a request body): its unread bytes, a schedule of how much the next calls
  deliver, and the error that follows the last byte. The schedule is arbitrary: a call may
  deliver fewer bytes than asked for, none at all, or the last bytes together with the error,
  as the \<^verbatim>\<open>io.Reader\<close> contract allows; when the schedule is used up a call delivers all it can.

  A hash state (\<^verbatim>\<open>hash.Hash\<close>) is the sequence of bytes written to it.
\<close>

section \<open>Definitions\<close>

record io_source =
  src_data :: bytes
  src_schedule :: "(nat \<times> bool) list"
  src_end :: goerror

datatype rdr =
    Source io_source
  | arrayReader bytes nat
  | IOReaderWithOffset rdr u64
  | DigestReaderImpl rdr bytes
  | SeekableReaderImpl rdr
  | headerCapturingReader rdr bytes bool

definition source_read :: "io_source \<Rightarrow> nat \<Rightarrow> bytes \<times> goerror option \<times> io_source" where
  "source_read s n =
     (if n = 0 then ([], None, s)
      else
        (let (m, eager) = (case src_schedule s of [] \<Rightarrow> (n, False) | x # _ \<Rightarrow> x);
             bs = take (min m n) (src_data s);
             s' = s\<lparr>src_data := drop (min m n) (src_data s), src_schedule := tl (src_schedule s)\<rparr>
         in if src_data s' = [] \<and> (eager \<or> (src_data s = [] \<and> 0 < m))
            then (bs, Some (src_end s), s')
            else (bs, None, s')))"

fun rd_read :: "rdr \<Rightarrow> nat \<Rightarrow> bytes \<times> goerror option \<times> rdr" where
  "rd_read (Source s) n = (let (bs, e, s') = source_read s n in (bs, e, Source s'))"
| "rd_read (arrayReader src currentOffset) n =
     (if n = 0 then ([], None, arrayReader src currentOffset)
      else
        (let remaining = length src - currentOffset;
             cntToCopy = (if remaining < n then remaining else n);
             bs = take cntToCopy (drop currentOffset src)
         in (bs, (if cntToCopy < n then Some EOF else None),
             arrayReader src (currentOffset + cntToCopy))))"
| "rd_read (IOReaderWithOffset r currentOffset) n =
     (let (bs, e, r') = rd_read r n
      in (bs, e, IOReaderWithOffset r'
            (if length bs > 0 then currentOffset + of_nat (length bs) else currentOffset)))"
| "rd_read (DigestReaderImpl source digest) n =
     (let (bs, e, r') = rd_read source n
      in (bs, e, DigestReaderImpl r'
            (if length bs = n then digest @ bs
             else if length bs > 0 then digest @ bs else digest)))"
| "rd_read (SeekableReaderImpl r) n =
     (let (bs, e, r') = rd_read r n in (bs, e, SeekableReaderImpl r'))"
| "rd_read (headerCapturingReader src buf capturing) n =
     (let (bs, e, r') = rd_read src n
      in (bs, e, headerCapturingReader r' (if capturing \<and> length bs > 0 then buf @ bs else buf)
            capturing))"

text \<open>\<^verbatim>\<open>Offset()\<close>. The two constructors without the method (Go's type checker refuses the
  call there) report 0.\<close>

fun rd_offset :: "rdr \<Rightarrow> u64" where
  "rd_offset (Source s) = 0"
| "rd_offset (arrayReader src currentOffset) = of_nat currentOffset"
| "rd_offset (IOReaderWithOffset r currentOffset) = currentOffset"
| "rd_offset (DigestReaderImpl source digest) = rd_offset source"
| "rd_offset (SeekableReaderImpl r) = rd_offset r"
| "rd_offset (headerCapturingReader src buf capturing) = 0"

fun GetDigest :: "rdr \<Rightarrow> bytes" where
  "GetDigest (DigestReaderImpl source digest) = digest"
| "GetDigest _ = []"

fun GetDelegate :: "rdr \<Rightarrow> rdr" where
  "GetDelegate (DigestReaderImpl source digest) = source"
| "GetDelegate (IOReaderWithOffset r currentOffset) = r"
| "GetDelegate (SeekableReaderImpl r) = r"
| "GetDelegate r = r"

definition Rewind :: "rdr \<Rightarrow> rdr" where
  "Rewind r = (case r of arrayReader src currentOffset \<Rightarrow> arrayReader src 0 | _ \<Rightarrow> r)"

definition NewArrayReader :: "bytes \<Rightarrow> rdr" where
  "NewArrayReader data = arrayReader data 0"

definition NewIOReaderWithOffset :: "rdr \<Rightarrow> rdr" where
  "NewIOReaderWithOffset file = IOReaderWithOffset file 0"

definition NewDigestReaderImpl :: "rdr \<Rightarrow> bytes \<Rightarrow> rdr" where
  "NewDigestReaderImpl source hash = DigestReaderImpl source hash"

definition NewSeekableReader :: "rdr \<Rightarrow> rdr" where
  "NewSeekableReader reader = SeekableReaderImpl (NewIOReaderWithOffset reader)"

definition newHeaderCapturingReader :: "rdr \<Rightarrow> rdr" where
  "newHeaderCapturingReader src = headerCapturingReader src [] True"

fun StopCapturing :: "rdr \<Rightarrow> rdr" where
  "StopCapturing (headerCapturingReader src buf capturing) = headerCapturingReader src buf False"
| "StopCapturing r = r"

fun CapturedBytes :: "rdr \<Rightarrow> bytes" where
  "CapturedBytes (headerCapturingReader src buf capturing) = buf"
| "CapturedBytes r = []"

text \<open>What the chain can still deliver, the error after it, and the length of the schedule
  (a bound on the calls that deliver nothing).\<close>

fun rest :: "rdr \<Rightarrow> bytes" where
  "rest (Source s) = src_data s"
| "rest (arrayReader src currentOffset) = drop currentOffset src"
| "rest (IOReaderWithOffset r currentOffset) = rest r"
| "rest (DigestReaderImpl source digest) = rest source"
| "rest (SeekableReaderImpl r) = rest r"
| "rest (headerCapturingReader src buf capturing) = rest src"

fun end_error :: "rdr \<Rightarrow> goerror" where
  "end_error (Source s) = src_end s"
| "end_error (arrayReader src currentOffset) = EOF"
| "end_error (IOReaderWithOffset r currentOffset) = end_error r"
| "end_error (DigestReaderImpl source digest) = end_error source"
| "end_error (SeekableReaderImpl r) = end_error r"
| "end_error (headerCapturingReader src buf capturing) = end_error src"

fun budget :: "rdr \<Rightarrow> nat" where
  "budget (Source s) = length (src_schedule s)"
| "budget (arrayReader src currentOffset) = 0"
| "budget (IOReaderWithOffset r currentOffset) = budget r"
| "budget (DigestReaderImpl source digest) = budget source"
| "budget (SeekableReaderImpl r) = budget r"
| "budget (headerCapturingReader src buf capturing) = budget src"

text \<open>\<open>feeds r bs r'\<close>: from \<open>r\<close> to \<open>r'\<close> exactly the bytes \<open>bs\<close> have passed
  through every layer of the chain, and every layer has recorded them.\<close>

fun feeds :: "rdr \<Rightarrow> bytes \<Rightarrow> rdr \<Rightarrow> bool" where
  "feeds (Source s) bs (Source s') \<longleftrightarrow> src_data s = bs @ src_data s' \<and> src_end s' = src_end s"
| "feeds (arrayReader src o1) bs (arrayReader src' o2) \<longleftrightarrow>
     src' = src \<and> o2 = o1 + length bs \<and> drop o1 src = bs @ drop o2 src"
| "feeds (IOReaderWithOffset r o1) bs (IOReaderWithOffset r' o2) \<longleftrightarrow>
     feeds r bs r' \<and> o2 = o1 + of_nat (length bs)"
| "feeds (DigestReaderImpl r h) bs (DigestReaderImpl r' h') \<longleftrightarrow> feeds r bs r' \<and> h' = h @ bs"
| "feeds (SeekableReaderImpl r) bs (SeekableReaderImpl r') \<longleftrightarrow> feeds r bs r'"
| "feeds (headerCapturingReader r b c) bs (headerCapturingReader r' b' c') \<longleftrightarrow>
     feeds r bs r' \<and> c' = c \<and> b' = (if c then b @ bs else b)"
| "feeds _ _ _ \<longleftrightarrow> False"

text \<open>The chains whose topmost layers count the bytes read.\<close>

fun has_offset :: "rdr \<Rightarrow> bool" where
  "has_offset (Source s) = False"
| "has_offset (arrayReader src currentOffset) = True"
| "has_offset (IOReaderWithOffset r currentOffset) = True"
| "has_offset (DigestReaderImpl source digest) = has_offset source"
| "has_offset (SeekableReaderImpl r) = has_offset r"
| "has_offset (headerCapturingReader src buf capturing) = False"

lemma rd_read_progress:
  "rd_read r n = (bs, e, r') \<Longrightarrow> 0 < n \<Longrightarrow>
   budget r' \<le> budget r \<and> (e = None \<longrightarrow> bs \<noteq> [] \<or> budget r' < budget r)"
proof (induction r arbitrary: bs e r')
  case (Source s)
  then show ?case
    by (cases "src_schedule s")
      (auto simp: source_read_def Let_def split: if_splits prod.splits)
next
  case (arrayReader src o1)
  then show ?case by (auto simp: Let_def split: if_splits)
qed (force split: prod.splits)+

text \<open>\<^verbatim>\<open>FillBuffer\<close>: \<open>acc\<close> is the filled part of the buffer, \<open>remaining\<close> the length
  of the rest.\<close>

function FillBuffer_loop :: "bytes \<Rightarrow> nat \<Rightarrow> rdr \<Rightarrow> (bytes \<times> rdr) outcome" where
  "FillBuffer_loop acc remaining r =
     (if remaining > 0 then
        (let (bs, e, r') = rd_read r remaining
         in case e of
              Some err \<Rightarrow>
                (if err = EOF then
                   (if remaining - length bs > 0 then
                      Err (Errorf (''expected '' @ fmt_d (length acc + remaining) @
                        '' bytes but only got '' @ fmt_d (length bs)))
                    else Ok (acc @ bs, r'))
                 else Err err)
            | None \<Rightarrow> FillBuffer_loop (acc @ bs) (remaining - length bs) r')
      else Ok (acc, r))"
  by pat_completeness auto
termination
proof (relation "measure (\<lambda>(acc, remaining, r). remaining + budget r)", goal_cases)
  case 1
  show ?case by simp
next
  case (2 acc remaining r x bs y e r')
  then have "rd_read r remaining = (bs, None, r')" by simp
  from rd_read_progress [OF this \<open>0 < remaining\<close>] \<open>0 < remaining\<close> show ?case by (cases bs) auto
qed

declare FillBuffer_loop.simps [simp del]

definition FillBuffer :: "nat \<Rightarrow> rdr \<Rightarrow> (bytes \<times> rdr) outcome" where
  "FillBuffer n reader = FillBuffer_loop [] n reader"

section \<open>What one call delivers\<close>

lemma source_read_feeds:
  assumes "source_read s n = (bs, e, s')"
  shows "src_data s = bs @ src_data s'" and "src_end s' = src_end s" and "length bs \<le> n"
    and "e \<noteq> None \<Longrightarrow> e = Some (src_end s) \<and> src_data s' = []"
  using assms by (auto simp: source_read_def Let_def split: if_splits prod.splits list.splits)

lemma rd_read_feeds: "rd_read r n = (bs, e, r') \<Longrightarrow> feeds r bs r' \<and> length bs \<le> n"
proof (induction r arbitrary: bs e r')
  case (Source s)
  then show ?case by (auto split: prod.splits dest: source_read_feeds)
next
  case (arrayReader src o1)
  then show ?case
    by (auto simp: Let_def min_def split: if_splits)
       (metis add.commute append_take_drop_id drop_drop)+
qed (force split: prod.splits if_splits)+

lemma rd_read_error:
  "rd_read r n = (bs, Some err, r') \<Longrightarrow> err = end_error r \<and> rest r' = []"
proof (induction r arbitrary: bs r')
  case (Source s)
  then show ?case by (auto split: prod.splits dest: source_read_feeds(4))
next
  case (arrayReader src o1)
  then show ?case by (auto simp: Let_def split: if_splits)
qed (force split: prod.splits)+

lemma feeds_rest: "feeds r bs r' \<Longrightarrow> rest r = bs @ rest r'"
  by (induction r bs r' rule: feeds.induct) auto

lemma feeds_end: "feeds r bs r' \<Longrightarrow> end_error r' = end_error r"
  by (induction r bs r' rule: feeds.induct) auto

lemma feeds_refl: "feeds r [] r"
  by (induction r) auto

lemma feeds_trans: "feeds r a r' \<Longrightarrow> feeds r' b r'' \<Longrightarrow> feeds r (a @ b) r''"
proof (induction r a r' arbitrary: r'' rule: feeds.induct)
  case (1 s bs s')
  then show ?case by (cases r'') auto
next
  case (2 src o1 bs src' o2)
  then show ?case by (cases r'') auto
next
  case (3 r o1 bs r' o2)
  then show ?case by (cases r'') auto
next
  case (4 r h bs r' h')
  then show ?case by (cases r'') auto
next
  case (5 r bs r')
  then show ?case by (cases r'') auto
next
  case (6 r b c bs r' b' c')
  then show ?case by (cases r'') auto
qed auto

lemma feeds_offset:
  "feeds r bs r' \<Longrightarrow> has_offset r \<Longrightarrow> rd_offset r' = rd_offset r + of_nat (length bs) \<and> has_offset r'"
  by (induction r bs r' rule: feeds.induct) auto

section \<open>FillBuffer\<close>

lemma FillBuffer_loop_ok:
  "end_error r = EOF \<Longrightarrow> k \<le> length (rest r) \<Longrightarrow>
   \<exists>r'. FillBuffer_loop acc k r = Ok (acc @ take k (rest r), r') \<and> feeds r (take k (rest r)) r'"
proof (induction acc k r rule: FillBuffer_loop.induct)
  case (1 acc k r)
  show ?case
  proof (cases "k = 0")
    case True
    then show ?thesis by (simp add: FillBuffer_loop.simps feeds_refl)
  next
    case False
    obtain bs e r1 where rd: "rd_read r k = (bs, e, r1)" by (cases "rd_read r k") auto
    note f = rd_read_feeds [OF rd]
    have restr: "rest r = bs @ rest r1" using f feeds_rest by blast
    show ?thesis
    proof (cases e)
      case None
      have "end_error r1 = EOF" "k - length bs \<le> length (rest r1)"
        using "1.prems" restr f feeds_end [of r bs r1] by auto
      from "1.IH" [OF _ refl _ refl, of bs e r1, OF _ _ _ this] False rd None
      obtain r' where "FillBuffer_loop (acc @ bs) (k - length bs) r1 =
          Ok (acc @ bs @ take (k - length bs) (rest r1), r')"
        and "feeds r1 (take (k - length bs) (rest r1)) r'"
        by auto
      then show ?thesis
        using False rd None f restr feeds_trans [of r bs r1 "take (k - length bs) (rest r1)" r']
        by (simp add: FillBuffer_loop.simps [of acc k r])
    next
      case (Some err)
      from rd_read_error [of r k bs err r1] rd Some "1.prems"
      have "err = EOF" and "rest r1 = []" by auto
      then have "length bs = k" and "take k (rest r) = bs" using restr f "1.prems"(2) by auto
      then show ?thesis
        using False rd Some f \<open>err = EOF\<close> by (simp add: FillBuffer_loop.simps [of acc k r])
    qed
  qed
qed

lemma FillBuffer_loop_result:
  "FillBuffer_loop acc k r = Ok (out, r') \<Longrightarrow>
   \<exists>bs. out = acc @ bs \<and> length bs = k \<and> feeds r bs r'"
proof (induction acc k r arbitrary: out r' rule: FillBuffer_loop.induct)
  case (1 acc k r)
  show ?case
  proof (cases "k = 0")
    case True
    with "1.prems" show ?thesis by (simp add: FillBuffer_loop.simps feeds_refl)
  next
    case False
    obtain bs e r1 where rd: "rd_read r k = (bs, e, r1)" by (cases "rd_read r k") auto
    note f = rd_read_feeds [OF rd]
    show ?thesis
    proof (cases e)
      case None
      with "1.prems" False rd
      have "FillBuffer_loop (acc @ bs) (k - length bs) r1 = Ok (out, r')"
        by (simp add: FillBuffer_loop.simps [of acc k r])
      from "1.IH" [OF _ refl _ refl, of bs e r1, OF _ _ _ this] False rd None
      obtain bs2 where "out = acc @ bs @ bs2" "length bs2 = k - length bs" "feeds r1 bs2 r'" by auto
      with f feeds_trans [of r bs r1 bs2 r'] show ?thesis by auto
    next
      case (Some err)
      with "1.prems" False rd f show ?thesis
        by (auto simp: FillBuffer_loop.simps [of acc k r] split: if_splits)
    qed
  qed
qed

lemma FillBuffer_ok:
  assumes "end_error r = EOF" and "n \<le> length (rest r)"
  obtains r' where "FillBuffer n r = Ok (take n (rest r), r')" and "feeds r (take n (rest r)) r'"
  using FillBuffer_loop_ok [OF assms, of "[]"] by (auto simp: FillBuffer_def)

lemma FillBuffer_result:
  assumes "FillBuffer n r = Ok (bs, r')"
  shows "length bs = n" and "feeds r bs r'"
  using FillBuffer_loop_result [of "[]" n r bs r'] assms by (auto simp: FillBuffer_def)

lemma FillBuffer_never_panics: "FillBuffer n r \<noteq> Panic m"
proof -
  have "FillBuffer_loop acc k r \<noteq> Panic m" for acc k
  proof (induction acc k r rule: FillBuffer_loop.induct)
    case (1 acc k r)
    obtain bs e r1 where rd: "rd_read r k = (bs, e, r1)" by (cases "rd_read r k") auto
    show ?case
    proof (cases e)
      case None
      with "1.IH" [OF _ refl _ refl, of bs e r1] rd show ?thesis
        by (simp add: FillBuffer_loop.simps [of acc k r])
    next
      case (Some err)
      with rd show ?thesis by (simp add: FillBuffer_loop.simps [of acc k r])
    qed
  qed
  then show ?thesis by (simp add: FillBuffer_def)
qed

lemma FillBuffer_short:
  assumes "length (rest r) < n"
  shows "\<exists>err. FillBuffer n r = Err err"
proof (cases "FillBuffer n r")
  case (Ok x)
  obtain bs r' where x: "x = (bs, r')" by force
  with Ok FillBuffer_result [of n r bs r'] feeds_rest [of r bs r'] assms show ?thesis by auto
next
  case (Panic m)
  then show ?thesis using FillBuffer_never_panics by blast
qed simp

section \<open>Properties\<close>

text \<open>C36: filling a buffer from a source that still has enough bytes returns exactly the next bytes
  and advances the reader by exactly these, however the source chops its data into short reads and
  whether or not it reports the end together with the last bytes.\<close>

theorem FillBuffer_any_schedule:
  assumes "end_error r = EOF" and "n \<le> length (rest r)"
  shows "\<exists>r'. FillBuffer n r = Ok (take n (rest r), r') \<and> rest r' = drop n (rest r) \<and> end_error r' = EOF \<and>
    (has_offset r \<longrightarrow> rd_offset r' = rd_offset r + of_nat n)"
proof -
  obtain r' where r': "FillBuffer n r = Ok (take n (rest r), r')" "feeds r (take n (rest r)) r'"
    using FillBuffer_ok [OF assms] by blast
  have "rest r' = drop n (rest r)"
    using feeds_rest [OF r'(2)] by (metis append_take_drop_id same_append_eq)
  with r' feeds_end [OF r'(2)] feeds_offset [OF r'(2)] assms show ?thesis by auto
qed

theorem FillBuffer_any_schedule_witness:
  "\<exists>r'. FillBuffer 3 (Source \<lparr>src_data = [1, 2, 3, 4], src_schedule = [(1, False), (0, False), (2, True)], src_end = EOF\<rparr>)
     = Ok ([1, 2, 3], r') \<and> rest r' = [4]"
  using FillBuffer_any_schedule [of "Source \<lparr>src_data = [1, 2, 3, 4], src_schedule = [(1, False), (0, False), (2, True)], src_end = EOF\<rparr>" 3]
  by (auto simp: numeral_eq_Suc)

text \<open>When the source ends too early, filling a buffer returns an error, whatever the schedule of
  the reads; it never panics and never returns a short buffer.\<close>

theorem FillBuffer_truncated:
  assumes "length (rest r) < n"
  shows "\<exists>err. FillBuffer n r = Err err"
  using FillBuffer_short [OF assms] .

theorem FillBuffer_truncated_witness:
  "\<exists>err. FillBuffer 5 (NewIOReaderWithOffset (NewArrayReader [1, 2, 3])) = Err err"
  using FillBuffer_truncated [of "NewIOReaderWithOffset (NewArrayReader [1, 2, 3])" 5]
  by (simp add: NewIOReaderWithOffset_def NewArrayReader_def)

end
