(* ===== verification/Serializer.thy ===== *)
theory Serializer
  imports Readers
begin

text \<open>
  The big-endian serializer of \<^verbatim>\<open>common/serializer.go\<close>. The reading methods act on the
  serializer's reader, the writing methods on its writer; each is a function on that part of the
  state. Writers are a datatype as the readers are, \<open>Sink\<close> being the \<^verbatim>\<open>io.Writer\<close> at the
  bottom, which may have room for a limited number of bytes only.
\<close>

section \<open>Writers\<close>

record io_sink =
  snk_data :: bytes
  snk_room :: "nat option"

datatype wtr =
    Sink io_sink
  | ArrayWriter bytes u64
  | FileWriterWithOffset wtr u64
  | offsetTrackingWriter wtr u64

definition sink_write :: "io_sink \<Rightarrow> bytes \<Rightarrow> nat \<times> goerror option \<times> io_sink" where
  "sink_write s p =
     (case snk_room s of
        None \<Rightarrow> (length p, None, s\<lparr>snk_data := snk_data s @ p\<rparr>)
      | Some k \<Rightarrow>
          (if length p \<le> k then
             (length p, None, s\<lparr>snk_data := snk_data s @ p, snk_room := Some (k - length p)\<rparr>)
           else (k, Some (Errorf ''no space left on device''),
                 s\<lparr>snk_data := snk_data s @ take k p, snk_room := Some 0\<rparr>)))"

fun w_write :: "wtr \<Rightarrow> bytes \<Rightarrow> nat \<times> goerror option \<times> wtr" where
  "w_write (Sink s) p = (let (n, e, s') = sink_write s p in (n, e, Sink s'))"
| "w_write (ArrayWriter d currentOffset) p =
     (length p, None, ArrayWriter (d @ p) (currentOffset + of_nat (length p)))"
| "w_write (FileWriterWithOffset file currentOffset) p =
     (let (cnt, e, file') = w_write file p
      in case e of
           Some err \<Rightarrow> (cnt, Some err, FileWriterWithOffset file' currentOffset)
         | None \<Rightarrow>
             (let w' = FileWriterWithOffset file' (currentOffset + of_nat cnt)
              in if cnt \<noteq> length p then (cnt, Some ErrShortWrite, w') else (length p, None, w')))"
| "w_write (offsetTrackingWriter writer currentOffset) p =
     (let (n, e, writer') = w_write writer p
      in (n, e, offsetTrackingWriter writer' (currentOffset + of_nat n)))"

fun w_offset :: "wtr \<Rightarrow> u64" where
  "w_offset (Sink s) = 0"
| "w_offset (ArrayWriter d currentOffset) = currentOffset"
| "w_offset (FileWriterWithOffset file currentOffset) = currentOffset"
| "w_offset (offsetTrackingWriter writer currentOffset) = currentOffset"

definition NewArrayWriter :: wtr where
  "NewArrayWriter = ArrayWriter [] 0"

definition NewFileWriterWithOffset :: "wtr \<Rightarrow> wtr" where
  "NewFileWriterWithOffset file = FileWriterWithOffset file 0"

definition NewOffsetTrackingWriter :: "wtr \<Rightarrow> wtr" where
  "NewOffsetTrackingWriter writer = offsetTrackingWriter writer 0"

text \<open>The bytes that have reached the bottom of the chain.\<close>

fun contents :: "wtr \<Rightarrow> bytes" where
  "contents (Sink s) = snk_data s"
| "contents (ArrayWriter d currentOffset) = d"
| "contents (FileWriterWithOffset file currentOffset) = contents file"
| "contents (offsetTrackingWriter writer currentOffset) = contents writer"

fun unlimited :: "wtr \<Rightarrow> bool" where
  "unlimited (Sink s) \<longleftrightarrow> snk_room s = None"
| "unlimited (ArrayWriter d currentOffset) \<longleftrightarrow> True"
| "unlimited (FileWriterWithOffset file currentOffset) \<longleftrightarrow> unlimited file"
| "unlimited (offsetTrackingWriter writer currentOffset) \<longleftrightarrow> unlimited writer"

text \<open>\<open>wrote w bs w'\<close>: from \<open>w\<close> to \<open>w'\<close> exactly the bytes \<open>bs\<close> have been
  written, and every layer has counted them.\<close>

fun wrote :: "wtr \<Rightarrow> bytes \<Rightarrow> wtr \<Rightarrow> bool" where
  "wrote (Sink s) bs (Sink s') \<longleftrightarrow> snk_data s' = snk_data s @ bs \<and> snk_room s' = snk_room s"
| "wrote (ArrayWriter d o1) bs (ArrayWriter d' o2) \<longleftrightarrow> d' = d @ bs \<and> o2 = o1 + of_nat (length bs)"
| "wrote (FileWriterWithOffset f o1) bs (FileWriterWithOffset f' o2) \<longleftrightarrow>
     wrote f bs f' \<and> o2 = o1 + of_nat (length bs)"
| "wrote (offsetTrackingWriter f o1) bs (offsetTrackingWriter f' o2) \<longleftrightarrow>
     wrote f bs f' \<and> o2 = o1 + of_nat (length bs)"
| "wrote _ _ _ \<longleftrightarrow> False"

fun counts_offset :: "wtr \<Rightarrow> bool" where
  "counts_offset (Sink s) = False"
| "counts_offset _ = True"

section \<open>The serializer\<close>

record SerializerImpl =
  reader :: "rdr option"
  writer :: "wtr option"

definition NewSerializer :: "rdr option \<Rightarrow> wtr option \<Rightarrow> SerializerImpl" where
  "NewSerializer r w =
     (case w of
        Some w' \<Rightarrow> \<lparr>reader = r, writer = Some (NewOffsetTrackingWriter w')\<rparr>
      | None \<Rightarrow> \<lparr>reader = r, writer = None\<rparr>)"

definition NewSerializerFromArray :: "bytes \<Rightarrow> SerializerImpl" where
  "NewSerializerFromArray d = NewSerializer (Some (NewArrayReader d)) None"

definition serializer_offset :: "SerializerImpl \<Rightarrow> u64 outcome" where
  "serializer_offset s =
     (case reader s of
        Some r \<Rightarrow>
          (if writer s \<noteq> None then Panic ''Both reader and writer are set''
           else Ok (rd_offset r))
      | None \<Rightarrow>
          (case writer s of
             Some w \<Rightarrow> Ok (w_offset w)
           | None \<Rightarrow> Panic ''Neither reader nor writer are set ?''))"

subsection \<open>Reading\<close>

definition readByteArray :: "u32 \<Rightarrow> rdr \<Rightarrow> (bytes \<times> rdr) outcome" where
  "readByteArray len r = FillBuffer (unat len) r"

definition readByte :: "rdr \<Rightarrow> (u8 \<times> rdr) outcome" where
  "readByte r = obind (FillBuffer 1 r) (\<lambda>(buf, r'). Ok (buf ! 0, r'))"

definition readShort :: "rdr \<Rightarrow> (u16 \<times> rdr) outcome" where
  "readShort r =
     obind (FillBuffer 2 r)
       (\<lambda>(buf, r'). Ok (push_bit 8 (ucast (buf ! 0)) OR ucast (buf ! 1), r'))"

definition readWord :: "rdr \<Rightarrow> (u32 \<times> rdr) outcome" where
  "readWord r =
     obind (readShort r) (\<lambda>(high, r1).
     obind (readShort r1) (\<lambda>(low, r2).
     Ok (push_bit 16 (ucast high) OR ucast low, r2)))"

definition readLongWord :: "rdr \<Rightarrow> (u64 \<times> rdr) outcome" where
  "readLongWord r =
     obind (readWord r) (\<lambda>(high, r1).
     obind (readWord r1) (\<lambda>(low, r2).
     Ok (push_bit 32 (ucast high) OR ucast low, r2)))"

lemma readByte_consumes: "readByte r = Ok (b, r') \<Longrightarrow> rest r = b # rest r'"
proof -
  assume "readByte r = Ok (b, r')"
  then obtain buf where f: "FillBuffer 1 r = Ok (buf, r')" and b: "b = buf ! 0"
    by (auto simp: readByte_def elim!: obind_OkE)
  from FillBuffer_result [OF f] have "length buf = 1" and "rest r = buf @ rest r'"
    by (auto dest: feeds_rest)
  then show ?thesis using b by (cases buf) auto
qed

text \<open>Go returns the bytes read so far beside the error; so does the model.\<close>

function readNullTerminatedString_loop :: "bytes \<Rightarrow> rdr \<Rightarrow> bytes \<times> rdr outcome" where
  "readNullTerminatedString_loop result r =
     (case readByte r of
        Ok (b, r') \<Rightarrow>
          (if b = 0 then (result @ [b], Ok r')
           else readNullTerminatedString_loop (result @ [b]) r')
      | Err e \<Rightarrow> (result, Err e)
      | Panic m \<Rightarrow> (result, Panic m))"
  by pat_completeness auto
termination
  by (relation "measure (\<lambda>(result, r). length (rest r))") (auto dest: readByte_consumes)

declare readNullTerminatedString_loop.simps [simp del]

definition readNullTerminatedString :: "rdr \<Rightarrow> bytes \<times> rdr outcome" where
  "readNullTerminatedString r = readNullTerminatedString_loop [] r"

text \<open>Splits at every zero byte; bytes after the last zero are dropped.\<close>

fun split_terminated :: "string \<Rightarrow> bytes \<Rightarrow> string list" where
  "split_terminated builder [] = []"
| "split_terminated builder (value # data) =
     (if value = 0 then builder # split_terminated [] data
      else split_terminated (builder @ [char_of_byte value]) data)"

definition parseNullTerminatedStrings :: "bytes \<Rightarrow> string list" where
  "parseNullTerminatedStrings data = (if length data = 0 then [] else split_terminated [] data)"

text \<open>The chunk loop of \<^verbatim>\<open>readAhead\<close>, with the capacity of the scratch buffer.\<close>

function readAhead_loop :: "nat \<Rightarrow> nat \<Rightarrow> rdr \<Rightarrow> (nat \<times> rdr) outcome" where
  "readAhead_loop cap remaining r =
     (if remaining > 0 \<and> cap > 0 then
        (let cap' = (if remaining < cap then remaining else cap);
             (bs, e, r') = rd_read r cap'
         in if e \<noteq> None \<and> e \<noteq> Some EOF then Err (the e)
            else if length bs < cap' then Ok (remaining - length bs, r')
            else readAhead_loop cap' (remaining - length bs) r')
      else Ok (remaining, r))"
  by pat_completeness auto
termination
  by (relation "measure (\<lambda>(cap, remaining, r). remaining)") (auto split: if_splits)

declare readAhead_loop.simps [simp del]

definition scratchBufferSize :: nat where
  "scratchBufferSize = 100 * 1024"

definition readAhead :: "u32 \<Rightarrow> rdr \<Rightarrow> rdr outcome" where
  "readAhead n r =
     (if n = 0 then Ok r
      else if unat n \<le> scratchBufferSize then obind (FillBuffer (unat n) r) (\<lambda>(buf, r'). Ok r')
      else obind (readAhead_loop scratchBufferSize (unat n) r)
             (\<lambda>(remaining, r').
               if remaining > 0 then
                 Err (Errorf (''input data truncated ? Tried to read '' @ fmt_d (unat n) @
                   '' bytes, expected '' @ fmt_d remaining @ '' more bytes''))
               else Ok r'))"

definition advanceToNext8ByteBoundary :: "rdr \<Rightarrow> rdr outcome" where
  "advanceToNext8ByteBoundary r =
     obind (CalcAlignmentByteCount (rd_offset r) 8)
       (\<lambda>numBytesToSkip. if numBytesToSkip \<noteq> 0 then readAhead (ucast numBytesToSkip) r else Ok r)"

subsection \<open>Writing\<close>

definition writeBytes :: "bytes \<Rightarrow> wtr \<Rightarrow> wtr outcome" where
  "writeBytes data w =
     (let (written, e, w') = w_write w data
      in case e of
           Some err \<Rightarrow> Err err
         | None \<Rightarrow> if written \<noteq> length data then Err ErrShortWrite else Ok w')"

definition writeByte :: "u8 \<Rightarrow> wtr \<Rightarrow> wtr outcome" where
  "writeByte d w =
     (let (n, e, w') = w_write w [d]
      in case e of
           Some err \<Rightarrow> Err err
         | None \<Rightarrow> if n \<noteq> 1 then Err ErrShortWrite else Ok w')"

definition writeShort :: "u16 \<Rightarrow> wtr \<Rightarrow> wtr outcome" where
  "writeShort d w = obind (writeByte (ucast (drop_bit 8 d)) w) (writeByte (ucast d))"

definition writeWord :: "u32 \<Rightarrow> wtr \<Rightarrow> wtr outcome" where
  "writeWord d w = obind (writeShort (ucast (drop_bit 16 d)) w) (writeShort (ucast d))"

definition writeLongWord :: "u64 \<Rightarrow> wtr \<Rightarrow> wtr outcome" where
  "writeLongWord d w = obind (writeWord (ucast (drop_bit 32 d)) w) (writeWord (ucast d))"

definition writeAlignTo :: "u8 \<Rightarrow> wtr \<Rightarrow> wtr outcome" where
  "writeAlignTo alignment w =
     obind (CalcAlignmentByteCount (w_offset w) alignment)
       (\<lambda>numBytesToWrite.
         if numBytesToWrite \<noteq> 0 then
           (let paddingBytes = replicate (unat numBytesToWrite) 0;
                (bytesWritten, e, w') = w_write w paddingBytes
            in case e of
                 Some err \<Rightarrow> Err err
               | None \<Rightarrow> if bytesWritten \<noteq> length paddingBytes then Err ErrShortWrite else Ok w')
         else Ok w)"

subsection \<open>Repetition\<close>

text \<open>A counted loop that reads one item per turn, and a loop that writes the items of a slice.\<close>

fun read_times :: "(rdr \<Rightarrow> ('a \<times> rdr) outcome) \<Rightarrow> nat \<Rightarrow> rdr \<Rightarrow> ('a list \<times> rdr) outcome" where
  "read_times f 0 r = Ok ([], r)"
| "read_times f (Suc n) r =
     obind (f r) (\<lambda>(x, r1). obind (read_times f n r1) (\<lambda>(xs, r2). Ok (x # xs, r2)))"

fun write_each :: "('a \<Rightarrow> wtr \<Rightarrow> wtr outcome) \<Rightarrow> 'a list \<Rightarrow> wtr \<Rightarrow> wtr outcome" where
  "write_each f [] w = Ok w"
| "write_each f (x # xs) w = obind (f x w) (write_each f xs)"

subsection \<open>Specification: the encoded bytes\<close>

definition be16 :: "u16 \<Rightarrow> bytes" where
  "be16 d = [ucast (drop_bit 8 d), ucast d]"

definition be32 :: "u32 \<Rightarrow> bytes" where
  "be32 d = be16 (ucast (drop_bit 16 d)) @ be16 (ucast d)"

definition be64 :: "u64 \<Rightarrow> bytes" where
  "be64 d = be32 (ucast (drop_bit 32 d)) @ be32 (ucast d)"

text \<open>\<open>reads f x bs\<close>: whenever the bytes \<open>bs\<close> come next, however they are chunked,
  \<open>f\<close> returns \<open>x\<close> and consumes exactly them. \<open>emits f bs\<close>: \<open>f\<close> appends
  exactly \<open>bs\<close> to any writer with room.\<close>

definition reads :: "(rdr \<Rightarrow> ('a \<times> rdr) outcome) \<Rightarrow> 'a \<Rightarrow> bytes \<Rightarrow> bool" where
  "reads f x bs \<longleftrightarrow>
     (\<forall>r left. end_error r = EOF \<longrightarrow> rest r = bs @ left \<longrightarrow>
        (\<exists>r'. f r = Ok (x, r') \<and> feeds r bs r'))"

definition emits :: "(wtr \<Rightarrow> wtr outcome) \<Rightarrow> bytes \<Rightarrow> bool" where
  "emits f bs \<longleftrightarrow> (\<forall>w. unlimited w \<longrightarrow> (\<exists>w'. f w = Ok w' \<and> wrote w bs w'))"

section \<open>Reading and writing in sequence\<close>

lemma readsD:
  assumes "reads f x bs" and "end_error r = EOF" and "rest r = bs @ left"
  obtains r' where "f r = Ok (x, r')" and "feeds r bs r'" and "rest r' = left"
    and "end_error r' = EOF"
proof -
  from assms obtain r' where "f r = Ok (x, r')" and f: "feeds r bs r'"
    unfolding reads_def by blast
  with feeds_rest [OF f] feeds_end [OF f] assms(2,3) that show thesis by auto
qed

lemma reads_bind:
  assumes "reads f x a" and "reads (g x) y b"
  shows "reads (\<lambda>r. obind (f r) (\<lambda>(x, r'). g x r')) y (a @ b)"
  unfolding reads_def
proof (intro allI impI)
  fix r left assume r: "end_error r = EOF" "rest r = (a @ b) @ left"
  then obtain r1 where r1: "f r = Ok (x, r1)" "feeds r a r1" "rest r1 = b @ left" "end_error r1 = EOF"
    using readsD [OF assms(1), of r "b @ left"] by auto
  with readsD [OF assms(2) r1(4,3)] obtain r2 where "g x r1 = Ok (y, r2)" "feeds r1 b r2" by metis
  with r1 feeds_trans [of r a r1 b r2]
  show "\<exists>r'. obind (f r) (\<lambda>(x, r'). g x r') = Ok (y, r') \<and> feeds r (a @ b) r'" by simp
qed

lemma reads_return: "reads (\<lambda>r. Ok (x, r)) x []"
  by (simp add: reads_def feeds_refl)

lemma reads_map:
  assumes "reads f x a" and "y = h x"
  shows "reads (\<lambda>r. obind (f r) (\<lambda>(x, r'). Ok (h x, r'))) y a"
  using reads_bind [OF assms(1), of "\<lambda>x r. Ok (h x, r)" y "[]"] reads_return [of y] assms(2) by simp

lemma reads_FillBuffer: "length bs = n \<Longrightarrow> reads (FillBuffer n) bs bs"
  unfolding reads_def by (metis FillBuffer_ok append_eq_conv_conj le_add1 length_append)

lemma reads_times:
  assumes "\<And>x. x \<in> set xs \<Longrightarrow> reads f x (g x)"
  shows "reads (read_times f (length xs)) xs (concat (map g xs))"
  using assms
proof (induction xs)
  case Nil
  show ?case using reads_return [of "[]"] by (simp add: reads_def)
next
  case (Cons x xs)
  then have f: "reads f x (g x)" and IH: "reads (read_times f (length xs)) xs (concat (map g xs))"
    by auto
  from reads_bind [OF f, of "\<lambda>x r. obind (read_times f (length xs) r) (\<lambda>(xs, r2). Ok (x # xs, r2))",
      OF reads_map [OF IH refl]]
  show ?case by (simp add: reads_def)
qed

lemma wrote_refl: "wrote w [] w"
  by (induction w) auto

lemma wrote_trans: "wrote w a w' \<Longrightarrow> wrote w' b w'' \<Longrightarrow> wrote w (a @ b) w''"
proof (induction w a w' arbitrary: w'' rule: wrote.induct)
  case (1 s bs s')
  then show ?case by (cases w'') auto
next
  case (2 d o1 bs d' o2)
  then show ?case by (cases w'') auto
next
  case (3 f o1 bs f' o2)
  then show ?case by (cases w'') auto
next
  case (4 f o1 bs f' o2)
  then show ?case by (cases w'') auto
qed auto

lemma wrote_contents: "wrote w bs w' \<Longrightarrow> contents w' = contents w @ bs"
  by (induction w bs w' rule: wrote.induct) auto

lemma wrote_unlimited: "wrote w bs w' \<Longrightarrow> unlimited w' = unlimited w"
  by (induction w bs w' rule: wrote.induct) auto

lemma wrote_offset:
  "wrote w bs w' \<Longrightarrow> counts_offset w \<Longrightarrow>
   w_offset w' = w_offset w + of_nat (length bs) \<and> counts_offset w'"
  by (induction w bs w' rule: wrote.induct) auto

lemma w_write_unlimited:
  "unlimited w \<Longrightarrow> \<exists>w'. w_write w p = (length p, None, w') \<and> wrote w p w'"
proof (induction w)
  case (FileWriterWithOffset f o1)
  then show ?case by (auto simp: Let_def)
next
  case (offsetTrackingWriter w o1)
  then show ?case by auto
qed (auto simp: sink_write_def)

lemma emits_writeBytes: "emits (writeBytes bs) bs"
  unfolding emits_def writeBytes_def by (auto dest!: w_write_unlimited [where p = bs])

lemma emits_writeByte: "emits (writeByte b) [b]"
  unfolding emits_def writeByte_def by (auto dest!: w_write_unlimited [where p = "[b]"])

lemma emits_return: "emits Ok []"
  by (simp add: emits_def wrote_refl)

lemma emitsD:
  assumes "emits f bs" and "unlimited w"
  obtains w' where "f w = Ok w'" and "wrote w bs w'" and "unlimited w'"
    and "contents w' = contents w @ bs"
  using assms unfolding emits_def by (metis wrote_contents wrote_unlimited)

lemma emits_bind:
  assumes "emits f a" and "emits g b"
  shows "emits (\<lambda>w. obind (f w) g) (a @ b)"
  unfolding emits_def
proof (intro allI impI)
  fix w assume "unlimited w"
  with assms(1) obtain w1 where w1: "f w = Ok w1" "wrote w a w1" "unlimited w1" by (rule emitsD)
  from assms(2) w1(3) obtain w2 where "g w1 = Ok w2" "wrote w1 b w2" by (rule emitsD)
  with w1 wrote_trans [of w a w1 b w2] show "\<exists>w'. obind (f w) g = Ok w' \<and> wrote w (a @ b) w'" by simp
qed

lemma emits_each:
  assumes "\<And>x. x \<in> set xs \<Longrightarrow> emits (f x) (g x)"
  shows "emits (write_each f xs) (concat (map g xs))"
  using assms
proof (induction xs)
  case Nil
  show ?case by (simp add: emits_def wrote_refl)
next
  case (Cons x xs)
  then have "emits (f x) (g x)" "emits (write_each f xs) (concat (map g xs))" by auto
  from emits_bind [OF this] show ?case by (simp add: emits_def)
qed

section \<open>Codecs\<close>

text \<open>A codec pairs a writing method with the reading method that undoes it, over the bytes
  that travel between them. The laws are what every fixed-width field of the RPM format relies
  on; the round trip through a file, under any chunking of the reads, is proved once here.\<close>

locale codec =
  fixes put :: "'a \<Rightarrow> wtr \<Rightarrow> wtr outcome"
    and get :: "rdr \<Rightarrow> ('a \<times> rdr) outcome"
    and enc :: "'a \<Rightarrow> bytes"
    and width :: nat
  assumes put_emits: "emits (put x) (enc x)"
    and get_reads: "reads get x (enc x)"
    and enc_width: "length (enc x) = width"
begin

lemma put_contents:
  assumes "unlimited w"
  obtains w' where "put x w = Ok w'" and "contents w' = contents w @ enc x"
  using emitsD [OF put_emits assms] by metis

text \<open>What was written at the end of a file reads back, and the reader stops right behind it.\<close>

lemma put_get:
  assumes "unlimited w" and "put x w = Ok w'" and "end_error r = EOF"
    and "contents w @ rest r = contents w' @ left"
  shows "\<exists>r'. get r = Ok (x, r') \<and> rest r' = left"
proof -
  from put_contents [OF assms(1), of x] assms(2) have "contents w' = contents w @ enc x" by force
  with assms(4) have "rest r = enc x @ left" by simp
  with readsD [OF get_reads assms(3)] show ?thesis by metis
qed

lemma enc_inj:
  assumes eq: "enc x = enc y"
  shows "x = y"
proof -
  let ?r = "NewArrayReader (enc x)"
  have r: "end_error ?r = EOF" "rest ?r = enc x @ []" "rest ?r = enc y @ []"
    using eq by (simp_all add: NewArrayReader_def)
  obtain r1 where "get ?r = Ok (x, r1)" by (rule readsD [OF get_reads r(1,2)])
  moreover obtain r2 where "get ?r = Ok (y, r2)" by (rule readsD [OF get_reads r(1,3)])
  ultimately show ?thesis by simp
qed

lemma put_get_list:
  shows "emits (write_each put xs) (concat (map enc xs))"
    and "reads (read_times get (length xs)) xs (concat (map enc xs))"
    and "length (concat (map enc xs)) = width * length xs"
proof -
  show "emits (write_each put xs) (concat (map enc xs))" by (rule emits_each) (rule put_emits)
  show "reads (read_times get (length xs)) xs (concat (map enc xs))"
    by (rule reads_times) (rule get_reads)
  show "length (concat (map enc xs)) = width * length xs" by (induction xs) (auto simp: enc_width)
qed

end

lemma join16: "push_bit 8 (ucast (ucast (drop_bit 8 d) :: u8)) OR ucast (ucast d :: u8) = (d :: u16)"
  by (rule bit_word_eqI) (auto simp: bit_simps)

lemma join32: "push_bit 16 (ucast (ucast (drop_bit 16 d) :: u16)) OR ucast (ucast d :: u16) = (d :: u32)"
  by (rule bit_word_eqI) (auto simp: bit_simps)

lemma join64: "push_bit 32 (ucast (ucast (drop_bit 32 d) :: u32)) OR ucast (ucast d :: u32) = (d :: u64)"
  by (rule bit_word_eqI) (auto simp: bit_simps)

interpretation byte_codec: codec writeByte readByte "\<lambda>b. [b]" 1
proof unfold_locales
  fix x :: u8
  show "emits (writeByte x) [x]" by (rule emits_writeByte)
  show "reads readByte x [x]"
    using reads_map [OF reads_FillBuffer [of "[x]" 1], where h = "\<lambda>buf. buf ! 0"]
    by (simp add: reads_def readByte_def)
qed simp

interpretation short_codec: codec writeShort readShort be16 2
proof unfold_locales
  fix x :: u16
  show "emits (writeShort x) (be16 x)"
    using emits_bind [OF emits_writeByte [of "ucast (drop_bit 8 x)"] emits_writeByte [of "ucast x"]]
    by (simp add: emits_def writeShort_def be16_def)
  show "reads readShort x (be16 x)"
    using reads_map [OF reads_FillBuffer [of "be16 x" 2],
        where h = "\<lambda>buf. push_bit 8 (ucast (buf ! 0)) OR ucast (buf ! 1)" and y = x]
    by (simp add: reads_def readShort_def be16_def join16)
qed (simp add: be16_def)

interpretation word_codec: codec writeWord readWord be32 4
proof unfold_locales
  fix x :: u32
  show "emits (writeWord x) (be32 x)"
    using emits_bind [OF short_codec.put_emits short_codec.put_emits]
    by (simp add: emits_def writeWord_def be32_def)
  show "reads readWord x (be32 x)"
    unfolding readWord_def be32_def
    by (rule reads_bind [OF short_codec.get_reads])
      (rule reads_map [OF short_codec.get_reads], simp add: join32)
qed (simp add: be32_def short_codec.enc_width)

interpretation long_codec: codec writeLongWord readLongWord be64 8
proof unfold_locales
  fix x :: u64
  show "emits (writeLongWord x) (be64 x)"
    using emits_bind [OF word_codec.put_emits word_codec.put_emits]
    by (simp add: emits_def writeLongWord_def be64_def)
  show "reads readLongWord x (be64 x)"
    unfolding readLongWord_def be64_def
    by (rule reads_bind [OF word_codec.get_reads])
      (rule reads_map [OF word_codec.get_reads], simp add: join64)
qed (simp add: be64_def word_codec.enc_width)

section \<open>Properties\<close>

text \<open>C37: the fixed-width integers are written big-endian and read back: whatever is read after a
  write starts at the first byte behind the integer.\<close>

theorem integer_round_trip:
  assumes "unlimited w" and "end_error r = EOF"
  shows "\<exists>w1 w2 w3. writeShort a w = Ok w1 \<and> writeWord b w1 = Ok w2 \<and> writeLongWord c w2 = Ok w3 \<and>
    contents w3 = contents w @ be16 a @ be32 b @ be64 c \<and>
    (rest r = be16 a @ be32 b @ be64 c @ left \<longrightarrow>
      (\<exists>r1 r2 r3. readShort r = Ok (a, r1) \<and> readWord r1 = Ok (b, r2) \<and> readLongWord r2 = Ok (c, r3) \<and>
         rest r3 = left))"
proof -
  obtain w1 where w1: "writeShort a w = Ok w1" "unlimited w1" "contents w1 = contents w @ be16 a"
    using emitsD [OF short_codec.put_emits assms(1)] by metis
  obtain w2 where w2: "writeWord b w1 = Ok w2" "unlimited w2" "contents w2 = contents w1 @ be32 b"
    using emitsD [OF word_codec.put_emits w1(2)] by metis
  obtain w3 where w3: "writeLongWord c w2 = Ok w3" "contents w3 = contents w2 @ be64 c"
    using emitsD [OF long_codec.put_emits w2(2)] by metis
  have "\<exists>r1 r2 r3. readShort r = Ok (a, r1) \<and> readWord r1 = Ok (b, r2) \<and> readLongWord r2 = Ok (c, r3) \<and> rest r3 = left"
    if rr: "rest r = be16 a @ be32 b @ be64 c @ left"
  proof -
    from rr obtain r1 where r1: "readShort r = Ok (a, r1)" "rest r1 = be32 b @ be64 c @ left" "end_error r1 = EOF"
      using readsD [OF short_codec.get_reads assms(2)] by metis
    then obtain r2 where r2: "readWord r1 = Ok (b, r2)" "rest r2 = be64 c @ left" "end_error r2 = EOF"
      using readsD [OF word_codec.get_reads] by metis
    then obtain r3 where "readLongWord r2 = Ok (c, r3)" "rest r3 = left"
      using readsD [OF long_codec.get_reads] by metis
    with r1 r2 show ?thesis by blast
  qed
  with w1 w2 w3 show ?thesis by auto
qed

theorem integer_round_trip_witness:
  "\<exists>w1 w2 w3 r1 r2 r3. writeShort 0x0102 NewArrayWriter = Ok w1 \<and> writeWord 0x03040506 w1 = Ok w2 \<and>
     writeLongWord 7 w2 = Ok w3 \<and> contents w3 = [1, 2, 3, 4, 5, 6, 0, 0, 0, 0, 0, 0, 0, 7] \<and>
     readShort (NewArrayReader [1, 2, 3, 4, 5, 6, 0, 0, 0, 0, 0, 0, 0, 7, 9]) = Ok (0x0102, r1) \<and>
     readWord r1 = Ok (0x03040506, r2) \<and> readLongWord r2 = Ok (7, r3) \<and> rest r3 = [9]"
proof -
  let ?r = "NewArrayReader [1, 2, 3, 4, 5, 6, 0, 0, 0, 0, 0, 0, 0, 7, 9]"
  have e: "be16 0x0102 @ be32 0x03040506 @ be64 7 = [1, 2, 3, 4, 5, 6, 0, 0, 0, 0, 0, 0, 0, 7]"
    by (simp add: be16_def be32_def be64_def)
  have "unlimited NewArrayWriter" "end_error ?r = EOF" "contents NewArrayWriter = []"
    "rest ?r = be16 0x0102 @ be32 0x03040506 @ be64 7 @ [9]"
    by (simp_all add: NewArrayWriter_def NewArrayReader_def be16_def be32_def be64_def)
  with integer_round_trip [of NewArrayWriter ?r "0x0102" "0x03040506" 7 "[9]"] e show ?thesis by auto
qed

text \<open>Skipping at most 100 KiB works like filling a buffer; it succeeds and advances by exactly
  the requested number of bytes when the source has them.\<close>

theorem readAhead_small:
  assumes "end_error r = EOF" and "unat n \<le> length (rest r)" and "unat n \<le> scratchBufferSize"
  shows "\<exists>r'. readAhead n r = Ok r' \<and> rest r' = drop (unat n) (rest r)"
proof (cases "n = 0")
  case False
  obtain r' where r': "FillBuffer (unat n) r = Ok (take (unat n) (rest r), r')" "feeds r (take (unat n) (rest r)) r'"
    using FillBuffer_ok [OF assms(1,2)] by blast
  have "rest r' = drop (unat n) (rest r)"
    using feeds_rest [OF r'(2)] by (metis append_take_drop_id same_append_eq)
  with r' False assms(3) show ?thesis by (simp add: readAhead_def)
qed (simp add: readAhead_def)

theorem readAhead_small_witness: "\<exists>r'. readAhead 2 (NewArrayReader [1, 2, 3]) = Ok r' \<and> rest r' = [3]"
  using readAhead_small [of "NewArrayReader [1, 2, 3]" 2]
  by (simp add: NewArrayReader_def scratchBufferSize_def)


end
