(* ===== verification/Tags.thy ===== *)
theory Tags
  imports Rpm_Prelude
begin

text \<open>
  The tag registries of \<^verbatim>\<open>common/mainheadertags.go\<close> and
  \<^verbatim>\<open>common/signatureheadertags.go\<close>. The main header tags are listed in the groups the source
  has, in the order \<^verbatim>\<open>init()\<close> registers them. A registry is a map from tag numbers to tag
  values; a lookup of an unknown number adds a made-up value to it.
\<close>

section \<open>Definitions\<close>

datatype TagValue = TagValue (ID: u32) (Label: string)

type_synonym registry = "u32 \<rightharpoonup> TagValue"

subsection \<open>Signature header tags\<close>

definition SigTagSize :: TagValue where
  "SigTagSize = TagValue 1000 ''SIG_SIZE''"

definition SigTagLEMD5_1 :: TagValue where
  "SigTagLEMD5_1 = TagValue 1001 ''SIG_LEMD5_1''"

definition SigTagPGP :: TagValue where
  "SigTagPGP = TagValue 1002 ''SIG_PGP''"

definition SigTagLEMD5_2 :: TagValue where
  "SigTagLEMD5_2 = TagValue 1003 ''SIG_LEMD5_2''"

definition SigTagMD5 :: TagValue where
  "SigTagMD5 = TagValue 1004 ''SIG_MD5''"

definition SigTagGPG :: TagValue where
  "SigTagGPG = TagValue 1005 ''SIG_GPG''"

definition SigTagPGP5 :: TagValue where
  "SigTagPGP5 = TagValue 1006 ''SIG_PGP5''"

definition SigTagPayloadSize :: TagValue where
  "SigTagPayloadSize = TagValue 1007 ''SIG_PAYLOADSIZE''"

definition SigTagReservedSpace :: TagValue where
  "SigTagReservedSpace = TagValue 1008 ''SIG_RESERVEDSPACE''"

definition SigTagHeaderSignatures :: TagValue where
  "SigTagHeaderSignatures = TagValue 62 ''HEADERSIGNATURES''"

definition SigTagSigSize :: TagValue where
  "SigTagSigSize = TagValue 257 ''SIGSIZE''"

definition SigTagSigPGP :: TagValue where
  "SigTagSigPGP = TagValue 259 ''SIGPGP''"

definition SigTagSigMD5 :: TagValue where
  "SigTagSigMD5 = TagValue 261 ''SIGMD5''"

definition SigTagSigGPG :: TagValue where
  "SigTagSigGPG = TagValue 262 ''SIGGPG''"

definition SigTagDSAHeader :: TagValue where
  "SigTagDSAHeader = TagValue 267 ''DSAHEADER''"

definition SigTagRSAHeader :: TagValue where
  "SigTagRSAHeader = TagValue 268 ''RSAHEADER''"

definition SigTagSHA1Header :: TagValue where
  "SigTagSHA1Header = TagValue 269 ''SHA1HEADER''"

definition SigTagLongSigSize :: TagValue where
  "SigTagLongSigSize = TagValue 270 ''LONGSIGSIZE''"

definition SigTagLongArchiveSize :: TagValue where
  "SigTagLongArchiveSize = TagValue 271 ''LONGARCHIVESIZE''"

definition SigTagSHA256Header :: TagValue where
  "SigTagSHA256Header = TagValue 273 ''SHA256HEADER''"

definition SigTagFileSignTag :: TagValue where
  "SigTagFileSignTag = TagValue 274 ''FILESIGNTAG''"

definition SigTagPayloadDigest :: TagValue where
  "SigTagPayloadDigest = TagValue 275 ''PAYLOADDIGEST''"

definition SigTagVeritySignatures :: TagValue where
  "SigTagVeritySignatures = TagValue 276 ''VERITYSIGNATURES''"

definition SigTagVeritySigAlgo :: TagValue where
  "SigTagVeritySigAlgo = TagValue 277 ''VERITYSIGNATUREALGO''"

definition SigTagOpenPGP :: TagValue where
  "SigTagOpenPGP = TagValue 278 ''OPENPGP''"

definition SigTagSHA3_256Header :: TagValue where
  "SigTagSHA3_256Header = TagValue 279 ''SHA3_256_HEADER''"

definition allSignatureTags :: "TagValue list" where
  "allSignatureTags =
    [SigTagSize, SigTagLEMD5_1, SigTagPGP, SigTagLEMD5_2, 
     SigTagMD5, SigTagGPG, SigTagPGP5, SigTagPayloadSize, 
     SigTagReservedSpace, SigTagHeaderSignatures, SigTagSigSize, SigTagSigPGP, 
     SigTagSigMD5, SigTagSigGPG, SigTagDSAHeader, SigTagRSAHeader, 
     SigTagSHA1Header, SigTagLongSigSize, SigTagLongArchiveSize, SigTagSHA256Header, 
     SigTagVeritySignatures, SigTagVeritySigAlgo, SigTagOpenPGP, SigTagSHA3_256Header, 
     SigTagFileSignTag, SigTagPayloadDigest]"

lemmas SigTag_defs =
  SigTagSize_def SigTagLEMD5_1_def SigTagPGP_def SigTagLEMD5_2_def 
  SigTagMD5_def SigTagGPG_def SigTagPGP5_def SigTagPayloadSize_def 
  SigTagReservedSpace_def SigTagHeaderSignatures_def SigTagSigSize_def SigTagSigPGP_def 
  SigTagSigMD5_def SigTagSigGPG_def SigTagDSAHeader_def SigTagRSAHeader_def 
  SigTagSHA1Header_def SigTagLongSigSize_def SigTagLongArchiveSize_def SigTagSHA256Header_def 
  SigTagFileSignTag_def SigTagPayloadDigest_def SigTagVeritySignatures_def SigTagVeritySigAlgo_def 
  SigTagOpenPGP_def SigTagSHA3_256Header_def

subsection \<open>Main header tags\<close>

definition TagRpmformat :: TagValue where
  "TagRpmformat = TagValue 5114 ''RPMFORMAT''"

definition TagRpmversion :: TagValue where
  "TagRpmversion = TagValue 1064 ''RPMVERSION''"

definition TagHeaderImmutable :: TagValue where
  "TagHeaderImmutable = TagValue 63 ''HEADERIMMUTABLE''"

definition baseTags :: "TagValue list" where
  "baseTags =
    [TagValue 1000 ''NAME'',
     TagValue 1001 ''VERSION'',
     TagValue 1002 ''RELEASE'',
     TagValue 1003 ''EPOCH'',
     TagValue 1014 ''LICENSE'',
     TagValue 1004 ''SUMMARY'',
     TagValue 1005 ''DESCRIPTION'',
     TagValue 1021 ''OS'',
     TagValue 1022 ''ARCH'']"

definition informativeTags :: "TagValue list" where
  "informativeTags =
    [TagValue 1007 ''BUILDHOST'',
     TagValue 1006 ''BUILDTIME'',
     TagValue 5012 ''BUGURL'',
     TagValue 1081 ''CHANGELOGNAME'',
     TagValue 1082 ''CHANGELOGTEXT'',
     TagValue 1080 ''CHANGELOGTIME'',
     TagValue 1094 ''COOKIE'',
     TagValue 1010 ''DISTRIBUTION'',
     TagValue 1155 ''DISTTAG'',
     TagValue 1123 ''DISTURL'',
     TagValue 5062 ''ENCODING'',
     TagValue 1016 ''GROUP'',
     TagValue 5096 ''MODULARITYLABEL'',
     TagValue 1122 ''OPTFLAGS'',
     TagValue 1015 ''PACKAGER'',
     TagValue 1132 ''PLATFORM'',
     TagValue 1150 ''POLICIES'',
     TagValue 5033 ''POLICYFLAGS'',
     TagValue 5030 ''POLICYNAMES'',
     TagValue 5031 ''POLICYTYPES'',
     TagValue 5032 ''POLICYTYPESINDEXES'',
     TagRpmformat,
     TagRpmversion,
     TagValue 1146 ''SOURCEPKGID'',
     TagValue 1044 ''SOURCERPM'',
     TagValue 5100 ''TRANSLATIONURL'',
     TagValue 5101 ''UPSTREAMRELEASES'',
     TagValue 1020 ''URL'',
     TagValue 5034 ''VCS'',
     TagValue 1011 ''VENDOR'',
     TagValue 5120 ''SOURCENEVR'']"

definition packageFileTags :: "TagValue list" where
  "packageFileTags =
    [TagValue 1046 ''ARCHIVESIZE'',
     TagValue 1118 ''DIRNAMES'',
     TagValue 5011 ''FILEDIGESTALGO'',
     TagValue 271 ''LONGARCHIVESIZE'',
     TagValue 5009 ''LONGSIZE'',
     TagValue 5116 ''MIMEDICT'',
     TagValue 1125 ''PAYLOADCOMPRESSOR'',
     TagValue 1126 ''PAYLOADFLAGS'',
     TagValue 1124 ''PAYLOADFORMAT'',
     TagValue 1098 ''PREFIXES'',
     TagValue 1009 ''SIZE'']"

definition perFileTags :: "TagValue list" where
  "perFileTags =
    [TagValue 1117 ''BASENAMES'',
     TagValue 1116 ''DIRINDEXES'',
     TagValue 1095 ''FILEDEVICES'',
     TagValue 1035 ''FILEDIGESTS'',
     TagValue 1037 ''FILEFLAGS'',
     TagValue 1040 ''FILEGROUPNAME'',
     TagValue 1096 ''FILEINODES'',
     TagValue 1097 ''FILELANGS'',
     TagValue 1036 ''FILELINKTOS'',
     TagValue 5115 ''FILEMIMEINDEX'',
     TagValue 1030 ''FILEMODES'',
     TagValue 1034 ''FILEMTIMES'',
     TagValue 1033 ''FILERDEVS'',
     TagValue 1028 ''FILESIZES'',
     TagValue 1039 ''FILEUSERNAME'',
     TagValue 1045 ''FILEVERIFYFLAGS'',
     TagValue 5008 ''LONGFILESIZES'']"

definition optionalFileTags :: "TagValue list" where
  "optionalFileTags =
    [TagValue 1142 ''CLASSDICT'',
     TagValue 1145 ''DEPENDSDICT'',
     TagValue 5010 ''FILECAPS'',
     TagValue 1141 ''FILECLASS'',
     TagValue 1140 ''FILECOLORS'',
     TagValue 1144 ''FILEDEPENDSN'',
     TagValue 1143 ''FILEDEPENDSX'',
     TagValue 5091 ''FILESIGNATURELENGTH'',
     TagValue 5090 ''FILESIGNATURES'',
     TagValue 277 ''VERITYSIGNATUREALGO'',
     TagValue 276 ''VERITYSIGNATURES'']"

definition hardDependencyTags :: "TagValue list" where
  "hardDependencyTags =
    [TagValue 1047 ''PROVIDENAME'',
     TagValue 1113 ''PROVIDEVERSION'',
     TagValue 1112 ''PROVIDEFLAGS'',
     TagValue 1049 ''REQUIRENAME'',
     TagValue 1050 ''REQUIREVERSION'',
     TagValue 1048 ''REQUIREFLAGS'',
     TagValue 1054 ''CONFLICTNAME'',
     TagValue 1055 ''CONFLICTVERSION'',
     TagValue 1053 ''CONFLICTFLAGS'',
     TagValue 1090 ''OBSOLETENAME'',
     TagValue 1115 ''OBSOLETEVERSION'',
     TagValue 1114 ''OBSOLETEFLAGS'']"

definition softDependencyTags :: "TagValue list" where
  "softDependencyTags =
    [TagValue 5055 ''ENHANCENAME'',
     TagValue 5056 ''ENHANCEVERSION'',
     TagValue 5057 ''ENHANCEFLAGS'',
     TagValue 5046 ''RECOMMENDNAME'',
     TagValue 5047 ''RECOMMENDVERSION'',
     TagValue 5048 ''RECOMMENDFLAGS'',
     TagValue 5049 ''SUGGESTNAME'',
     TagValue 5050 ''SUGGESTVERSION'',
     TagValue 5051 ''SUGGESTFLAGS'',
     TagValue 5052 ''SUPPLEMENTNAME'',
     TagValue 5053 ''SUPPLEMENTVERSION'',
     TagValue 5054 ''SUPPLEMENTFLAGS'',
     TagValue 5035 ''ORDERNAME'',
     TagValue 5036 ''ORDERVERSION'',
     TagValue 5037 ''ORDERFLAGS'']"

definition scriptletTags :: "TagValue list" where
  "scriptletTags =
    [TagValue 1024 ''POSTIN'',
     TagValue 5021 ''POSTINFLAGS'',
     TagValue 1086 ''POSTINPROG'',
     TagValue 1152 ''POSTTRANS'',
     TagValue 5025 ''POSTTRANSFLAGS'',
     TagValue 1154 ''POSTTRANSPROG'',
     TagValue 5104 ''POSTUNTRANS'',
     TagValue 5108 ''POSTUNTRANSFLAGS'',
     TagValue 5106 ''POSTUNTRANSPROG'',
     TagValue 1026 ''POSTUN'',
     TagValue 5023 ''POSTUNFLAGS'',
     TagValue 1088 ''POSTUNPROG'',
     TagValue 1023 ''PREIN'',
     TagValue 5020 ''PREINFLAGS'',
     TagValue 1085 ''PREINPROG'',
     TagValue 1151 ''PRETRANS'',
     TagValue 5024 ''PRETRANSFLAGS'',
     TagValue 1153 ''PRETRANSPROG'',
     TagValue 5103 ''PREUNTRANS'',
     TagValue 5107 ''PREUNTRANSFLAGS'',
     TagValue 5105 ''PREUNTRANSPROG'',
     TagValue 1025 ''PREUN'',
     TagValue 5022 ''PREUNFLAGS'',
     TagValue 1087 ''PREUNPROG'',
     TagValue 1079 ''VERIFYSCRIPT'',
     TagValue 5026 ''VERIFYSCRIPTFLAGS'',
     TagValue 1091 ''VERIFYSCRIPTPROG'']"

definition triggerTags :: "TagValue list" where
  "triggerTags =
    [TagValue 1068 ''TRIGGERFLAGS'',
     TagValue 1069 ''TRIGGERINDEX'',
     TagValue 1066 ''TRIGGERNAME'',
     TagValue 5027 ''TRIGGERSCRIPTFLAGS'',
     TagValue 1092 ''TRIGGERSCRIPTPROG'',
     TagValue 1065 ''TRIGGERSCRIPTS'',
     TagValue 1067 ''TRIGGERVERSION'']"

definition fileTriggerTags :: "TagValue list" where
  "fileTriggerTags =
    [TagValue 5072 ''FILETRIGGERFLAGS'',
     TagValue 5070 ''FILETRIGGERINDEX'',
     TagValue 5069 ''FILETRIGGERNAME'',
     TagValue 5084 ''FILETRIGGERPRIORITIES'',
     TagValue 5068 ''FILETRIGGERSCRIPTFLAGS'',
     TagValue 5067 ''FILETRIGGERSCRIPTPROG'',
     TagValue 5066 ''FILETRIGGERSCRIPTS'',
     TagValue 5071 ''FILETRIGGERVERSION'',
     TagValue 5082 ''TRANSFILETRIGGERFLAGS'',
     TagValue 5080 ''TRANSFILETRIGGERINDEX'',
     TagValue 5079 ''TRANSFILETRIGGERNAME'',
     TagValue 5085 ''TRANSFILETRIGGERPRIORITIES'',
     TagValue 5078 ''TRANSFILETRIGGERSCRIPTFLAGS'',
     TagValue 5077 ''TRANSFILETRIGGERSCRIPTPROG'',
     TagValue 5076 ''TRANSFILETRIGGERSCRIPTS'',
     TagValue 5081 ''TRANSFILETRIGGERVERSION'']"

definition signatureDigestTags :: "TagValue list" where
  "signatureDigestTags =
    [TagValue 267 ''DSAHEADER'',
     TagValue 270 ''LONGSIGSIZE'',
     TagValue 278 ''OPENPGP'',
     TagValue 5092 ''PAYLOADSHA256'',
     TagValue 5097 ''PAYLOADSHA256ALT'',
     TagValue 5121 ''PAYLOADSHA512'',
     TagValue 5122 ''PAYLOADSHA512ALT'',
     TagValue 5123 ''PAYLOADSHA3_256'',
     TagValue 5124 ''PAYLOADSHA3_256ALT'',
     TagValue 268 ''RSAHEADER'',
     TagValue 269 ''SHA1HEADER'',
     TagValue 273 ''SHA256HEADER'',
     TagValue 279 ''SHA3_256_HEADER'',
     TagValue 262 ''SIGGPG'',
     TagValue 261 ''SIGMD5'',
     TagValue 259 ''SIGPGP'',
     TagValue 257 ''SIGSIZE'']"

definition installedTags :: "TagValue list" where
  "installedTags =
    [TagValue 1029 ''FILESTATES'',
     TagValue 1127 ''INSTALLCOLOR'',
     TagValue 1128 ''INSTALLTID'',
     TagValue 1008 ''INSTALLTIME'',
     TagValue 1099 ''INSTPREFIXES'',
     TagValue 1120 ''ORIGBASENAMES'',
     TagValue 1119 ''ORIGDIRINDEXES'',
     TagValue 1121 ''ORIGDIRNAMES'',
     TagValue 5118 ''PACKAGEDIGESTS'',
     TagValue 5119 ''PACKAGEDIGESTALGOS'']"

definition sourceTags :: "TagValue list" where
  "sourceTags =
    [TagValue 1089 ''BUILDARCHS'']"

definition regionTags :: "TagValue list" where
  "regionTags =
    [TagHeaderImmutable,
     TagValue 100 ''HEADERI18NTABLE'']"

definition payloadDigestTags :: "TagValue list" where
  "payloadDigestTags =
    [TagValue 5093 ''PAYLOADSHA256ALGO'']"

definition allMainTags :: "TagValue list" where
  "allMainTags =
    baseTags @ informativeTags @ packageFileTags @ perFileTags @ 
     optionalFileTags @ hardDependencyTags @ softDependencyTags @ scriptletTags @ 
     triggerTags @ fileTriggerTags @ signatureDigestTags @ installedTags @ 
     sourceTags @ regionTags @ payloadDigestTags"

lemmas mainTag_defs = allMainTags_def
  baseTags_def informativeTags_def packageFileTags_def perFileTags_def 
  optionalFileTags_def hardDependencyTags_def softDependencyTags_def scriptletTags_def 
  triggerTags_def fileTriggerTags_def signatureDigestTags_def installedTags_def 
  sourceTags_def regionTags_def payloadDigestTags_def TagRpmformat_def 
  TagRpmversion_def TagHeaderImmutable_def

subsection \<open>Registries and lookup\<close>

definition init_registry :: "TagValue list \<Rightarrow> registry" where
  "init_registry tags = foldl (\<lambda>m t. m(ID t \<mapsto> t)) Map.empty tags"

definition tagsById :: registry where
  "tagsById = init_registry allMainTags"

definition signatureTagsByID :: registry where
  "signatureTagsByID = init_registry allSignatureTags"

definition unknown_label :: "u32 \<Rightarrow> string" where
  "unknown_label tagId =
     ''Unknown ('' @ fmt_d (unat tagId) @ '' / 0x'' @ fmt_0x 8 (unat tagId) @ '')''"

definition LookupMainTag :: "registry \<Rightarrow> u32 \<Rightarrow> TagValue \<times> registry" where
  "LookupMainTag m tagId =
     (case m tagId of
        Some result \<Rightarrow> (result, m)
      | None \<Rightarrow> (let result = TagValue tagId (unknown_label tagId) in (result, m(tagId \<mapsto> result))))"

definition LookupSignatureTag :: "registry \<Rightarrow> u32 \<Rightarrow> TagValue \<times> registry" where
  "LookupSignatureTag m tagId =
     (case m tagId of
        Some result \<Rightarrow> (result, m)
      | None \<Rightarrow> (let result = TagValue tagId (unknown_label tagId) in (result, m(tagId \<mapsto> result))))"

definition IsUnknown :: "registry \<Rightarrow> TagValue \<Rightarrow> bool" where
  "IsUnknown m t \<longleftrightarrow> m (ID t) \<noteq> None"

text \<open>The value every lookup of a number returns, however many lookups came before: the
  registered one if there is one, the made-up one otherwise.\<close>

definition canonical_tag :: "registry \<Rightarrow> u32 \<Rightarrow> TagValue" where
  "canonical_tag m tagId = (case m tagId of Some t \<Rightarrow> t | None \<Rightarrow> TagValue tagId (unknown_label tagId))"

fun run_lookups :: "registry \<Rightarrow> u32 list \<Rightarrow> registry" where
  "run_lookups m [] = m"
| "run_lookups m (i # is) = run_lookups (snd (LookupMainTag m i)) is"

section \<open>Lemmas\<close>

lemma init_registry_append: "init_registry (ts @ [t]) = (init_registry ts)(ID t \<mapsto> t)"
  by (simp add: init_registry_def)

lemma init_registry_lookup:
  "distinct (map ID ts) \<Longrightarrow> t \<in> set ts \<Longrightarrow> init_registry ts (ID t) = Some t"
proof (induction ts rule: rev_induct)
  case Nil
  then show ?case by simp
next
  case (snoc t' ts)
  show ?case
  proof (cases "t = t'")
    case True
    then show ?thesis by (simp add: init_registry_append)
  next
    case False
    with snoc.prems have "t \<in> set ts" "ID t \<noteq> ID t'" by (auto simp: rev_image_eqI)
    with snoc show ?thesis by (simp add: init_registry_append)
  qed
qed

lemma init_registry_id: "init_registry ts i = Some t \<Longrightarrow> ID t = i \<and> t \<in> set ts"
  by (induction ts rule: rev_induct) (auto simp: init_registry_append init_registry_def split: if_splits)

lemma distinct_signature_tags: "distinct (map ID allSignatureTags)"
  by (simp add: allSignatureTags_def SigTag_defs)

lemma main_tag_ids:
  "map (\<lambda>t. uint (ID t)) allMainTags =
    [1000, 1001, 1002, 1003, 1014, 1004, 1005, 1021, 1022, 1007, 1006, 5012, 1081, 1082, 1080, 1094, 
     1010, 1155, 1123, 5062, 1016, 5096, 1122, 1015, 1132, 1150, 5033, 5030, 5031, 5032, 5114, 1064, 
     1146, 1044, 5100, 5101, 1020, 5034, 1011, 5120, 1046, 1118, 5011, 271, 5009, 5116, 1125, 1126, 
     1124, 1098, 1009, 1117, 1116, 1095, 1035, 1037, 1040, 1096, 1097, 1036, 5115, 1030, 1034, 1033, 
     1028, 1039, 1045, 5008, 1142, 1145, 5010, 1141, 1140, 1144, 1143, 5091, 5090, 277, 276, 1047, 
     1113, 1112, 1049, 1050, 1048, 1054, 1055, 1053, 1090, 1115, 1114, 5055, 5056, 5057, 5046, 5047, 
     5048, 5049, 5050, 5051, 5052, 5053, 5054, 5035, 5036, 5037, 1024, 5021, 1086, 1152, 5025, 1154, 
     5104, 5108, 5106, 1026, 5023, 1088, 1023, 5020, 1085, 1151, 5024, 1153, 5103, 5107, 5105, 1025, 
     5022, 1087, 1079, 5026, 1091, 1068, 1069, 1066, 5027, 1092, 1065, 1067, 5072, 5070, 5069, 5084, 
     5068, 5067, 5066, 5071, 5082, 5080, 5079, 5085, 5078, 5077, 5076, 5081, 267, 270, 278, 5092, 
     5097, 5121, 5122, 5123, 5124, 268, 269, 273, 279, 262, 261, 259, 257, 1029, 1127, 1128, 
     1008, 1099, 1120, 1119, 1121, 5118, 5119, 1089, 63, 100, 5093]"
  by (simp add: mainTag_defs)

lemma sorted_main_ids: "sorted_wrt (<) (sort (map (\<lambda>t. uint (ID t)) allMainTags))"
  unfolding main_tag_ids by code_simp

lemma distinct_main_tags: "distinct (map ID allMainTags)"
proof -
  have "distinct (sort (map (\<lambda>t. uint (ID t)) allMainTags))"
    using sorted_main_ids strict_sorted_iff by blast
  then have "distinct (map (uint \<circ> ID) allMainTags)" by (simp add: comp_def)
  then show ?thesis by (simp add: distinct_map) (meson comp_inj_on_iff inj_on_imageI2)
qed

lemma LookupSignatureTag_eq: "LookupSignatureTag = LookupMainTag"
  by (intro ext) (simp add: LookupSignatureTag_def LookupMainTag_def)

lemma Lookup_canonical: "fst (LookupMainTag m i) = canonical_tag m i"
  by (simp add: LookupMainTag_def canonical_tag_def Let_def split: option.splits)

lemma canonical_after_lookup: "canonical_tag (snd (LookupMainTag m i)) = canonical_tag m"
  by (auto simp: LookupMainTag_def canonical_tag_def Let_def fun_eq_iff split: option.splits)

lemma canonical_after_lookups: "canonical_tag (run_lookups m is) = canonical_tag m"
  by (induction m "is" rule: run_lookups.induct) (simp_all add: canonical_after_lookup)

section \<open>Properties\<close>

text \<open>Looking up a tag gives the registered tag, or one labelled as unknown, and the answer does
  not depend on which tags were looked up before, although every lookup of an unknown tag extends
  the registry.\<close>

theorem LookupMainTag_stable:
  "fst (LookupMainTag (run_lookups tagsById history) i) =
    (case tagsById i of Some t \<Rightarrow> t | None \<Rightarrow> TagValue i (unknown_label i)) \<and>
   ID (fst (LookupMainTag (run_lookups tagsById history) i)) = i"
proof -
  have "fst (LookupMainTag (run_lookups tagsById history) i) = canonical_tag tagsById i"
    by (simp add: Lookup_canonical canonical_after_lookups)
  moreover have "ID (canonical_tag tagsById i) = i"
    by (auto simp: canonical_tag_def tagsById_def dest: init_registry_id split: option.splits)
  ultimately show ?thesis by (simp add: canonical_tag_def)
qed

text \<open>The test for unknown tags answers the wrong way round: every tag the package defines is
  reported as unknown, and a tag that is not registered as known.\<close>

theorem IsUnknown_inverted:
  "(\<forall>t\<in>set allMainTags. IsUnknown tagsById t) \<and>
   (\<forall>t. ID t \<notin> ID ` set allMainTags \<longrightarrow> \<not> IsUnknown tagsById t)"
proof -
  have "tagsById (ID t) = Some t" if "t \<in> set allMainTags" for t
    unfolding tagsById_def by (rule init_registry_lookup [OF distinct_main_tags that])
  moreover have "tagsById (ID t) = None" if "ID t \<notin> ID ` set allMainTags" for t
    using that init_registry_id [of allMainTags "ID t"] unfolding tagsById_def
    by (metis image_eqI not_None_eq)
  ultimately show ?thesis by (auto simp: IsUnknown_def)
qed

theorem IsUnknown_inverted_witness: "IsUnknown tagsById TagRpmversion"
proof -
  have "TagRpmversion \<in> set allMainTags" by (simp add: allMainTags_def informativeTags_def)
  with IsUnknown_inverted show ?thesis by blast
qed

end
