(* ===== verification/Index_Entry.thy ===== *)
theory Index_Entry
  imports Serializer Tags
begin

text \<open>
  The index entry of an RPM header (\<^verbatim>\<open>common/rpmparser.go\<close>, lines 20 to 375): format types,
  version values, the entry itself, its textual renderings and \<^verbatim>\<open>populatePayload\<close>, which reads
  the entry's data from the data store. \<open>payload_ok\<close> says when a payload is what the format
  type and the item count promise; such a payload is read back exactly and renders without a
  panic.

  The tag registries only cache made-up values for unknown numbers, so what a lookup returns does
  not depend on earlier lookups (\<open>Tag_any_history\<close>); the renderings look a tag up in the
  initial registries.
\<close>

section \<open>Versions, package and format types\<close>

definition RESERVED_SPACE_ALLOCATION_SIZE :: u32 where
  "RESERVED_SPACE_ALLOCATION_SIZE = 4096"

record SignatureVersion =
  sv_Id :: u8
  sv_Label :: string

record RpmFileFormatVersion =
  ffv_Major :: u8
  ffv_Minor :: u8

definition CompareTo :: "RpmFileFormatVersion \<Rightarrow> RpmFileFormatVersion \<Rightarrow> int" where
  "CompareTo v other =
     (let r = uint (ffv_Major v) - uint (ffv_Major other)
      in if r = 0 then uint (ffv_Minor v) - uint (ffv_Minor other) else r)"

definition RpmFileFormatVersion_String :: "RpmFileFormatVersion \<Rightarrow> string" where
  "RpmFileFormatVersion_String v = fmt_d (unat (ffv_Major v)) @ ''.'' @ fmt_d (unat (ffv_Minor v))"

definition SIGNATURE_VERSION_V3 :: SignatureVersion where
  "SIGNATURE_VERSION_V3 = \<lparr>sv_Id = 3, sv_Label = ''V3''\<rparr>"

definition SIGNATURE_VERSION_V4 :: SignatureVersion where
  "SIGNATURE_VERSION_V4 = \<lparr>sv_Id = 4, sv_Label = ''V4''\<rparr>"

definition SIGNATURE_VERSION_V6 :: SignatureVersion where
  "SIGNATURE_VERSION_V6 = \<lparr>sv_Id = 6, sv_Label = ''V6''\<rparr>"

definition AllSignatureVersions :: "SignatureVersion list" where
  "AllSignatureVersions = [SIGNATURE_VERSION_V3, SIGNATURE_VERSION_V4, SIGNATURE_VERSION_V6]"

datatype PackageType = PACKAGE_TYPE_BINARY | PACKAGE_TYPE_SOURCE

type_synonym FormatType = u32

definition FORMAT_TYPE_NULL :: FormatType where "FORMAT_TYPE_NULL = 0"
definition FORMAT_TYPE_CHAR :: FormatType where "FORMAT_TYPE_CHAR = 1"
definition FORMAT_TYPE_INT8 :: FormatType where "FORMAT_TYPE_INT8 = 2"
definition FORMAT_TYPE_INT16 :: FormatType where "FORMAT_TYPE_INT16 = 3"
definition FORMAT_TYPE_INT32 :: FormatType where "FORMAT_TYPE_INT32 = 4"
definition FORMAT_TYPE_INT64 :: FormatType where "FORMAT_TYPE_INT64 = 5"
definition FORMAT_TYPE_STRING :: FormatType where "FORMAT_TYPE_STRING = 6"
definition FORMAT_TYPE_BINARY :: FormatType where "FORMAT_TYPE_BINARY = 7"
definition FORMAT_TYPE_STRING_ARRAY :: FormatType where "FORMAT_TYPE_STRING_ARRAY = 8"
definition FORMAT_TYPE_I18N_STRING_ARRAY :: FormatType where "FORMAT_TYPE_I18N_STRING_ARRAY = 9"

lemmas FORMAT_TYPE_defs [simp] =
  FORMAT_TYPE_NULL_def FORMAT_TYPE_CHAR_def FORMAT_TYPE_INT8_def FORMAT_TYPE_INT16_def
  FORMAT_TYPE_INT32_def FORMAT_TYPE_INT64_def FORMAT_TYPE_STRING_def FORMAT_TYPE_BINARY_def
  FORMAT_TYPE_STRING_ARRAY_def FORMAT_TYPE_I18N_STRING_ARRAY_def

definition GetRequiredAlignment :: "FormatType \<Rightarrow> u8 outcome" where
  "GetRequiredAlignment f =
     (if f = FORMAT_TYPE_CHAR then Ok 1
      else if f = FORMAT_TYPE_INT8 then Ok 1
      else if f = FORMAT_TYPE_INT16 then Ok 2
      else if f = FORMAT_TYPE_INT32 then Ok 4
      else if f = FORMAT_TYPE_INT64 then Ok 8
      else if f = FORMAT_TYPE_STRING then Ok 1
      else if f = FORMAT_TYPE_BINARY then Ok 1
      else if f = FORMAT_TYPE_STRING_ARRAY then Ok 1
      else if f = FORMAT_TYPE_I18N_STRING_ARRAY then Ok 1
      else Panic (''Unhandled format type '' @ fmt_d (unat f)))"

definition formatStrings :: "string list" where
  "formatStrings =
     [''null'', ''char'', ''int8'', ''int16'', ''int32'', ''int64'', ''string'', ''binary'',
      ''string-array'', ''i18n-string-array'']"

definition GetFormatTypeLabel :: "FormatType \<Rightarrow> string" where
  "GetFormatTypeLabel f =
     (if unat f \<ge> length formatStrings then ''format-type:'' @ fmt_d (unat f)
      else formatStrings ! unat f)"

section \<open>The index entry\<close>

record IndexEntry =
  isMainHeaderEntry :: bool
  tag :: u32
  formatType :: u32
  offset :: u32
  dataItemCnt :: u32
  payload :: bytes

definition endOffset :: "IndexEntry \<Rightarrow> u32" where
  "endOffset i = offset i + of_nat (length (payload i))"

definition Tag :: "IndexEntry \<Rightarrow> TagValue" where
  "Tag i =
     (if isMainHeaderEntry i then fst (LookupMainTag tagsById (tag i))
      else fst (LookupSignatureTag signatureTagsByID (tag i)))"

definition RawString :: "IndexEntry \<Rightarrow> string" where
  "RawString i =
     ''IndexEntry{'' @ Label (Tag i) @ '', tag: '' @ fmt_d (unat (tag i)) @
     '', format: '' @ fmt_d (unat (formatType i)) @ '', offset: '' @ fmt_d (unat (offset i)) @
     '', dataItemCnt: '' @ fmt_d (unat (dataItemCnt i)) @
     '', payloadLen: '' @ fmt_d (length (payload i)) @
     '' (0x'' @ fmt_x (length (payload i)) @ '')}''"

definition Int32Value :: "IndexEntry \<Rightarrow> u32 outcome" where
  "Int32Value i =
     (if formatType i \<noteq> FORMAT_TYPE_INT32 then
        Panic (''Int32Value() called on IndexEntry of type '' @ fmt_d (unat (formatType i)) @
          '' , expected type '' @ fmt_d (unat FORMAT_TYPE_INT32))
      else
        (case readWord (NewArrayReader (payload i)) of
           Ok (value, r) \<Rightarrow> Ok value
         | _ \<Rightarrow> Panic (''Failed to read int32 from '' @ RawString i)))"

definition StringValue :: "IndexEntry \<Rightarrow> string outcome" where
  "StringValue i =
     (if formatType i \<noteq> FORMAT_TYPE_STRING then
        Panic (''StringValue() called on IndexEntry of type '' @ fmt_d (unat (formatType i)) @
          '' , expected type '' @ fmt_d (unat FORMAT_TYPE_STRING))
      else
        (let value = parseNullTerminatedStrings (payload i)
         in if length value \<noteq> 1 then Panic ''StringValue() found more than one string?''
            else Ok (value ! 0)))"

subsection \<open>Rendering\<close>

text \<open>The UTF-8 encoding of a code point below 256, which is what \<^verbatim>\<open>string(value)\<close> of a byte
  is.\<close>

definition rune_string :: "u8 \<Rightarrow> string" where
  "rune_string b =
     (if unat b < 128 then [char_of_byte b]
      else [char_of (192 + unat b div 64), char_of (128 + unat b mod 64)])"

text \<open>\<^verbatim>\<open>hex.Dump\<close>: lines of sixteen bytes with their offset, in hexadecimal and as text.\<close>

definition hex_byte :: "u8 \<Rightarrow> string" where
  "hex_byte b = [digit_char (unat b div 16), digit_char (unat b mod 16)]"

definition dump_char :: "u8 \<Rightarrow> char" where
  "dump_char b = (if unat b < 32 \<or> unat b > 126 then CHR ''.'' else char_of_byte b)"

definition dump_cell :: "bytes \<Rightarrow> nat \<Rightarrow> string" where
  "dump_cell line i =
     (if i < length line then hex_byte (line ! i) else ''  '') @ '' '' @
     (if i = 7 then '' '' else if i = 15 then '' |'' else [])"

definition dump_line :: "nat \<Rightarrow> bytes \<Rightarrow> string" where
  "dump_line n line =
     fmt_0x 8 (n mod 4294967296) @ ''  '' @ concat (map (dump_cell line) [0..<16]) @
     map dump_char line @ ''|'' @ [CHR 0x0A]"

function dump_lines :: "nat \<Rightarrow> bytes \<Rightarrow> string" where
  "dump_lines n data =
     (if data = [] then [] else dump_line n (take 16 data) @ dump_lines (n + 16) (drop 16 data))"
  by pat_completeness auto
termination
  by (relation "measure (\<lambda>(n, data). length data)") auto

declare dump_lines.simps [simp del]

definition hex_Dump :: "bytes \<Rightarrow> string" where
  "hex_Dump data = dump_lines 0 data"

definition int_items ::
  "(rdr \<Rightarrow> ('a::len word \<times> rdr) outcome) \<Rightarrow> IndexEntry \<Rightarrow> string outcome" where
  "int_items readItem i =
     (case read_times readItem (unat (dataItemCnt i)) (NewArrayReader (payload i)) of
        Ok (results, s) \<Rightarrow> Ok (join_strings (map (\<lambda>result. fmt_int (sint result)) results) '', '')
      | _ \<Rightarrow> Panic (''Payload too short on '' @ RawString i))"

definition PayloadAsPrettyString :: "IndexEntry \<Rightarrow> string outcome" where
  "PayloadAsPrettyString i =
     (let f = formatType i
      in if f = FORMAT_TYPE_NULL then
           Ok (join_strings (replicate (unat (dataItemCnt i)) ''<NULL>'') '', '')
         else if f = FORMAT_TYPE_CHAR then Ok (concat (map rune_string (payload i)))
         else if f = FORMAT_TYPE_INT8 then
           Ok (join_strings (map (\<lambda>value. fmt_int (sint value)) (payload i)) '', '')
         else if f = FORMAT_TYPE_INT16 then int_items readShort i
         else if f = FORMAT_TYPE_INT32 then int_items readWord i
         else if f = FORMAT_TYPE_INT64 then int_items readLongWord i
         else if f = FORMAT_TYPE_BINARY then Ok (hex_Dump (payload i))
         else if f = FORMAT_TYPE_STRING \<or> f = FORMAT_TYPE_STRING_ARRAY
                 \<or> f = FORMAT_TYPE_I18N_STRING_ARRAY then
           (let terminatedStrings = parseNullTerminatedStrings (payload i)
            in if length terminatedStrings \<noteq> unat (dataItemCnt i) then
                 Panic (''String payload count mismatch on '' @ RawString i @ ''. Expected '' @
                   fmt_d (unat (dataItemCnt i)) @ '' strings but only got '' @
                   fmt_d (length terminatedStrings))
               else Ok (join_strings terminatedStrings '', ''))
         else Panic (''Unknown format type '' @ fmt_d (unat f) @ '' (0x'' @ fmt_x (unat f) @
                '') on index entry''))"

definition PrettyString :: "IndexEntry \<Rightarrow> string outcome" where
  "PrettyString i =
     obind (PayloadAsPrettyString i) (\<lambda>p.
       Ok (Label (Tag i) @ ''('' @ fmt_d (unat (ID (Tag i))) @ '') = '' @ p))"

definition IndexEntry_String :: "IndexEntry \<Rightarrow> string outcome" where
  "IndexEntry_String i =
     (let formatName = GetFormatTypeLabel (formatType i)
      in obind (PayloadAsPrettyString i) (\<lambda>p.
        Ok (''IndexEntry{'' @ Label (Tag i) @ '', tag: '' @ fmt_d (unat (tag i)) @
          '', '' @ formatName @ '', offset: '' @ fmt_d (unat (offset i)) @
          '', dataItemCnt: '' @ fmt_d (unat (dataItemCnt i)) @
          '', payloadLen: '' @ fmt_d (length (payload i)) @
          '' (0x'' @ fmt_x (length (payload i)) @ ''), value: '' @ p @ ''}'')))"

subsection \<open>Reading the payload from the data store\<close>

definition read_payload :: "u32 \<Rightarrow> IndexEntry \<Rightarrow> rdr \<Rightarrow> (IndexEntry \<times> rdr) outcome" where
  "read_payload n i s = obind (readByteArray n s) (\<lambda>(p, s'). Ok (i\<lparr>payload := p\<rparr>, s'))"

fun read_strings :: "nat \<Rightarrow> IndexEntry \<Rightarrow> rdr \<Rightarrow> (IndexEntry \<times> rdr) outcome" where
  "read_strings 0 i s = Ok (i, s)"
| "read_strings (Suc n) i s =
     (case readNullTerminatedString s of
        (str, Ok s') \<Rightarrow> read_strings n (i\<lparr>payload := payload i @ str\<rparr>) s'
      | (str, Err e) \<Rightarrow> Err e
      | (str, Panic m) \<Rightarrow> Panic m)"

definition populatePayload :: "IndexEntry \<Rightarrow> rdr \<Rightarrow> (IndexEntry \<times> rdr) outcome" where
  "populatePayload i s =
     (if formatType i = 0 then Ok (i, s)
      else if formatType i = 1 then read_payload 1 i s
      else if formatType i = 2 then read_payload (dataItemCnt i) i s
      else if formatType i = 3 then read_payload (dataItemCnt i * 2) i s
      else if formatType i = 4 then read_payload (dataItemCnt i * 4) i s
      else if formatType i = 5 then read_payload (dataItemCnt i * 8) i s
      else if formatType i = 6 then
        (let (p, res) = readNullTerminatedString s; i' = i\<lparr>payload := p\<rparr>
         in if length p = 0 then Err (Errorf (''payload too short on '' @ RawString i'))
            else obind res (\<lambda>s'. Ok (i', s')))
      else if formatType i = 7 then read_payload (dataItemCnt i) i s
      else if formatType i = 8 \<or> formatType i = 9 then read_strings (unat (dataItemCnt i)) i s
      else Err (Errorf ''invalid index entry''))"

section \<open>Well-formed payloads\<close>

definition terminated :: "nat \<Rightarrow> bytes \<Rightarrow> bool" where
  "terminated n p \<longleftrightarrow> p \<noteq> [] \<and> last p = 0 \<and> count_list p 0 = n"

definition payload_ok :: "IndexEntry \<Rightarrow> bool" where
  "payload_ok e \<longleftrightarrow>
     (let f = formatType e; n = unat (dataItemCnt e); p = payload e
      in p \<noteq> [] \<and>
         (if f = 1 then length p = 1
          else if f = 2 \<or> f = 7 then length p = n
          else if f = 3 then length p = 2 * n \<and> 2 * n < 4294967296
          else if f = 4 then length p = 4 * n \<and> 4 * n < 4294967296
          else if f = 5 then length p = 8 * n \<and> 8 * n < 4294967296
          else if f = 6 then n = 1 \<and> terminated 1 p
          else if f = 8 \<or> f = 9 then terminated n p
          else False))"

text \<open>The number of bytes a fixed-width payload takes, as the code computes it.\<close>

definition fixed_size :: "IndexEntry \<Rightarrow> u32" where
  "fixed_size e =
     (if formatType e = 1 then 1
      else if formatType e = 3 then dataItemCnt e * 2
      else if formatType e = 4 then dataItemCnt e * 4
      else if formatType e = 5 then dataItemCnt e * 8
      else dataItemCnt e)"

text \<open>\<open>takes f k\<close>: \<open>f\<close> succeeds and consumes \<open>k\<close> bytes whenever they are there.\<close>

definition takes :: "(rdr \<Rightarrow> ('a \<times> rdr) outcome) \<Rightarrow> nat \<Rightarrow> bool" where
  "takes f k \<longleftrightarrow>
     (\<forall>r. end_error r = EOF \<longrightarrow> k \<le> length (rest r) \<longrightarrow>
        (\<exists>x r'. f r = Ok (x, r') \<and> feeds r (take k (rest r)) r'))"

section \<open>Reading strings and payloads\<close>

lemma Tag_any_history:
  "Tag i = fst (LookupMainTag (run_lookups (if isMainHeaderEntry i then tagsById else signatureTagsByID) is) (tag i))"
  by (simp add: Tag_def LookupSignatureTag_eq Lookup_canonical canonical_after_lookups)

lemma length_split_terminated: "length (split_terminated b p) = count_list p 0"
  by (induction b p rule: split_terminated.induct) auto

lemma length_parseNullTerminatedStrings:
  "length (parseNullTerminatedStrings p) = count_list p 0"
  by (simp add: parseNullTerminatedStrings_def length_split_terminated)

lemma readNullTerminatedString_loop_ok:
  assumes "0 \<notin> set bs"
  shows "end_error r = EOF \<Longrightarrow> rest r = bs @ 0 # left \<Longrightarrow>
    \<exists>r'. readNullTerminatedString_loop acc r = (acc @ bs @ [0], Ok r') \<and> feeds r (bs @ [0]) r'"
  using assms
proof (induction bs arbitrary: acc r)
  case Nil
  then obtain r' where "readByte r = Ok (0, r')" "feeds r [0] r'"
    using readsD [OF byte_codec.get_reads, of r 0 left] by auto
  then show ?case by (simp add: readNullTerminatedString_loop.simps)
next
  case (Cons b bs)
  then obtain r1 where r1: "readByte r = Ok (b, r1)" "feeds r [b] r1" "rest r1 = bs @ 0 # left"
    "end_error r1 = EOF"
    using readsD [OF byte_codec.get_reads, of r b "bs @ 0 # left"] by auto
  with Cons obtain r' where "readNullTerminatedString_loop (acc @ [b]) r1 = (acc @ [b] @ bs @ [0], Ok r')"
    "feeds r1 (bs @ [0]) r'" by (metis append.assoc list.set_intros(2))
  moreover have "b \<noteq> 0" using Cons.prems by auto
  ultimately show ?case
    using r1 feeds_trans [of r "[b]" r1 "bs @ [0]" r'] by (simp add: readNullTerminatedString_loop.simps [of acc r])
qed

lemma readNullTerminatedString_ok:
  assumes "terminated 1 p" and "end_error r = EOF" and "rest r = p @ left"
  obtains r' where "readNullTerminatedString r = (p, Ok r')" and "feeds r p r'"
proof -
  from assms(1) have p: "p = butlast p @ [0]" by (metis append_butlast_last_id terminated_def)
  have "count_list (butlast p @ [0]) 0 = 1" using assms(1) p by (simp add: terminated_def)
  then have "0 \<notin> set (butlast p)" by (simp add: count_list_0_iff)
  from readNullTerminatedString_loop_ok [OF this assms(2), of left "[]"] assms(3) p that
  show thesis by (metis append.assoc append_Cons append_Nil readNullTerminatedString_def)
qed

lemma terminated_split:
  assumes "terminated (Suc n) p" and "0 < n"
  obtains s q where "p = s @ q" and "terminated 1 s" and "terminated n q"
proof -
  have "count_list p 0 \<noteq> 0" using assms(1) by (simp add: terminated_def)
  then have "0 \<in> set p" by (simp add: count_list_0_iff)
  then obtain a q where p: "p = a @ 0 # q" and a: "0 \<notin> set a" by (meson split_list_first)
  have cnt: "count_list q 0 = n" using assms(1) p a by (simp add: terminated_def)
  with assms(2) have "q \<noteq> []" by auto
  then have "terminated n q" using assms(1) p cnt by (simp add: terminated_def)
  moreover have "terminated 1 (a @ [0])" using a by (simp add: terminated_def)
  ultimately show thesis using that [of "a @ [0]" q] p by simp
qed

lemma read_strings_ok:
  "0 < n \<Longrightarrow> terminated n p \<Longrightarrow> reads (read_strings n i) (i\<lparr>payload := payload i @ p\<rparr>) p"
proof (induction n arbitrary: p i)
  case 0
  then show ?case by simp
next
  case (Suc n)
  show ?case
    unfolding reads_def
  proof (intro allI impI)
    fix r left assume r: "end_error r = EOF" "rest r = p @ left"
    show "\<exists>r'. read_strings (Suc n) i r = Ok (i\<lparr>payload := payload i @ p\<rparr>, r') \<and> feeds r p r'"
    proof (cases "n = 0")
      case True
      with Suc.prems have "terminated 1 p" by simp
      then obtain r' where "readNullTerminatedString r = (p, Ok r')" "feeds r p r'"
        using r by (rule readNullTerminatedString_ok)
      with True show ?thesis by simp
    next
      case False
      with Suc.prems obtain s q where p: "p = s @ q" and s: "terminated 1 s" and q: "terminated n q"
        by (auto elim: terminated_split)
      from readNullTerminatedString_ok [OF s r(1), of "q @ left"] r(2) p
      obtain r1 where r1: "readNullTerminatedString r = (s, Ok r1)" "feeds r s r1" by auto
      then have "end_error r1 = EOF" "rest r1 = q @ left" using r p feeds_end feeds_rest by auto
      moreover from Suc.IH [OF _ q, of "i\<lparr>payload := payload i @ s\<rparr>"] False
      have "reads (read_strings n (i\<lparr>payload := payload i @ s\<rparr>)) (i\<lparr>payload := payload i @ p\<rparr>) q"
        by (simp add: p)
      ultimately obtain r2 where "read_strings n (i\<lparr>payload := payload i @ s\<rparr>) r1 =
          Ok (i\<lparr>payload := payload i @ p\<rparr>, r2)" "feeds r1 q r2"
        by (auto elim: readsD)
      with r1 feeds_trans [of r s r1 q r2] p show ?thesis by simp
    qed
  qed
qed

lemma read_payload_ok: "unat n = length p \<Longrightarrow> reads (read_payload n i) (i\<lparr>payload := p\<rparr>) p"
  unfolding read_payload_def readByteArray_def
  by (rule reads_map [OF reads_FillBuffer, where h = "\<lambda>p. i\<lparr>payload := p\<rparr>"]) simp_all

lemma terminated_pos: "terminated n p \<Longrightarrow> 0 < n"
  by (metis terminated_def count_list_0_iff last_in_set gr0I)

lemma populatePayload_fixed:
  "formatType e \<in> {1, 2, 3, 4, 5, 7} \<Longrightarrow> populatePayload e = read_payload (fixed_size e) e"
  by (elim insertE emptyE) (simp_all add: fun_eq_iff populatePayload_def fixed_size_def)

lemma populatePayload_strings:
  "formatType e \<in> {8, 9} \<Longrightarrow> populatePayload e = read_strings (unat (dataItemCnt e)) e"
  by (elim insertE emptyE) (simp_all add: fun_eq_iff populatePayload_def)

lemma payload_ok_format: "payload_ok e \<Longrightarrow> formatType e \<in> {1, 2, 3, 4, 5, 7} \<union> {6} \<union> {8, 9}"
  by (auto simp: payload_ok_def Let_def split: if_splits)

lemma unat_fixed_size:
  assumes "payload_ok e" and "formatType e \<in> {1, 2, 3, 4, 5, 7}"
  shows "unat (fixed_size e) = length (payload e)"
proof -
  have m: "k * unat (dataItemCnt e) < 4294967296 \<Longrightarrow>
      unat (dataItemCnt e * of_nat k) = k * unat (dataItemCnt e)" if "k < 9" for k
    using unat_mult_u32 [of "dataItemCnt e" "of_nat k"] that
    by (simp add: unat_of_nat_u32 mult.commute)
  from assms(2,1) m [of 2] m [of 4] m [of 8] show ?thesis
    by (elim insertE emptyE) (simp_all add: payload_ok_def fixed_size_def Let_def)
qed

lemma populatePayload_reads:
  assumes "payload_ok e"
  shows "reads (populatePayload (e\<lparr>payload := []\<rparr>)) e (payload e)"
proof -
  let ?i = "e\<lparr>payload := []\<rparr>"
  from payload_ok_format [OF assms] consider "formatType e \<in> {1, 2, 3, 4, 5, 7}" | "formatType e = 6"
    | "formatType e \<in> {8, 9}" by blast
  then show ?thesis
  proof cases
    case 1
    moreover have "fixed_size ?i = fixed_size e" by (simp add: fixed_size_def)
    ultimately show ?thesis
      using read_payload_ok [OF unat_fixed_size [OF assms 1], of ?i] populatePayload_fixed [of ?i] by simp
  next
    case 2
    then have t: "terminated 1 (payload e)" using assms by (simp add: payload_ok_def Let_def)
    then have "payload e \<noteq> []" by (simp add: terminated_def)
    then show ?thesis
      using 2 readNullTerminatedString_ok [OF t] by (fastforce simp: reads_def populatePayload_def)
  next
    case 3
    then have t: "terminated (unat (dataItemCnt e)) (payload e)"
      using assms by (auto simp: payload_ok_def Let_def)
    from read_strings_ok [OF terminated_pos [OF t] t, of ?i] 3 populatePayload_strings [of ?i]
    show ?thesis by simp
  qed
qed

section \<open>What is read comes from the data store\<close>

lemma readByte_feeds: "readByte r = Ok (b, r') \<Longrightarrow> feeds r [b] r'"
proof -
  assume "readByte r = Ok (b, r')"
  then obtain buf where f: "FillBuffer 1 r = Ok (buf, r')" and b: "b = buf ! 0"
    by (auto simp: readByte_def elim!: obind_OkE)
  from FillBuffer_result [OF f] have "length buf = 1" and "feeds r buf r'" by simp_all
  then show ?thesis using b by (cases buf) auto
qed

lemma readNullTerminatedString_feeds:
  assumes "readNullTerminatedString r = (p, Ok r')"
  shows "feeds r p r'" and "terminated 1 p"
proof -
  have "readNullTerminatedString_loop acc r = (p, Ok r') \<Longrightarrow> 0 \<notin> set acc \<Longrightarrow>
      \<exists>q. p = acc @ q \<and> feeds r q r' \<and> terminated 1 p" for acc
  proof (induction acc r rule: readNullTerminatedString_loop.induct)
    case (1 acc r)
    then obtain b r1 where b: "readByte r = Ok (b, r1)"
      by (auto simp: readNullTerminatedString_loop.simps [of acc r] split: outcome.splits)
    note f = readByte_feeds [OF b]
    show ?case
    proof (cases "b = 0")
      case True
      with 1 b f show ?thesis
        by (auto simp: readNullTerminatedString_loop.simps [of acc r] terminated_def count_list_0_iff)
    next
      case False
      with "1.prems" b have "readNullTerminatedString_loop (acc @ [b]) r1 = (p, Ok r')" "0 \<notin> set (acc @ [b])"
        by (auto simp: readNullTerminatedString_loop.simps [of acc r])
      from "1.IH" [OF b refl False this] obtain q where "p = acc @ [b] @ q" "feeds r1 q r'" "terminated 1 p"
        by auto
      with f feeds_trans [of r "[b]" r1 q r'] show ?thesis by auto
    qed
  qed
  from this [of "[]"] assms show "feeds r p r'" and "terminated 1 p"
    by (auto simp: readNullTerminatedString_def)
qed

lemma read_strings_feeds:
  "read_strings n i r = Ok (e, r') \<Longrightarrow> \<exists>p. e = i\<lparr>payload := payload i @ p\<rparr> \<and> feeds r p r'"
proof (induction n arbitrary: i r)
  case 0
  then have "e = i\<lparr>payload := payload i @ []\<rparr> \<and> feeds r [] r'" by (simp add: feeds_refl)
  then show ?case by blast
next
  case (Suc n)
  then obtain s r1 where s: "readNullTerminatedString r = (s, Ok r1)"
    and rest: "read_strings n (i\<lparr>payload := payload i @ s\<rparr>) r1 = Ok (e, r')"
    by (auto split: prod.splits outcome.splits)
  from Suc.IH [OF rest] obtain p where "e = i\<lparr>payload := payload i @ s @ p\<rparr>" "feeds r1 p r'" by auto
  with readNullTerminatedString_feeds(1) [OF s] feeds_trans [of r s r1 p r'] show ?case by blast
qed

lemma read_payload_feeds:
  "read_payload n i r = Ok (e, r') \<Longrightarrow> e = i\<lparr>payload := payload e\<rparr> \<and> feeds r (payload e) r'"
  by (auto simp: read_payload_def readByteArray_def elim!: obind_OkE dest: FillBuffer_result)

lemma populatePayload_feeds:
  assumes "populatePayload i r = Ok (e, r')" and "payload i = []"
  shows "e = i\<lparr>payload := payload e\<rparr>" and "feeds r (payload e) r'"
proof -
  have "e = i\<lparr>payload := payload e\<rparr> \<and> feeds r (payload e) r'"
  proof -
    consider "formatType i \<in> {1, 2, 3, 4, 5, 7}" | "formatType i \<in> {8, 9}" | "formatType i = 6" | "formatType i = 0"
      using assms(1) by (auto simp: populatePayload_def split: if_splits)
    then show ?thesis
    proof cases
      case 1
      with assms read_payload_feeds show ?thesis by (simp add: populatePayload_fixed)
    next
      case 2
      with assms have "read_strings (unat (dataItemCnt i)) i r = Ok (e, r')"
        by (simp add: populatePayload_strings)
      from read_strings_feeds [OF this] assms(2) show ?thesis by force
    next
      case 3
      obtain p res where p: "readNullTerminatedString r = (p, res)" by force
      with 3 assms have "res = Ok r'" "e = i\<lparr>payload := p\<rparr>"
        by (auto simp: populatePayload_def Let_def split: if_splits elim!: obind_OkE)
      with p readNullTerminatedString_feeds(1) [of r p r'] show ?thesis by simp
    next
      case 4
      with assms show ?thesis by (simp add: populatePayload_def feeds_refl)
    qed
  qed
  then show "e = i\<lparr>payload := payload e\<rparr>" and "feeds r (payload e) r'" by blast+
qed

section \<open>Rendering a well-formed entry does not panic\<close>

lemma takes_bind:
  assumes "takes f a" and "\<And>x. takes (g x) b"
  shows "takes (\<lambda>r. obind (f r) (\<lambda>(x, r'). g x r')) (a + b)"
  unfolding takes_def
proof (intro allI impI)
  fix r assume r: "end_error r = EOF" "a + b \<le> length (rest r)"
  then obtain x r1 where r1: "f r = Ok (x, r1)" "feeds r (take a (rest r)) r1"
    using assms(1) unfolding takes_def by force
  have rest1: "rest r1 = drop a (rest r)"
    using feeds_rest [OF r1(2)] append_take_drop_id [of a "rest r"] by (metis same_append_eq)
  then have "end_error r1 = EOF" "b \<le> length (rest r1)"
    using r feeds_end [OF r1(2)] by auto
  then obtain y r2 where "g x r1 = Ok (y, r2)" "feeds r1 (take b (rest r1)) r2"
    using assms(2) unfolding takes_def by blast
  with r1 feeds_trans [OF r1(2), of "take b (rest r1)" r2] rest1
  show "\<exists>y r2. obind (f r) (\<lambda>(x, r'). g x r') = Ok (y, r2) \<and> feeds r (take (a + b) (rest r)) r2"
    by (simp add: take_add)
qed

lemma takes_return: "takes (\<lambda>r. Ok (x, r)) 0"
  by (simp add: takes_def feeds_refl)

lemma takes_map: "takes f a \<Longrightarrow> takes (\<lambda>r. obind (f r) (\<lambda>(x, r'). Ok (h x, r'))) a"
  using takes_bind [of f a "\<lambda>x r. Ok (h x, r)" 0, OF _ takes_return] by simp

lemma takes_FillBuffer: "takes (FillBuffer n) n"
  unfolding takes_def by (metis FillBuffer_ok)

lemma takes_times: "takes f k \<Longrightarrow> takes (read_times f n) (n * k)"
proof (induction n)
  case 0
  show ?case using takes_return [of "[]"] by (simp add: takes_def)
next
  case (Suc n)
  from takes_bind [OF Suc.prems takes_map [OF Suc.IH [OF Suc.prems]], of "\<lambda>x xs. x # xs"]
  show ?case by (simp add: takes_def)
qed

lemma takes_readShort: "takes readShort 2"
  unfolding readShort_def [abs_def] by (rule takes_map [OF takes_FillBuffer])

lemma takes_readWord: "takes readWord 4"
  unfolding readWord_def [abs_def]
  using takes_bind [OF takes_readShort takes_map [OF takes_readShort]] by simp

lemma takes_readLongWord: "takes readLongWord 8"
  unfolding readLongWord_def [abs_def]
  using takes_bind [OF takes_readWord takes_map [OF takes_readWord]] by simp

lemma int_items_ok:
  assumes "takes f k" and "length (payload e) = k * unat (dataItemCnt e)"
  shows "is_ok (int_items f e)"
proof -
  have "end_error (NewArrayReader (payload e)) = EOF" by (simp add: NewArrayReader_def)
  moreover have "unat (dataItemCnt e) * k \<le> length (rest (NewArrayReader (payload e)))"
    using assms(2) by (simp add: NewArrayReader_def mult.commute)
  ultimately show ?thesis
    using takes_times [OF assms(1), of "unat (dataItemCnt e)"] unfolding takes_def int_items_def by force
qed

lemma PayloadAsPrettyString_ok:
  assumes "payload_ok e"
  shows "is_ok (PayloadAsPrettyString e)"
proof -
  from payload_ok_format [OF assms] consider "formatType e \<in> {1, 2, 7}" | "formatType e = 3"
    | "formatType e = 4" | "formatType e = 5" | "formatType e = 6 \<or> formatType e \<in> {8, 9}" by blast
  then show ?thesis
  proof cases
    case 1
    then show ?thesis by (elim insertE emptyE) (simp_all add: PayloadAsPrettyString_def)
  next
    case 2
    with assms int_items_ok [OF takes_readShort, of e] show ?thesis
      by (simp add: PayloadAsPrettyString_def payload_ok_def Let_def)
  next
    case 3
    with assms int_items_ok [OF takes_readWord, of e] show ?thesis
      by (simp add: PayloadAsPrettyString_def payload_ok_def Let_def)
  next
    case 4
    with assms int_items_ok [OF takes_readLongWord, of e] show ?thesis
      by (simp add: PayloadAsPrettyString_def payload_ok_def Let_def)
  next
    case 5
    then have "count_list (payload e) 0 = unat (dataItemCnt e)"
      using assms by (auto simp: payload_ok_def Let_def terminated_def)
    with 5 show ?thesis
      by (elim disjE insertE emptyE)
        (simp_all add: PayloadAsPrettyString_def length_parseNullTerminatedStrings)
  qed
qed

lemma IndexEntry_String_ok: "payload_ok e \<Longrightarrow> is_ok (IndexEntry_String e)"
  using PayloadAsPrettyString_ok [of e] by (auto simp: IndexEntry_String_def Let_def is_ok_iff)

section \<open>Properties\<close>

text \<open>A well-formed payload of any of the formats is read back from the data store exactly, and
  the reader stops behind it.\<close>

theorem populatePayload_round_trip:
  assumes "payload_ok e" and "end_error r = EOF" and "rest r = payload e @ left"
  shows "\<exists>r'. populatePayload (e\<lparr>payload := []\<rparr>) r = Ok (e, r') \<and> rest r' = left"
  using readsD [OF populatePayload_reads [OF assms(1)] assms(2,3)] by metis

theorem populatePayload_round_trip_witness:
  "\<exists>r'. populatePayload \<lparr>isMainHeaderEntry = True, tag = 1118, formatType = 8, offset = 0, dataItemCnt = 2, payload = []\<rparr>
     (NewArrayReader [0x61, 0, 0x62, 0x63, 0, 9]) =
     Ok (\<lparr>isMainHeaderEntry = True, tag = 1118, formatType = 8, offset = 0, dataItemCnt = 2,
        payload = [0x61, 0, 0x62, 0x63, 0]\<rparr>, r') \<and> rest r' = [9]"
  using populatePayload_round_trip [of "\<lparr>isMainHeaderEntry = True, tag = 1118, formatType = 8, offset = 0, dataItemCnt = 2,
        payload = [0x61, 0, 0x62, 0x63, 0]\<rparr>" "NewArrayReader [0x61, 0, 0x62, 0x63, 0, 9]" "[9]"]
  by (simp add: payload_ok_def terminated_def NewArrayReader_def)

text \<open>Whatever the input, a payload that is read consists of the next bytes of the data store and
  no other field of the entry changes.\<close>

theorem populatePayload_no_invention:
  assumes "populatePayload i r = Ok (e, r')" and "payload i = []"
  shows "rest r = payload e @ rest r' \<and> e = i\<lparr>payload := payload e\<rparr>"
  using populatePayload_feeds [OF assms] feeds_rest by blast

theorem populatePayload_no_invention_witness:
  "\<exists>e r'. populatePayload \<lparr>isMainHeaderEntry = True, tag = 1000, formatType = 2, offset = 0, dataItemCnt = 2, payload = []\<rparr>
     (NewArrayReader [5, 6, 7]) = Ok (e, r') \<and> payload e @ rest r' = [5, 6, 7]"
proof -
  let ?i = "\<lparr>isMainHeaderEntry = True, tag = 1000, formatType = 2, offset = 0, dataItemCnt = 2, payload = []\<rparr> :: IndexEntry"
  have ok: "payload_ok (?i\<lparr>payload := [5, 6]\<rparr>)" by (simp add: payload_ok_def)
  have "rest (NewArrayReader [5, 6, 7]) = payload (?i\<lparr>payload := [5, 6]\<rparr>) @ [7]" "end_error (NewArrayReader [5, 6, 7]) = EOF"
    by (simp_all add: NewArrayReader_def)
  from readsD [OF populatePayload_reads [OF ok] this(2,1)] obtain r' where
    "populatePayload ?i (NewArrayReader [5, 6, 7]) = Ok (?i\<lparr>payload := [5, 6]\<rparr>, r')" by auto
  with populatePayload_no_invention [OF this] show ?thesis by (auto simp: NewArrayReader_def)
qed

text \<open>An entry of character format is read as one character, whatever its item count.\<close>

theorem populatePayload_one_char:
  assumes "formatType i = FORMAT_TYPE_CHAR" and "end_error r = EOF" and "rest r = c # left"
  shows "\<exists>r'. populatePayload i r = Ok (i\<lparr>payload := [c]\<rparr>, r') \<and> rest r' = left"
proof -
  have "reads (read_payload 1 i) (i\<lparr>payload := [c]\<rparr>) [c]" by (rule read_payload_ok) simp
  from readsD [OF this assms(2)] assms(1,3) show ?thesis by (auto simp: populatePayload_def)
qed

theorem populatePayload_one_char_witness:
  "\<exists>r'. populatePayload \<lparr>isMainHeaderEntry = True, tag = 1, formatType = 1, offset = 0, dataItemCnt = 3, payload = []\<rparr>
     (NewArrayReader [5, 6, 7]) =
     Ok (\<lparr>isMainHeaderEntry = True, tag = 1, formatType = 1, offset = 0, dataItemCnt = 3, payload = [5]\<rparr>, r') \<and>
     rest r' = [6, 7]"
  using populatePayload_one_char [of "\<lparr>isMainHeaderEntry = True, tag = 1, formatType = 1, offset = 0, dataItemCnt = 3, payload = []\<rparr>"
    "NewArrayReader [5, 6, 7]" 5 "[6, 7]"] by (simp add: NewArrayReader_def)

text \<open>Printing an entry with a well-formed payload never panics.\<close>

theorem IndexEntry_String_total:
  assumes "payload_ok e"
  shows "is_ok (IndexEntry_String e)"
  using IndexEntry_String_ok [OF assms] .

theorem IndexEntry_String_total_witness:
  "is_ok (IndexEntry_String \<lparr>isMainHeaderEntry = True, tag = 1000, formatType = 4, offset = 0, dataItemCnt = 1,
     payload = [0, 0, 1, 2]\<rparr>)"
  by (rule IndexEntry_String_total) (simp add: payload_ok_def)

end
