(* ===== verification/Header.thy ===== *)
theory Header
  imports Index_Entry
begin

text \<open>
  The header structure and its editing operations (\<^verbatim>\<open>common/rpmparser.go\<close>): lookup, insertion,
  deletion and replacement of index entries, the allocator that carves new payloads out of the
  reserved space, the layout of the data store and the region trailer.

  A Go pointer to an index entry is the position of its slot in the backing array. The array is
  replaced by a larger one when \<^verbatim>\<open>slices.Insert\<close> finds no spare capacity; \<open>entries_array\<close>
  numbers the arrays, \<open>entries_cap\<close> is the capacity of the current one, and the parameter
  \<open>grow\<close> is the runtime's choice of a new capacity (at least the new length is taken). A write through a pointer into an array
  that has been replaced does not reach the header. A hash state is the bytes written to it.
\<close>

section \<open>The header structure\<close>

record SignedRegion =
  IndexEntriesStartOffset :: u64
  IndexEntryCount :: u32
  sr_Length :: u64

record RpmHeader =
  Magic :: bytes
  version :: u8
  reserved :: bytes
  indexEntryCount :: u32
  storeSizeInBytes :: u32
  IsMainHeader :: bool
  IndexEntries :: "IndexEntry list"
  entries_cap :: nat
  entries_array :: nat
  headerStartOffset :: u64
  IndicesStartOffset :: u64
  DataStoreStartOffset :: u64
  signedRegion :: "SignedRegion option"
  Md5Digest :: bytes
  Sha1Digest :: bytes
  Sha256Digest :: bytes

definition SignedRegion_String :: "SignedRegion \<Rightarrow> string" where
  "SignedRegion_String r =
     ''Signed region{offset: '' @ fmt_d (unat (IndexEntriesStartOffset r)) @
     '' (0x'' @ fmt_x (unat (IndexEntriesStartOffset r)) @ ''), length: '' @
     fmt_d (unat (sr_Length r)) @ '' (0x'' @ fmt_x (unat (sr_Length r)) @ ''), indexEntryCnt: '' @
     fmt_d (unat (IndexEntryCount r)) @ '' ('' @ fmt_x (unat (IndexEntryCount r)) @ '')''"

fun find_slot :: "('a \<Rightarrow> bool) \<Rightarrow> 'a list \<Rightarrow> nat option" where
  "find_slot P [] = None"
| "find_slot P (x # xs) = (if P x then Some 0 else map_option Suc (find_slot P xs))"

definition FindIndexEntry :: "RpmHeader \<Rightarrow> TagValue \<Rightarrow> nat option" where
  "FindIndexEntry header t = find_slot (\<lambda>e. tag e = ID t) (IndexEntries header)"

text \<open>A write through the pointer to slot \<open>idx\<close>.\<close>

definition at_slot :: "nat \<Rightarrow> (IndexEntry \<Rightarrow> IndexEntry) \<Rightarrow> RpmHeader \<Rightarrow> RpmHeader" where
  "at_slot idx f header =
     header\<lparr>IndexEntries := (IndexEntries header)[idx := f (IndexEntries header ! idx)]\<rparr>"

definition regionTrailerEntry :: "RpmHeader \<Rightarrow> nat option" where
  "regionTrailerEntry header =
     (if IsMainHeader header then FindIndexEntry header TagHeaderImmutable
      else FindIndexEntry header SigTagHeaderSignatures)"

section \<open>Layout of the data store\<close>

definition place :: "u32 \<Rightarrow> IndexEntry \<Rightarrow> (IndexEntry \<times> u32) outcome" where
  "place nextOffset entry =
     obind (GetRequiredAlignment (formatType entry)) (\<lambda>alignment.
     obind (CalcAlignmentByteCount (ucast nextOffset) alignment) (\<lambda>padding.
       let nextOffset' = nextOffset + ucast padding
       in Ok (entry\<lparr>offset := nextOffset'\<rparr>, nextOffset' + of_nat (length (payload entry)))))"

fun place_all :: "nat option \<Rightarrow> nat \<Rightarrow> u32 \<Rightarrow> IndexEntry list \<Rightarrow> (IndexEntry list \<times> u32) outcome" where
  "place_all trailer idx nextOffset [] = Ok ([], nextOffset)"
| "place_all trailer idx nextOffset (entry # es) =
     (if Some idx = trailer then
        obind (place_all trailer (Suc idx) nextOffset es) (\<lambda>(es', n). Ok (entry # es', n))
      else
        obind (place nextOffset entry) (\<lambda>(entry', n1).
        obind (place_all trailer (Suc idx) n1 es) (\<lambda>(es', n). Ok (entry' # es', n))))"

definition syncDataStoreLayout :: "RpmHeader \<Rightarrow> RpmHeader outcome" where
  "syncDataStoreLayout header =
     (let trailer = regionTrailerEntry header
      in obind (place_all trailer 0 0 (IndexEntries header)) (\<lambda>(es, nextOffset).
           case trailer of
             None \<Rightarrow> Ok (header\<lparr>IndexEntries := es, storeSizeInBytes := nextOffset\<rparr>)
           | Some t \<Rightarrow>
               obind (place nextOffset (es ! t)) (\<lambda>(entry, nextOffset').
                 Ok (header\<lparr>IndexEntries := es[t := entry], storeSizeInBytes := nextOffset'\<rparr>))))"

section \<open>The region trailer\<close>

definition trailer_payload :: "u32 \<Rightarrow> bytes \<Rightarrow> bytes" where
  "trailer_payload negativeOffset p =
     p[8 := ucast (drop_bit 24 negativeOffset), 9 := ucast (drop_bit 16 negativeOffset),
       10 := ucast (drop_bit 8 negativeOffset), 11 := ucast negativeOffset]"

definition updateSignedRegionTrailer :: "RpmHeader \<Rightarrow> RpmHeader outcome" where
  "updateSignedRegionTrailer header =
     (if IsMainHeader header then Ok header
      else
        (case FindIndexEntry header SigTagHeaderSignatures of
           None \<Rightarrow> Ok header
         | Some t \<Rightarrow>
             (let p = payload (IndexEntries header ! t)
              in if length p \<noteq> 16 then
                   Panic (''HEADERSIGNATURES trailer has '' @ fmt_d (length p) @
                     '' payload bytes, expected 16'')
                 else
                   (let regionSize = of_nat (16 * length (IndexEntries header)) :: u32;
                        negativeOffset = - regionSize;
                        h1 = at_slot t (\<lambda>e. e\<lparr>payload := trailer_payload negativeOffset p\<rparr>) header
                    in Ok (case signedRegion header of
                             None \<Rightarrow> h1
                           | Some sr \<Rightarrow>
                               h1\<lparr>signedRegion := Some (sr\<lparr>IndexEntryCount := regionSize div 16,
                                 IndexEntriesStartOffset :=
                                   DataStoreStartOffset header - ucast regionSize\<rparr>)\<rparr>)))))"

section \<open>Inserting and deleting entries\<close>

definition insert_position :: "IndexEntry \<Rightarrow> IndexEntry list \<Rightarrow> nat" where
  "insert_position newEntry es =
     (case find_slot (\<lambda>e. tag e > tag newEntry) es of Some idx \<Rightarrow> idx | None \<Rightarrow> length es)"

text \<open>\<^verbatim>\<open>slices.Insert\<close> of one element.\<close>

definition slices_Insert :: "(nat \<Rightarrow> nat) \<Rightarrow> nat \<Rightarrow> IndexEntry \<Rightarrow> RpmHeader \<Rightarrow> RpmHeader" where
  "slices_Insert grow i e header =
     (let es = IndexEntries header; h = header\<lparr>IndexEntries := take i es @ e # drop i es\<rparr>
      in if length es + 1 \<le> entries_cap header then h
         else h\<lparr>entries_cap := max (length es + 1) (grow (length es + 1)), entries_array := entries_array header + 1\<rparr>)"

definition insertIndexEntry :: "(nat \<Rightarrow> nat) \<Rightarrow> IndexEntry \<Rightarrow> RpmHeader \<Rightarrow> RpmHeader outcome" where
  "insertIndexEntry grow newEntry header =
     (let h1 = slices_Insert grow (insert_position newEntry (IndexEntries header)) newEntry header;
          h2 = h1\<lparr>indexEntryCount := indexEntryCount h1 + 1\<rparr>
      in obind (updateSignedRegionTrailer h2) syncDataStoreLayout)"

definition DeleteIndexEntry :: "IndexEntry \<Rightarrow> RpmHeader \<Rightarrow> RpmHeader outcome" where
  "DeleteIndexEntry entry header =
     (case find_slot (\<lambda>e. tag e = tag entry) (IndexEntries header) of
        None \<Rightarrow> Ok header
      | Some idx \<Rightarrow>
          (let h1 = header\<lparr>IndexEntries := RemoveAtIndex (IndexEntries header) idx,
                 indexEntryCount := indexEntryCount header - 1\<rparr>
           in obind (updateSignedRegionTrailer h1) syncDataStoreLayout))"

definition DeleteIndexEntryIfExists :: "TagValue \<Rightarrow> RpmHeader \<Rightarrow> RpmHeader outcome" where
  "DeleteIndexEntryIfExists t header =
     (case FindIndexEntry header t of
        None \<Rightarrow> Ok header
      | Some existing \<Rightarrow> DeleteIndexEntry (IndexEntries header ! existing) header)"

section \<open>Allocating space\<close>

text \<open>The entries a scan sees that skips the region trailer.\<close>

fun others :: "nat option \<Rightarrow> nat \<Rightarrow> IndexEntry list \<Rightarrow> IndexEntry list" where
  "others trailer idx [] = []"
| "others trailer idx (e # es) =
     (if Some idx = trailer then others trailer (Suc idx) es
      else e # others trailer (Suc idx) es)"

definition candidates :: "RpmHeader \<Rightarrow> IndexEntry list" where
  "candidates header = others (regionTrailerEntry header) 0 (IndexEntries header)"

fun largest :: "(IndexEntry \<Rightarrow> u32) \<Rightarrow> IndexEntry option \<Rightarrow> IndexEntry list \<Rightarrow> IndexEntry option" where
  "largest key best [] = best"
| "largest key best (e # es) =
     (case best of
        None \<Rightarrow> largest key (Some e) es
      | Some b \<Rightarrow> largest key (if key e > key b then Some e else best) es)"

definition FindNextSuitablePayloadOffset :: "RpmHeader \<Rightarrow> FormatType \<Rightarrow> u32 outcome" where
  "FindNextSuitablePayloadOffset header format =
     (case largest offset None (candidates header) of
        None \<Rightarrow> Ok 0
      | Some e \<Rightarrow>
          (let payloadOffset = offset e + of_nat (length (payload e))
           in obind (GetRequiredAlignment format) (\<lambda>a.
              obind (CalcAlignmentByteCount (ucast payloadOffset) a) (\<lambda>alignmentOffset.
                Ok (payloadOffset + ucast alignmentOffset)))))"

text \<open>Only entries whose data ends behind offset 0 can be the last one.\<close>

definition isAtEndOfDataStore :: "RpmHeader \<Rightarrow> IndexEntry \<Rightarrow> bool outcome" where
  "isAtEndOfDataStore header entry =
     (case largest endOffset None (filter (\<lambda>e. endOffset e > 0) (candidates header)) of
        None \<Rightarrow> Panic ''No index entries''
      | Some lastEntry \<Rightarrow> Ok (tag lastEntry = tag entry))"

text \<open>One activation of \<^verbatim>\<open>allocateSpaceInDatastore\<close>: \<open>Inr\<close> is the address it returns,
  \<open>Inl\<close> the header it recurses on.\<close>

definition resize_reserved :: "int \<Rightarrow> IndexEntry \<Rightarrow> IndexEntry" where
  "resize_reserved n e = e\<lparr>dataItemCnt := word_of_int n, payload := replicate (nat n) 0\<rparr>"

definition allocate_from ::
  "nat \<Rightarrow> u32 \<Rightarrow> FormatType \<Rightarrow> RpmHeader \<Rightarrow> (RpmHeader + (u32 \<times> RpmHeader)) outcome" where
  "allocate_from slot requestedSize format header =
     (let reservedSpace = IndexEntries header ! slot
      in obind (isAtEndOfDataStore header reservedSpace) (\<lambda>reservedSpaceAtEndOfDataStore.
         obind (GetRequiredAlignment format) (\<lambda>a.
         obind (CalcAlignmentByteCount (ucast (offset reservedSpace)) a) (\<lambda>alignment8.
           let alignment = ucast alignment8;
               allocatedAddress = offset reservedSpace + alignment;
               actualSize = requestedSize + alignment;
               remainingReservedSpace = uint (dataItemCnt reservedSpace) - uint actualSize
           in if remainingReservedSpace > 0 then
                Ok (Inr (allocatedAddress,
                  at_slot slot (\<lambda>e. resize_reserved remainingReservedSpace
                    (e\<lparr>offset := offset e + actualSize\<rparr>)) header))
              else if remainingReservedSpace = 0 then
                Ok (Inr (allocatedAddress,
                  at_slot slot (\<lambda>e. resize_reserved (uint RESERVED_SPACE_ALLOCATION_SIZE)
                    (e\<lparr>offset := offset e + actualSize\<rparr>)) header))
              else
                (let h1 = at_slot slot (resize_reserved
                       (uint actualSize + uint RESERVED_SPACE_ALLOCATION_SIZE)) header
                 in if reservedSpaceAtEndOfDataStore then Ok (Inl h1)
                    else
                      obind (FindNextSuitablePayloadOffset h1 FORMAT_TYPE_BINARY) (\<lambda>o'.
                        Ok (Inl (at_slot slot (\<lambda>e. e\<lparr>offset := o'\<rparr>) h1))))))))"

definition create_reserved ::
  "(nat \<Rightarrow> nat) \<Rightarrow> u32 \<Rightarrow> FormatType \<Rightarrow> RpmHeader \<Rightarrow> RpmHeader outcome" where
  "create_reserved grow requestedSize format header =
     obind (FindNextSuitablePayloadOffset header FORMAT_TYPE_BINARY) (\<lambda>reservedSpaceStart.
     obind (GetRequiredAlignment format) (\<lambda>a.
     obind (CalcAlignmentByteCount (ucast reservedSpaceStart) a) (\<lambda>payloadAlignment.
       let reservedSize = RESERVED_SPACE_ALLOCATION_SIZE + requestedSize + ucast payloadAlignment
       in insertIndexEntry grow
            \<lparr>isMainHeaderEntry = IsMainHeader header, tag = ID SigTagReservedSpace,
             formatType = FORMAT_TYPE_BINARY, offset = reservedSpaceStart,
             dataItemCnt = reservedSize, payload = replicate (unat reservedSize) 0\<rparr> header)))"

definition allocate_step ::
  "(nat \<Rightarrow> nat) \<Rightarrow> u32 \<Rightarrow> FormatType \<Rightarrow> RpmHeader \<Rightarrow> (RpmHeader + (u32 \<times> RpmHeader)) outcome" where
  "allocate_step grow requestedSize format header =
     (case FindIndexEntry header SigTagReservedSpace of
        Some slot \<Rightarrow> allocate_from slot requestedSize format header
      | None \<Rightarrow> obind (create_reserved grow requestedSize format header) (\<lambda>h. Ok (Inl h)))"

text \<open>The recursion may not end, for sizes close to 4 GiB; not returning is \<open>None\<close>.\<close>

partial_function (option) allocateSpaceInDatastore ::
  "(nat \<Rightarrow> nat) \<Rightarrow> u32 \<Rightarrow> FormatType \<Rightarrow> RpmHeader \<Rightarrow> (u32 \<times> RpmHeader) outcome option" where
  "allocateSpaceInDatastore grow requestedSize format header =
     (case allocate_step grow requestedSize format header of
        Ok r \<Rightarrow>
          (case r of
             Inl h \<Rightarrow> allocateSpaceInDatastore grow requestedSize format h
           | Inr res \<Rightarrow> Some (Ok res))
      | Err e \<Rightarrow> Some (Err e)
      | Panic m \<Rightarrow> Some (Panic m))"

declare allocateSpaceInDatastore.simps [code]

section \<open>Adding and replacing entries\<close>

definition addIndexEntry :: "(nat \<Rightarrow> nat) \<Rightarrow> IndexEntry \<Rightarrow> RpmHeader \<Rightarrow> RpmHeader outcome option" where
  "addIndexEntry grow newEntry header =
     (if IsMainHeader header \<noteq> isMainHeaderEntry newEntry then
        Some (Panic ''IndexEntry IsMainHeader does not match with header'')
      else
        (case allocateSpaceInDatastore grow (of_nat (length (payload newEntry)))
                (formatType newEntry) header of
           None \<Rightarrow> None
         | Some r \<Rightarrow>
             Some (obind r (\<lambda>(o', h). insertIndexEntry grow (newEntry\<lparr>offset := o'\<rparr>) h))))"

text \<open>The final writes of \<^verbatim>\<open>SetOrAddIndexEntry\<close> go through the pointer obtained at its
  start, into slot \<open>slot\<close> of array \<open>arr\<close>.\<close>

definition write_existing ::
  "nat \<Rightarrow> nat \<Rightarrow> u32 \<Rightarrow> u32 \<Rightarrow> bytes \<Rightarrow> RpmHeader \<Rightarrow> RpmHeader" where
  "write_existing arr slot newOffset newDataItemCnt newPayload header =
     (if entries_array header = arr then
        at_slot slot (\<lambda>e. e\<lparr>offset := newOffset, dataItemCnt := newDataItemCnt,
          payload := newPayload\<rparr>) header
      else header)"

definition SetOrAddIndexEntry ::
  "(nat \<Rightarrow> nat) \<Rightarrow> TagValue \<Rightarrow> FormatType \<Rightarrow> u32 \<Rightarrow> bytes \<Rightarrow> RpmHeader \<Rightarrow> RpmHeader outcome option" where
  "SetOrAddIndexEntry grow t format newDataItemCnt newPayload header =
     (case FindIndexEntry header t of
        Some slot \<Rightarrow>
          (let existing = IndexEntries header ! slot
           in if formatType existing \<noteq> format then
                Some (Panic ''Trying to replace entry with same tag but different format type?'')
              else
                (let needsMoreSpace = length newPayload > length (payload existing)
                 in case isAtEndOfDataStore header existing of
                      Ok atEndOfDataStore \<Rightarrow>
                        (case (if needsMoreSpace \<and> \<not> atEndOfDataStore then
                                 allocateSpaceInDatastore grow (of_nat (length newPayload)) format header
                               else Some (Ok (offset existing, header))) of
                           None \<Rightarrow> None
                         | Some r \<Rightarrow>
                             Some (obind r (\<lambda>(newOffset, h).
                               syncDataStoreLayout
                                 (write_existing (entries_array header) slot newOffset
                                   newDataItemCnt newPayload h))))
                    | Err e \<Rightarrow> Some (Err e)
                    | Panic m \<Rightarrow> Some (Panic m)))
      | None \<Rightarrow>
          addIndexEntry grow
            \<lparr>isMainHeaderEntry = IsMainHeader header, tag = ID t, formatType = format,
             offset = 0, dataItemCnt = newDataItemCnt, payload = newPayload\<rparr> header)"

end
