(* ===== verification/Header_Layout.thy ===== *)
theory Header_Layout
  imports Header
begin

text \<open>
  The layout of the data store. \<open>packed\<close> is the specification: entries in data store order,
  each at the first offset behind its predecessor that its format type allows.
  \<^verbatim>\<open>syncDataStoreLayout\<close> produces such a layout for every header whose formats are known and
  whose data fits into 32 bits, changes nothing but offsets and the store size, and leaves a
  header that is packed already as it is. From \<open>packed\<close> follow alignment, order and
  disjointness of the stored payloads.
\<close>


section \<open>Specification\<close>

definition valid_format :: "u32 \<Rightarrow> bool" where
  "valid_format f \<longleftrightarrow> 1 \<le> unat f \<and> unat f \<le> 9"

definition align_of :: "u32 \<Rightarrow> nat" where
  "align_of f = (if f = 3 then 2 else if f = 4 then 4 else if f = 5 then 8 else 1)"

definition weight :: "IndexEntry list \<Rightarrow> nat" where
  "weight es = sum_list (map (\<lambda>e. length (payload e) + 16) es)"

fun packed :: "nat \<Rightarrow> IndexEntry list \<Rightarrow> nat \<Rightarrow> bool" where
  "packed n [] m \<longleftrightarrow> m = n"
| "packed n (e # es) m \<longleftrightarrow>
     unat (offset e) = n + pad_to (align_of (formatType e)) n \<and>
     packed (unat (offset e) + length (payload e)) es m"

definition data_order :: "RpmHeader \<Rightarrow> IndexEntry list" where
  "data_order h =
     candidates h @ (case regionTrailerEntry h of None \<Rightarrow> [] | Some t \<Rightarrow> [IndexEntries h ! t])"

definition core :: "IndexEntry \<Rightarrow> IndexEntry" where
  "core e = e\<lparr>offset := 0\<rparr>"

definition layoutable :: "RpmHeader \<Rightarrow> bool" where
  "layoutable h \<longleftrightarrow> (\<forall>e\<in>set (IndexEntries h). valid_format (formatType e)) \<and>
     weight (IndexEntries h) < 4294967296"

section \<open>Placing entries\<close>

lemma valid_format_cases: "valid_format f \<Longrightarrow> f \<in> {1, 2, 3, 4, 5, 6, 7, 8, 9}"
proof -
  assume "valid_format f"
  then have "unat f \<in> {1, 2, 3, 4, 5, 6, 7, 8, 9}" by (auto simp: valid_format_def)
  then have "(of_nat (unat f) :: u32) \<in> {1, 2, 3, 4, 5, 6, 7, 8, 9}"
    by (elim insertE emptyE) (simp_all only:, simp_all)
  then show ?thesis by simp
qed

lemma GetRequiredAlignment_valid:
  assumes "valid_format f"
  obtains k where "k < 4" and "GetRequiredAlignment f = Ok (2 ^ k)" and "align_of f = 2 ^ k"
proof -
  have "\<exists>k<4. GetRequiredAlignment f = Ok (2 ^ k) \<and> align_of f = 2 ^ k"
    using valid_format_cases [OF assms]
  proof (elim insertE emptyE)
    assume "f = 3" then show ?thesis by (intro exI [of _ 1]) (simp add: GetRequiredAlignment_def align_of_def)
  next
    assume "f = 4" then show ?thesis by (intro exI [of _ 2]) (simp add: GetRequiredAlignment_def align_of_def)
  next
    assume "f = 5" then show ?thesis by (intro exI [of _ 3]) (simp add: GetRequiredAlignment_def align_of_def)
  qed (rule exI [of _ 0], simp add: GetRequiredAlignment_def align_of_def)+
  with that show thesis by blast
qed

lemma align_of_bounds: "0 < align_of f" "align_of f \<le> 8"
  by (simp_all add: align_of_def)

lemma GetRequiredAlignment_panics_iff: "(\<exists>m. GetRequiredAlignment f = Panic m) \<longleftrightarrow> \<not> valid_format f"
proof
  assume "\<exists>m. GetRequiredAlignment f = Panic m"
  then show "\<not> valid_format f" by (auto elim: GetRequiredAlignment_valid)
next
  assume "\<not> valid_format f"
  then have "f \<notin> {1, 2, 3, 4, 5, 6, 7, 8, 9}"
    by (auto simp: valid_format_def)
  then show "\<exists>m. GetRequiredAlignment f = Panic m" by (simp add: GetRequiredAlignment_def)
qed

text \<open>The padding an offset needs for a format, as the code computes it.\<close>

lemma padding_eval:
  assumes "valid_format f"
  obtains p where "obind (GetRequiredAlignment f) (\<lambda>a. CalcAlignmentByteCount (ucast (n :: u32)) a) = Ok p"
    and "unat p = pad_to (align_of f) (unat n)" and "unat p \<le> 7"
    and "\<And>g. obind (GetRequiredAlignment f) (\<lambda>a. obind (CalcAlignmentByteCount (ucast n) a) g) = g p"
proof -
  obtain k where k: "k < 4" "GetRequiredAlignment f = Ok (2 ^ k)" "align_of f = 2 ^ k"
    using GetRequiredAlignment_valid [OF assms] .
  define q where "q = pad_to (align_of f) (unat n)"
  have "q < align_of f" unfolding q_def by (rule pad_to_less) (rule align_of_bounds)
  with align_of_bounds(2) [of f] have q: "q \<le> 7" by simp
  have "unat (ucast n :: u64) = unat n" by (simp add: unsigned_ucast_eq take_bit_nat_eq_self_iff order_less_le_trans [OF unat_lt_u32])
  then have "CalcAlignmentByteCount (ucast n) (2 ^ k) = Ok (of_nat q)"
    using CalcAlignmentByteCount_power [of k "ucast n"] k by (simp add: q_def)
  moreover have "unat (of_nat q :: u8) = q" using q by (simp add: unsigned_of_nat take_bit_nat_eq_self_iff)
  ultimately show thesis using that [of "of_nat q"] k q by (simp add: q_def)
qed

lemma place_ok:
  assumes "valid_format (formatType e)" and "unat n + 7 + length (payload e) < 4294967296"
  obtains o' n' where "place n e = Ok (e\<lparr>offset := o'\<rparr>, n')"
    and "unat o' = unat n + pad_to (align_of (formatType e)) (unat n)"
    and "unat n' = unat o' + length (payload e)" and "unat n' \<le> unat n + 7 + length (payload e)"
proof -
  obtain p where p: "unat p = pad_to (align_of (formatType e)) (unat n)" "unat p \<le> 7"
    "\<And>g :: _ \<Rightarrow> (IndexEntry \<times> u32) outcome. obind (GetRequiredAlignment (formatType e))
       (\<lambda>a. obind (CalcAlignmentByteCount (ucast n) a) g) = g p"
    using padding_eval [OF assms(1), of n] by metis
  let ?o = "n + ucast p"
  have up: "unat (ucast p :: u32) = unat p"
    using p(2) by (simp add: unsigned_ucast_eq take_bit_nat_eq_self_iff)
  have o: "unat ?o = unat n + unat p"
    using unat_plus_u32 [of n "ucast p"] up p(2) assms(2) by simp
  have len: "unat (of_nat (length (payload e)) :: u32) = length (payload e)"
    using assms(2) by (intro unat_of_nat_u32) simp
  have "unat (?o + of_nat (length (payload e))) = unat ?o + length (payload e)"
    using unat_plus_u32 [of ?o "of_nat (length (payload e))"] len o p(2) assms(2) by simp
  with o p show thesis
    using that [of ?o "?o + of_nat (length (payload e))"] by (simp add: place_def Let_def)
qed

lemma weight_simps [simp]: "weight [] = 0" "weight (e # es) = length (payload e) + 16 + weight es"
  "weight (es @ fs) = weight es + weight fs"
  by (simp_all add: weight_def)

lemma core_offset [simp]: "core (e\<lparr>offset := o'\<rparr>) = core e"
  by (simp add: core_def)

lemma place_all_ok:
  "\<forall>e\<in>set es. valid_format (formatType e) \<Longrightarrow> unat n + weight es < 4294967296 \<Longrightarrow>
   \<exists>es' n'. place_all t i n es = Ok (es', n') \<and> packed (unat n) (others t i es') (unat n') \<and>
     map core es' = map core es \<and> unat n' \<le> unat n + weight (others t i es)"
proof (induction t i n es rule: place_all.induct)
  case (1 t i n)
  then show ?case by simp
next
  case (2 t i n e es)
  show ?case
  proof (cases "Some i = t")
    case True
    with 2 show ?thesis by fastforce
  next
    case False
    from "2.prems" have "unat n + 7 + length (payload e) < 4294967296" "valid_format (formatType e)" by auto
    then obtain o' n1 where p: "place n e = Ok (e\<lparr>offset := o'\<rparr>, n1)"
      "unat o' = unat n + pad_to (align_of (formatType e)) (unat n)"
      "unat n1 = unat o' + length (payload e)" "unat n1 \<le> unat n + 7 + length (payload e)"
      by (elim place_ok)
    with "2.prems" have "unat n1 + weight es < 4294967296" by simp
    with "2.IH"(2) [OF False, of n1] "2.prems" obtain es' n' where
      "place_all t (Suc i) n1 es = Ok (es', n')" "packed (unat n1) (others t (Suc i) es') (unat n')"
      "map core es' = map core es" "unat n' \<le> unat n1 + weight (others t (Suc i) es)"
      by auto
    with p False show ?thesis by simp
  qed
qed

section \<open>Slots\<close>

lemma find_slot_Some_iff:
  "find_slot P xs = Some i \<longleftrightarrow> i < length xs \<and> P (xs ! i) \<and> (\<forall>j<i. \<not> P (xs ! j))"
proof (induction xs arbitrary: i)
  case (Cons x xs)
  show ?case
  proof (cases i)
    case 0
    then show ?thesis by auto
  next
    case (Suc k)
    then show ?thesis using Cons.IH [of k] by (auto simp: less_Suc_eq_0_disj)
  qed
qed simp

lemma find_slot_None_iff: "find_slot P xs = None \<longleftrightarrow> (\<forall>x\<in>set xs. \<not> P x)"
  by (induction xs) auto

lemma find_slot_cong: "map f xs = map f ys \<Longrightarrow> find_slot (\<lambda>x. P (f x)) xs = find_slot (\<lambda>x. P (f x)) ys"
proof (induction xs arbitrary: ys)
  case (Cons x xs)
  then show ?case by (cases ys) auto
qed simp

lemma core_fields: "core e = core e' \<Longrightarrow> tag e = tag e' \<and> formatType e = formatType e' \<and>
    dataItemCnt e = dataItemCnt e' \<and> payload e = payload e' \<and> isMainHeaderEntry e = isMainHeaderEntry e'"
  by (cases e; cases e') (simp add: core_def)

lemma map_core_map:
  assumes "map core es' = map core es" and "\<And>e. g e = g (core e)"
  shows "map g es' = map g es"
proof -
  have "map g xs = map g (map core xs)" for xs using assms(2) by simp
  with assms(1) show ?thesis by metis
qed

lemma map_core_tag: "map core es' = map core es \<Longrightarrow> map tag es' = map tag es"
  by (erule map_core_map) (simp add: core_def)

lemma map_core_weight: "map core es' = map core es \<Longrightarrow> weight es' = weight es"
  unfolding weight_def
  by (rule arg_cong [where f = sum_list]) (erule map_core_map, simp add: core_def)

lemma FindIndexEntry_cong:
  "map tag (IndexEntries h') = map tag (IndexEntries h) \<Longrightarrow> FindIndexEntry h' t = FindIndexEntry h t"
  unfolding FindIndexEntry_def by (rule find_slot_cong [where f = tag and P = "\<lambda>x. x = ID t"])

lemma regionTrailerEntry_cong:
  "map tag (IndexEntries h') = map tag (IndexEntries h) \<Longrightarrow> IsMainHeader h' = IsMainHeader h \<Longrightarrow>
   regionTrailerEntry h' = regionTrailerEntry h"
  using FindIndexEntry_cong [of h' h] by (simp add: regionTrailerEntry_def)

lemma regionTrailer_bound: "regionTrailerEntry h = Some t \<Longrightarrow> t < length (IndexEntries h)"
  by (auto simp: regionTrailerEntry_def FindIndexEntry_def find_slot_Some_iff split: if_splits)

lemma others_update [simp]: "others (Some t) i (es[t - i := e]) = others (Some t) i es" if "i \<le> t"
  using that
proof (induction es arbitrary: i)
  case (Cons x es)
  show ?case
  proof (cases "i = t")
    case True
    have "others (Some t) (Suc t) xs = xs" for xs
    proof -
      have "t < k \<Longrightarrow> others (Some t) k xs = xs" for k by (induction xs arbitrary: k) auto
      then show ?thesis by simp
    qed
    with True show ?thesis by simp
  next
    case False
    with Cons.prems have "Suc i \<le> t" "t - i = Suc (t - Suc i)" by auto
    with Cons.IH [of "Suc i"] False show ?thesis by simp
  qed
qed simp

lemma others_None [simp]: "others None i es = es"
  by (induction es arbitrary: i) auto

lemma others_beyond: "t < i \<Longrightarrow> others (Some t) i es = es"
  by (induction es arbitrary: i) auto

lemma weight_others: "i \<le> t \<Longrightarrow> t - i < length es \<Longrightarrow>
    weight (others (Some t) i es) + length (payload (es ! (t - i))) + 16 = weight es"
proof (induction es arbitrary: i)
  case (Cons x es)
  show ?case
  proof (cases "i = t")
    case False
    with Cons.prems have "Suc i \<le> t" "t - i = Suc (t - Suc i)" by auto
    with Cons.IH [of "Suc i"] Cons.prems False show ?thesis by simp
  qed (simp add: others_beyond)
qed simp

lemma packed_append:
  "packed n (es @ fs) m \<longleftrightarrow> (\<exists>k. packed n es k \<and> packed k fs m)"
  by (induction es arbitrary: n) auto

lemma nth_core: "map core es' = map core es \<Longrightarrow> i < length es \<Longrightarrow> core (es' ! i) = core (es ! i)"
  by (metis length_map nth_map)

section \<open>The whole layout\<close>

text \<open>The layout is packed, complete and leaves everything but offsets and the store size alone.\<close>

lemma syncDataStoreLayout_ok:
  assumes "layoutable h"
  obtains h' where "syncDataStoreLayout h = Ok h'"
    and "packed 0 (data_order h') (unat (storeSizeInBytes h'))"
    and "map core (IndexEntries h') = map core (IndexEntries h)"
    and "h' = h\<lparr>IndexEntries := IndexEntries h', storeSizeInBytes := storeSizeInBytes h'\<rparr>"
    and "unat (storeSizeInBytes h') \<le> weight (IndexEntries h)"
proof -
  let ?t = "regionTrailerEntry h" and ?es = "IndexEntries h"
  have bound: "\<forall>e\<in>set ?es. valid_format (formatType e)" "unat (0 :: u32) + weight ?es < 4294967296"
    using assms by (simp_all add: layoutable_def)
  obtain es' n' where pa: "place_all ?t 0 0 ?es = Ok (es', n')" "packed 0 (others ?t 0 es') (unat n')"
    "map core es' = map core ?es" "unat n' \<le> weight (others ?t 0 ?es)"
    using place_all_ok [OF bound, of ?t 0] by auto
  have len: "length es' = length ?es" using map_eq_imp_length_eq [OF pa(3)] .
  show thesis
  proof (cases ?t)
    case None
    let ?h = "h\<lparr>IndexEntries := es', storeSizeInBytes := n'\<rparr>"
    have "regionTrailerEntry ?h = None"
      using regionTrailerEntry_cong [of ?h h] map_core_tag [OF pa(3)] None by simp
    with None pa show thesis
      by (intro that [of ?h]) (simp_all add: syncDataStoreLayout_def data_order_def candidates_def)
  next
    case (Some t)
    have t: "t < length ?es" using regionTrailer_bound [OF Some] .
    have ct: "core (es' ! t) = core (?es ! t)" using nth_core [OF pa(3) t] .
    have "valid_format (formatType (es' ! t))"
      using bound(1) t core_fields [OF ct] by simp
    moreover have "unat n' + 7 + length (payload (es' ! t)) < 4294967296"
      using weight_others [of 0 t ?es] t pa(4) Some bound(2) core_fields [OF ct] by simp
    ultimately obtain o' n2 where p: "place n' (es' ! t) = Ok ((es' ! t)\<lparr>offset := o'\<rparr>, n2)"
      "unat o' = unat n' + pad_to (align_of (formatType (es' ! t))) (unat n')"
      "unat n2 = unat o' + length (payload (es' ! t))" "unat n2 \<le> unat n' + 7 + length (payload (es' ! t))"
      by (elim place_ok)
    let ?es2 = "es'[t := (es' ! t)\<lparr>offset := o'\<rparr>]"
    let ?h = "h\<lparr>IndexEntries := ?es2, storeSizeInBytes := n2\<rparr>"
    have core2: "map core ?es2 = map core ?es"
      using pa(3) t len ct by (simp add: map_update list_update_same_conv)
    have "regionTrailerEntry ?h = Some t"
      using regionTrailerEntry_cong [of ?h h] map_core_tag [OF core2] Some by simp
    then have "packed 0 (data_order ?h) (unat n2)"
      using pa(2) p others_update [of 0 t es'] Some t len
      by (simp add: data_order_def candidates_def packed_append) blast
    moreover have "unat n2 \<le> weight ?es"
      using weight_others [of 0 t ?es] t pa(4) p(4) Some core_fields [OF ct] by simp
    ultimately show thesis
      using that [of ?h] pa(1) p(1) Some core2 by (simp add: syncDataStoreLayout_def)
  qed
qed

subsection \<open>A packed header is left alone\<close>

lemma place_fixed:
  assumes "valid_format (formatType e)" and "unat n + 7 + length (payload e) < 4294967296"
    and "unat (offset e) = unat n + pad_to (align_of (formatType e)) (unat n)"
  obtains n' where "place n e = Ok (e, n')" and "unat n' = unat (offset e) + length (payload e)"
    and "unat n' \<le> unat n + 7 + length (payload e)"
proof -
  obtain o' n' where p: "place n e = Ok (e\<lparr>offset := o'\<rparr>, n')" "unat o' = unat (offset e)"
    "unat n' = unat o' + length (payload e)" "unat n' \<le> unat n + 7 + length (payload e)"
    using place_ok [OF assms(1,2)] assms(3) by metis
  then have "o' = offset e" by (simp add: word_unat_eq_iff)
  with p that show thesis by simp
qed

lemma place_all_fixed:
  "\<forall>e\<in>set es. valid_format (formatType e) \<Longrightarrow> unat n + weight es < 4294967296 \<Longrightarrow>
   packed (unat n) (others t i es) m \<Longrightarrow>
   \<exists>n'. place_all t i n es = Ok (es, n') \<and> unat n' = m \<and> m \<le> unat n + weight (others t i es)"
proof (induction t i n es arbitrary: m rule: place_all.induct)
  case (1 t i n)
  then show ?case by simp
next
  case (2 t i n e es)
  show ?case
  proof (cases "Some i = t")
    case True
    with 2 show ?thesis by fastforce
  next
    case False
    from "2.prems"(1,2) have "unat n + 7 + length (payload e) < 4294967296" "valid_format (formatType e)" by auto
    moreover from "2.prems"(3) False have o: "unat (offset e) = unat n + pad_to (align_of (formatType e)) (unat n)"
      and rest: "packed (unat (offset e) + length (payload e)) (others t (Suc i) es) m" by auto
    ultimately obtain n1 where p: "place n e = Ok (e, n1)"
      "unat n1 = unat (offset e) + length (payload e)" "unat n1 \<le> unat n + 7 + length (payload e)"
      using place_fixed by metis
    with "2.prems" have "unat n1 + weight es < 4294967296" by simp
    with "2.IH"(2) [OF False, of n1 m] "2.prems"(1) rest p(2) obtain n' where
      "place_all t (Suc i) n1 es = Ok (es, n')" "unat n' = m" "m \<le> unat n1 + weight (others t (Suc i) es)"
      by auto
    with p False show ?thesis by simp
  qed
qed

lemma syncDataStoreLayout_fixed:
  assumes "layoutable h" and "packed 0 (data_order h) (unat (storeSizeInBytes h))"
  shows "syncDataStoreLayout h = Ok h"
proof -
  let ?t = "regionTrailerEntry h" and ?es = "IndexEntries h"
  have bound: "\<forall>e\<in>set ?es. valid_format (formatType e)" "unat (0 :: u32) + weight ?es < 4294967296"
    using assms by (simp_all add: layoutable_def)
  obtain k where k: "packed (unat (0 :: u32)) (others ?t 0 ?es) k"
    "packed k (case ?t of None \<Rightarrow> [] | Some t \<Rightarrow> [?es ! t]) (unat (storeSizeInBytes h))"
    using assms(2) by (auto simp: data_order_def candidates_def packed_append)
  from place_all_fixed [OF bound k(1)] obtain n where
    n: "place_all ?t 0 0 ?es = Ok (?es, n)" "unat n = k" "k \<le> weight (others ?t 0 ?es)" by auto
  show ?thesis
  proof (cases ?t)
    case None
    with k(2) n have "n = storeSizeInBytes h" by (simp add: word_unat_eq_iff)
    with n None show ?thesis by (simp add: syncDataStoreLayout_def)
  next
    case (Some t)
    have t: "t < length ?es" using regionTrailer_bound [OF Some] .
    have "valid_format (formatType (?es ! t))" using bound(1) t by simp
    moreover have "unat n + 7 + length (payload (?es ! t)) < 4294967296"
      using weight_others [of 0 t ?es] t n Some bound(2) by simp
    moreover have "unat (offset (?es ! t)) = unat n + pad_to (align_of (formatType (?es ! t))) (unat n)"
      using k(2) Some n(2) by simp
    ultimately obtain n' where p: "place n (?es ! t) = Ok (?es ! t, n')"
      "unat n' = unat (offset (?es ! t)) + length (payload (?es ! t))"
      using place_fixed by metis
    with k(2) Some have "n' = storeSizeInBytes h" by (simp add: word_unat_eq_iff)
    with n p Some show ?thesis by (simp add: syncDataStoreLayout_def)
  qed
qed

subsection \<open>What packed means for the stored bytes\<close>

lemma packed_bounds: "packed n es m \<Longrightarrow> e \<in> set es \<Longrightarrow>
    n \<le> unat (offset e) \<and> unat (offset e) + length (payload e) \<le> m"
  and packed_mono: "packed n es m \<Longrightarrow> n \<le> m"
proof (induction es arbitrary: n)
  case (Cons x es)
  { case 1 with Cons.IH [of "unat (offset x) + length (payload x)"] show ?case by fastforce }
  { case 2 with Cons.IH [of "unat (offset x) + length (payload x)"] show ?case by fastforce }
qed simp_all

lemma packed_aligned:
  "packed n es m \<Longrightarrow> e \<in> set es \<Longrightarrow> unat (offset e) mod align_of (formatType e) = 0"
  by (induction es arbitrary: n) (auto simp: pad_to_aligned align_of_bounds)

lemma packed_ordered:
  "packed n es m \<Longrightarrow> sorted_wrt (\<lambda>e f. unat (offset e) + length (payload e) \<le> unat (offset f)) es"
  by (induction es arbitrary: n) (auto dest: packed_bounds)

lemma set_others: "set (others t i es) \<subseteq> set es"
  by (induction es arbitrary: i) auto

lemma set_others_Some: "i \<le> t \<Longrightarrow> t - i < length es \<Longrightarrow>
    set es = insert (es ! (t - i)) (set (others (Some t) i es))"
proof (induction es arbitrary: i)
  case (Cons x es)
  show ?case
  proof (cases "i = t")
    case False
    with Cons.prems have "Suc i \<le> t" "t - i = Suc (t - Suc i)" by auto
    with Cons.IH [of "Suc i"] Cons.prems False show ?thesis by auto
  qed (simp add: others_beyond)
qed simp

lemma set_data_order: "set (data_order h) = set (IndexEntries h)"
proof (cases "regionTrailerEntry h")
  case (Some t)
  with set_others_Some [of 0 t "IndexEntries h"] regionTrailer_bound [OF Some] show ?thesis
    by (auto simp: data_order_def candidates_def)
qed (simp add: data_order_def candidates_def)
end
