(* ===== verification/Header_Edit.thy ===== *)
theory Header_Edit
  imports Header_Layout
begin

text \<open>
  Inserting and deleting index entries of a signature header. \<open>consistent\<close> collects what
  \<^verbatim>\<open>assertHeaderConsistent\<close> of \<^verbatim>\<open>rpmparser_test.go\<close> checks: entries sorted by tag, known
  formats and well-formed payloads, a packed data store, counters and region trailer that cover
  every entry. The operations keep it, and on \<open>full_view\<close>, the finite map from tags to
  (format, count, payload), they are the map update and the map deletion.
\<close>


section \<open>Specification\<close>

type_synonym entry_data = "u32 \<times> u32 \<times> bytes"

definition entry_value :: "IndexEntry \<Rightarrow> entry_data" where
  "entry_value e = (formatType e, dataItemCnt e, payload e)"

definition entry_map :: "IndexEntry list \<Rightarrow> u32 \<rightharpoonup> entry_data" where
  "entry_map es = map_of (map (\<lambda>e. (tag e, entry_value e)) es)"

definition managed_tags :: "u32 set" where
  "managed_tags = {ID SigTagHeaderSignatures, ID SigTagReservedSpace}"

definition sig_view :: "RpmHeader \<Rightarrow> u32 \<rightharpoonup> entry_data" where
  "sig_view h = entry_map (IndexEntries h) |` (- managed_tags)"

text \<open>The same with the reserved space.\<close>

definition full_view :: "RpmHeader \<Rightarrow> u32 \<rightharpoonup> entry_data" where
  "full_view h = entry_map (IndexEntries h) |` (- {ID SigTagHeaderSignatures})"

definition meta :: "RpmHeader \<Rightarrow> RpmHeader" where
  "meta h = h\<lparr>IndexEntries := [], storeSizeInBytes := 0, indexEntryCount := 0,
     signedRegion := None, entries_cap := 0, entries_array := 0\<rparr>"

definition has_region :: "RpmHeader \<Rightarrow> bool" where
  "has_region h \<longleftrightarrow> ID SigTagHeaderSignatures \<in> set (map tag (IndexEntries h))"

text \<open>The region trailer's own record: tag 62, type binary, sixteen bytes.\<close>

definition trailer_record :: "bytes \<Rightarrow> bool" where
  "trailer_record p \<longleftrightarrow> length p = 16 \<and> take 8 p = be32 0x3e @ be32 7 \<and> drop 12 p = be32 16"

definition entries_ok :: "IndexEntry list \<Rightarrow> bool" where
  "entries_ok es \<longleftrightarrow>
     sorted_wrt (<) (map tag es) \<and>
     (\<forall>e\<in>set es. payload_ok e \<and> \<not> isMainHeaderEntry e \<and>
        (tag e = ID SigTagHeaderSignatures \<longrightarrow> formatType e = 7 \<and> trailer_record (payload e)) \<and>
        (tag e = ID SigTagReservedSpace \<longrightarrow> formatType e = 7)) \<and>
     weight es < 4294967296"

definition sig_shape :: "RpmHeader \<Rightarrow> bool" where
  "sig_shape h \<longleftrightarrow> \<not> IsMainHeader h \<and> entries_ok (IndexEntries h)"

definition counted :: "RpmHeader \<Rightarrow> bool" where
  "counted h \<longleftrightarrow>
     unat (indexEntryCount h) = length (IndexEntries h) \<and>
     (\<forall>sr. signedRegion h = Some sr \<longrightarrow> (\<exists>e\<in>set (IndexEntries h). tag e = ID SigTagHeaderSignatures) \<longrightarrow>
        unat (IndexEntryCount sr) = length (IndexEntries h)) \<and>
     (\<forall>e\<in>set (IndexEntries h). tag e = ID SigTagHeaderSignatures \<longrightarrow>
        take 4 (drop 8 (payload e)) = be32 (- of_nat (16 * length (IndexEntries h))))"

definition consistent :: "RpmHeader \<Rightarrow> bool" where
  "consistent h \<longleftrightarrow>
     sig_shape h \<and> counted h \<and> packed 0 (data_order h) (unat (storeSizeInBytes h))"

section \<open>Maps of entries\<close>

lemma sorted_distinct_tags: "sorted_wrt (<) (map tag es) \<Longrightarrow> distinct (map tag es)"
  by (simp add: strict_sorted_iff)

lemma entry_map_core: "map core es' = map core es \<Longrightarrow> entry_map es' = entry_map es"
  unfolding entry_map_def
  by (rule arg_cong [where f = map_of]) (erule map_core_map, simp add: core_def entry_value_def)

lemma entry_map_append: "entry_map (es @ fs) = entry_map fs ++ entry_map es"
  by (simp add: entry_map_def)

lemma entry_map_Cons: "entry_map (e # es) = (entry_map es)(tag e \<mapsto> entry_value e)"
  by (simp add: entry_map_def)

lemma dom_entry_map: "dom (entry_map es) = tag ` set es"
  by (simp add: entry_map_def dom_map_of_conv_image_fst image_image)

lemma entry_map_None: "k \<notin> tag ` set es \<Longrightarrow> entry_map es k = None"
  using dom_entry_map [of es] by auto

lemma entry_map_insert:
  assumes "tag e \<notin> tag ` set es"
  shows "entry_map (take i es @ e # drop i es) = (entry_map es)(tag e \<mapsto> entry_value e)"
proof -
  have "tag e \<notin> tag ` set (take i es)" using assms by (auto dest: in_set_takeD)
  then have "entry_map (take i es) (tag e) = None" by (rule entry_map_None)
  then have "entry_map (take i es @ e # drop i es) = (entry_map (drop i es) ++ entry_map (take i es))(tag e \<mapsto> entry_value e)"
    by (auto simp: entry_map_append entry_map_Cons map_add_def fun_eq_iff split: option.splits)
  then show ?thesis by (simp add: entry_map_append [symmetric])
qed

lemma remove_fresh:
  assumes "distinct (map tag es)" and "i < length es"
  shows "tag (es ! i) \<notin> tag ` set (RemoveAtIndex es i)"
    and "es[i := e] = take i (RemoveAtIndex es i) @ e # drop i (RemoveAtIndex es i)"
proof -
  have es: "es = take i es @ es ! i # drop (Suc i) es" using assms(2) by (rule id_take_nth_drop)
  have "distinct (map tag (take i es @ es ! i # drop (Suc i) es))" using assms(1) es by simp
  then show "tag (es ! i) \<notin> tag ` set (RemoveAtIndex es i)"
    by (auto simp: RemoveAtIndex_def simp del: append_take_drop_id)
  show "es[i := e] = take i (RemoveAtIndex es i) @ e # drop i (RemoveAtIndex es i)"
    using assms(2) by (simp add: RemoveAtIndex_def upd_conv_take_nth_drop)
qed

lemma entry_map_remove:
  assumes "distinct (map tag es)" and "i < length es"
  shows "entry_map (RemoveAtIndex es i) = (entry_map es)(tag (es ! i) := None)"
proof -
  note f = remove_fresh [OF assms]
  have "entry_map es = (entry_map (RemoveAtIndex es i))(tag (es ! i) \<mapsto> entry_value (es ! i))"
    using entry_map_insert [OF f(1), of i] f(2) [of "es ! i"] by simp
  with entry_map_None [OF f(1)] show ?thesis by (simp add: fun_upd_idem)
qed

lemma entry_map_update:
  assumes "distinct (map tag es)" and "i < length es" and "tag e = tag (es ! i)"
  shows "entry_map (es[i := e]) = (entry_map es)(tag e \<mapsto> entry_value e)"
  using entry_map_insert [of e "RemoveAtIndex es i" i] remove_fresh [OF assms(1,2)] assms(3)
    entry_map_remove [OF assms(1,2)] by simp

section \<open>Slots of a sorted index\<close>

lemma FindIndexEntry_Some:
  assumes "FindIndexEntry h t = Some i"
  shows "i < length (IndexEntries h)" and "tag (IndexEntries h ! i) = ID t"
    and "IndexEntries h ! i \<in> set (IndexEntries h)"
  using assms by (auto simp: FindIndexEntry_def find_slot_Some_iff)

lemma FindIndexEntry_None: "FindIndexEntry h t = None \<longleftrightarrow> ID t \<notin> tag ` set (IndexEntries h)"
  by (force simp: FindIndexEntry_def find_slot_None_iff)

lemma FindIndexEntry_eqI:
  assumes "distinct (map tag (IndexEntries h))" and "i < length (IndexEntries h)"
    and "tag (IndexEntries h ! i) = ID t"
  shows "FindIndexEntry h t = Some i"
  unfolding FindIndexEntry_def find_slot_Some_iff
  using assms by (auto simp: distinct_conv_nth) (metis less_trans nat_neq_iff)

lemma tag_unique:
  "distinct (map tag es) \<Longrightarrow> e \<in> set es \<Longrightarrow> e' \<in> set es \<Longrightarrow> tag e = tag e' \<Longrightarrow> e = e'"
  by (simp add: distinct_map inj_on_def)

lemma weight_update:
  "i < length es \<Longrightarrow> weight (es[i := e]) + length (payload (es ! i)) = weight es + length (payload e)"
proof (induction es arbitrary: i)
  case (Cons x es)
  then show ?case by (cases i) auto
qed simp

lemma weight_insert: "weight (take i es @ e # drop i es) = weight es + length (payload e) + 16"
  using weight_simps(3) [of "take i es" "drop i es"] by simp

lemma weight_remove: "weight (RemoveAtIndex es i) \<le> weight es"
proof (cases "i < length es")
  case True
  then have "weight es = weight (take i es @ es ! i # drop (Suc i) es)"
    using id_take_nth_drop by metis
  then show ?thesis by (simp add: RemoveAtIndex_def del: append_take_drop_id)
qed (simp add: RemoveAtIndex_def)

lemma weight_length: "16 * length es \<le> weight es"
  by (induction es) auto

section \<open>The region trailer\<close>

lemma be32_bytes:
  "be32 d = [ucast (drop_bit 24 d), ucast (drop_bit 16 d), ucast (drop_bit 8 d), ucast d]"
  unfolding be32_def be16_def by (simp, intro conjI; rule bit_word_eqI) (auto simp: bit_simps)

lemma trailer_payload_bytes:
  assumes "length p = 16"
  shows "length (trailer_payload n p) = 16" and "take 4 (drop 8 (trailer_payload n p)) = be32 n"
    and "trailer_record p \<Longrightarrow> trailer_record (trailer_payload n p)"
proof -
  show "trailer_record p \<Longrightarrow> trailer_record (trailer_payload n p)"
    using assms by (simp add: trailer_record_def trailer_payload_def take_update_cancel drop_update_cancel)
  show "length (trailer_payload n p) = 16" using assms by (simp add: trailer_payload_def)
  have "drop 8 p = [p!8, p!9, p!10, p!11] @ drop 12 p"
    using assms by (simp add: Cons_nth_drop_Suc [symmetric, of 8 p] Cons_nth_drop_Suc [symmetric, of 9 p]
        Cons_nth_drop_Suc [symmetric, of 10 p] Cons_nth_drop_Suc [symmetric, of 11 p])
  then show "take 4 (drop 8 (trailer_payload n p)) = be32 n"
    by (simp add: trailer_payload_def drop_update_swap be32_bytes)
qed

lemma map_tag_update: "i < length es \<Longrightarrow> tag e = tag (es ! i) \<Longrightarrow> map tag (es[i := e]) = map tag es"
  by (simp add: map_update list_update_same_conv)

lemma payload_ok_valid: "payload_ok e \<Longrightarrow> valid_format (formatType e) \<and> payload e \<noteq> []"
proof
  assume ok: "payload_ok e"
  from payload_ok_format [OF ok] show "valid_format (formatType e)" by (auto simp: valid_format_def)
  from ok show "payload e \<noteq> []" by (simp add: payload_ok_def Let_def)
qed

lemma payload_ok_binary:
  "formatType e = 7 \<Longrightarrow> payload_ok e \<longleftrightarrow> payload e \<noteq> [] \<and> length (payload e) = unat (dataItemCnt e)"
  by (auto simp: payload_ok_def Let_def)

lemma entries_ok_update:
  assumes "entries_ok es" and "i < length es" and "tag e = tag (es ! i)"
    and "formatType e = formatType (es ! i)" and "payload_ok e"
    and "isMainHeaderEntry e = isMainHeaderEntry (es ! i)"
    and "tag e = ID SigTagHeaderSignatures \<Longrightarrow> trailer_record (payload e)"
    and "weight es + length (payload e) < 4294967296 + length (payload (es ! i))"
  shows "entries_ok (es[i := e])"
proof -
  have "\<forall>x\<in>set (es[i := e]). x = e \<or> x \<in> set es" using set_update_subset_insert [of es i e] by auto
  moreover have "weight (es[i := e]) < 4294967296" using weight_update [OF assms(2), of e] assms(8) by simp
  ultimately show ?thesis
    using assms nth_mem [OF assms(2)] map_tag_update [OF assms(2,3)]
    unfolding entries_ok_def by metis
qed

lemma trailer_entry:
  assumes "entries_ok es" and "t < length es" "tag (es ! t) = ID SigTagHeaderSignatures"
  shows "trailer_record (payload (es ! t))" and "length (payload (es ! t)) = 16"
proof -
  show "trailer_record (payload (es ! t))" using assms by (auto simp: entries_ok_def)
  then show "length (payload (es ! t)) = 16" by (simp add: trailer_record_def)
qed

lemma entries_ok_trailer:
  fixes n :: u32
  assumes ok: "entries_ok es" and t: "t < length es" "tag (es ! t) = ID SigTagHeaderSignatures"
  defines "e \<equiv> (es ! t)\<lparr>payload := trailer_payload n (payload (es ! t))\<rparr>"
  shows "entries_ok (es[t := e])" and "length (payload e) = 16"
    and "take 4 (drop 8 (payload e)) = be32 n"
proof -
  note tr = trailer_entry(1) [OF ok t] and p16 = trailer_entry(2) [OF ok t]
  note tp = trailer_payload_bytes [OF p16, of n]
  show "length (payload e) = 16" "take 4 (drop 8 (payload e)) = be32 n" using tp p16 by (simp_all add: e_def)
  show "entries_ok (es[t := e])"
  proof (rule entries_ok_update [OF ok t(1)])
    have "payload_ok (es ! t)" "formatType (es ! t) = 7" using ok t by (auto simp: entries_ok_def)
    then show "payload_ok e" using tp(1) p16 by (auto simp: payload_ok_binary e_def)
  qed (use tp p16 ok tr in \<open>auto simp: entries_ok_def e_def\<close>)
qed

lemma updateSignedRegionTrailer_ok:
  assumes "sig_shape h" and "unat (indexEntryCount h) = length (IndexEntries h)"
  obtains h' where "updateSignedRegionTrailer h = Ok h'" and "sig_shape h'" and "counted h'"
    and "map tag (IndexEntries h') = map tag (IndexEntries h)" and "full_view h' = full_view h"
    and "weight (IndexEntries h') = weight (IndexEntries h)"
    and "meta h' = meta h" and "entries_cap h' = entries_cap h" and "entries_array h' = entries_array h"
proof (cases "FindIndexEntry h SigTagHeaderSignatures")
  case None
  then have "counted h" using assms(2) by (force simp: counted_def FindIndexEntry_None)
  moreover have "updateSignedRegionTrailer h = Ok h"
    using None by (simp add: updateSignedRegionTrailer_def)
  ultimately show thesis using that assms(1) by blast
next
  case (Some t)
  let ?es = "IndexEntries h" and ?n = "of_nat (16 * length (IndexEntries h)) :: u32"
  note t = FindIndexEntry_Some [OF Some]
  let ?p = "payload (?es ! t)"
  let ?e = "(?es ! t)\<lparr>payload := trailer_payload (- ?n) ?p\<rparr>"
  have ok: "entries_ok ?es" and dist: "distinct (map tag ?es)"
    using assms(1) by (auto simp: sig_shape_def entries_ok_def sorted_distinct_tags)
  note p16 = trailer_entry(2) [OF ok t(1,2)] and tp = entries_ok_trailer [OF ok t(1,2), of "- ?n"]
  define h1 where "h1 = at_slot t (\<lambda>e. e\<lparr>payload := trailer_payload (- ?n) ?p\<rparr>) h"
  define h' where "h' = (case signedRegion h of None \<Rightarrow> h1
     | Some sr \<Rightarrow> h1\<lparr>signedRegion := Some (sr\<lparr>IndexEntryCount := ?n div 16,
         IndexEntriesStartOffset := DataStoreStartOffset h - ucast ?n\<rparr>)\<rparr>)"
  have es': "IndexEntries h' = ?es[t := ?e]" by (simp add: h'_def h1_def at_slot_def split: option.splits)
  have len: "16 * length ?es < 4294967296"
    using ok weight_length [of ?es] by (simp add: entries_ok_def)
  have "unat (?n div 16) = length ?es"
    using unat_of_nat_u32 [OF len] by (simp add: unat_div_distrib)
  then have sr: "signedRegion h' = Some sr \<Longrightarrow> unat (IndexEntryCount sr) = length ?es" for sr
    by (auto simp: h'_def h1_def at_slot_def split: option.splits)
  have tags: "map tag (IndexEntries h') = map tag ?es"
    using t by (simp add: es' map_tag_update)
  have "entries_ok (IndexEntries h')" unfolding es' by (rule tp(1))
  then have "sig_shape h'"
    using assms(1) by (simp add: sig_shape_def h'_def h1_def at_slot_def split: option.splits)
  moreover have "e = ?e" if "e \<in> set (IndexEntries h')" "tag e = ID SigTagHeaderSignatures" for e
    using tag_unique [of "IndexEntries h'" e ?e] that tags dist t es' set_update_memI [OF t(1), of ?e] by simp
  then have "counted h'"
    using sr tp(3) assms(2) by (fastforce simp: counted_def es' h'_def h1_def at_slot_def split: option.splits)
  moreover have "updateSignedRegionTrailer h = Ok h'"
    using Some assms(1) p16 unfolding h'_def h1_def
    by (simp add: updateSignedRegionTrailer_def sig_shape_def Let_def del: of_nat_mult)
  moreover have "full_view h' = full_view h"
    using entry_map_update [OF dist t(1), of ?e] t(2) by (simp add: full_view_def es')
  moreover have "weight (IndexEntries h') = weight ?es"
    using weight_update [OF t(1), of ?e] p16 tp(2) by (simp add: es')
  ultimately show thesis
    using that [of h'] tags
    by (simp add: meta_def h'_def h1_def at_slot_def split: option.splits)
qed

section \<open>Settling: counters, trailer and layout\<close>

lemma sig_view_full: "sig_view h = full_view h |` (- {ID SigTagReservedSpace})"
  by (auto simp: sig_view_def full_view_def managed_tags_def restrict_map_def fun_eq_iff)

lemma payload_ok_core: "core e = core x \<Longrightarrow> payload_ok e = payload_ok x"
  using core_fields [of e x] by (simp add: payload_ok_def)

lemma entries_ok_core:
  assumes c: "map core es' = map core es" and ok: "entries_ok es"
  shows "entries_ok es'"
proof -
  have ok': "payload_ok e \<and> \<not> isMainHeaderEntry e \<and>
        (tag e = ID SigTagHeaderSignatures \<longrightarrow> formatType e = 7 \<and> trailer_record (payload e)) \<and>
        (tag e = ID SigTagReservedSpace \<longrightarrow> formatType e = 7)" if "e \<in> set es'" for e
  proof -
    have "core e \<in> core ` set es" using arg_cong [OF c, where f = set] that by auto
    then obtain x where x: "x \<in> set es" "core e = core x" by blast
    with ok show ?thesis using core_fields [OF x(2)] payload_ok_core [OF x(2)] by (simp add: entries_ok_def)
  qed
  with ok show ?thesis
    using map_core_tag [OF c] map_core_weight [OF c] by (simp add: entries_ok_def)
qed

lemma syncDataStoreLayout_consistent:
  assumes "sig_shape h" and "counted h"
  obtains h' where "syncDataStoreLayout h = Ok h'" and "consistent h'"
    and "map core (IndexEntries h') = map core (IndexEntries h)" and "full_view h' = full_view h"
    and "meta h' = meta h" and "entries_cap h' = entries_cap h" and "entries_array h' = entries_array h"
    and "unat (storeSizeInBytes h') \<le> weight (IndexEntries h)"
proof -
  have "layoutable h" using assms(1) by (simp add: sig_shape_def entries_ok_def layoutable_def payload_ok_valid)
  then obtain h' where h': "syncDataStoreLayout h = Ok h'"
    "packed 0 (data_order h') (unat (storeSizeInBytes h'))"
    "map core (IndexEntries h') = map core (IndexEntries h)"
    and upd: "h' = h\<lparr>IndexEntries := IndexEntries h', storeSizeInBytes := storeSizeInBytes h'\<rparr>"
    and sz: "unat (storeSizeInBytes h') \<le> weight (IndexEntries h)"
    by (rule syncDataStoreLayout_ok)
  have fields: "IsMainHeader h' = IsMainHeader h" "indexEntryCount h' = indexEntryCount h"
    "signedRegion h' = signedRegion h" "meta h' = meta h" "entries_cap h' = entries_cap h"
    "entries_array h' = entries_array h"
    by (subst upd, simp add: meta_def)+
  have shape: "sig_shape h'"
    using assms(1) fields entries_ok_core [OF h'(3)] by (simp add: sig_shape_def)
  have len: "length (IndexEntries h') = length (IndexEntries h)" using map_eq_imp_length_eq [OF h'(3)] .
  have "\<exists>x\<in>set (IndexEntries h). tag e = tag x \<and> payload e = payload x" if "e \<in> set (IndexEntries h')" for e
  proof -
    have "core e \<in> core ` set (IndexEntries h)" using arg_cong [OF h'(3), where f = set] that by auto
    then show ?thesis using core_fields by blast
  qed
  then have "counted h'" using assms(2) fields len unfolding counted_def by metis
  with h' shape fields sz that show thesis
    by (simp add: consistent_def full_view_def entry_map_core [OF h'(3)])
qed

lemma settle_ok:
  assumes "sig_shape h" and "unat (indexEntryCount h) = length (IndexEntries h)"
  obtains h' where "obind (updateSignedRegionTrailer h) syncDataStoreLayout = Ok h'" and "consistent h'"
    and "map tag (IndexEntries h') = map tag (IndexEntries h)" and "full_view h' = full_view h"
    and "weight (IndexEntries h') = weight (IndexEntries h)"
    and "unat (storeSizeInBytes h') \<le> weight (IndexEntries h)"
    and "meta h' = meta h" and "entries_cap h' = entries_cap h" and "entries_array h' = entries_array h"
proof -
  obtain h1 where h1: "updateSignedRegionTrailer h = Ok h1" "sig_shape h1" "counted h1"
    "map tag (IndexEntries h1) = map tag (IndexEntries h)" "full_view h1 = full_view h"
    "weight (IndexEntries h1) = weight (IndexEntries h)"
    "meta h1 = meta h" "entries_cap h1 = entries_cap h" "entries_array h1 = entries_array h"
    using assms by (rule updateSignedRegionTrailer_ok)
  obtain h2 where h2: "syncDataStoreLayout h1 = Ok h2" "consistent h2"
    "map core (IndexEntries h2) = map core (IndexEntries h1)" "full_view h2 = full_view h1"
    "meta h2 = meta h1" "entries_cap h2 = entries_cap h1" "entries_array h2 = entries_array h1"
    "unat (storeSizeInBytes h2) \<le> weight (IndexEntries h1)"
    using h1(2,3) by (rule syncDataStoreLayout_consistent)
  show thesis
    by (rule that [of h2]) (use h1 h2 map_core_tag [OF h2(3)] map_core_weight [OF h2(3)] in simp_all)
qed

section \<open>Insertion and deletion\<close>

lemma insert_position_sorted:
  assumes "sorted_wrt (<) (map tag es)" and "tag e \<notin> tag ` set es"
  shows "sorted_wrt (<) (map tag (take (insert_position e es) es @ e # drop (insert_position e es) es))"
proof -
  let ?i = "insert_position e es"
  have before: "tag x < tag e" if "x \<in> set (take ?i es)" for x
  proof -
    from that obtain j where j: "j < ?i" "j < length es" "x = es ! j" by (auto simp: in_set_conv_nth)
    then have "\<not> tag (es ! j) > tag e"
      by (auto simp: insert_position_def find_slot_Some_iff find_slot_None_iff split: option.splits)
    moreover have "tag (es ! j) \<noteq> tag e" using assms(2) j(2) by (metis image_eqI nth_mem)
    ultimately show ?thesis using j by simp
  qed
  have after: "tag e < tag x" if "x \<in> set (drop ?i es)" for x
  proof (cases "find_slot (\<lambda>x. tag x > tag e) es")
    case None
    with that show ?thesis by (simp add: insert_position_def)
  next
    case (Some k)
    then have "?i = k" by (simp add: insert_position_def)
    moreover have "k < length es" "tag e < tag (es ! k)" using Some find_slot_Some_iff by metis+
    ultimately have k: "k < length es" "tag e < tag (es ! k)" "?i = k" by simp_all
    from that obtain j where "j < length es - ?i" "x = es ! (?i + j)" by (auto simp: in_set_conv_nth)
    with k assms(1) have "tag (es ! k) \<le> tag x"
      by (cases "j = 0") (auto simp: sorted_wrt_iff_nth_less intro!: less_imp_le)
    with k show ?thesis by simp
  qed
  have "sorted_wrt (<) (map tag (take ?i es) @ map tag (drop ?i es))"
    using assms(1) by (simp add: map_append [symmetric] del: map_append)
  then show ?thesis using before after by (auto simp: sorted_wrt_append)
qed

lemma insertIndexEntry_ok:
  assumes "sig_shape h" and "unat (indexEntryCount h) = length (IndexEntries h)"
    and "tag e \<notin> tag ` set (IndexEntries h)" and "payload_ok e \<and> \<not> isMainHeaderEntry e"
    and "tag e = ID SigTagReservedSpace \<Longrightarrow> formatType e = 7"
    and "tag e \<noteq> ID SigTagHeaderSignatures"
    and "weight (IndexEntries h) + length (payload e) + 16 < 4294967296"
  obtains h' where "insertIndexEntry grow e h = Ok h'" and "consistent h'"
    and "full_view h' = (full_view h)(tag e \<mapsto> entry_value e)"
    and "map tag (IndexEntries h') = map tag (take (insert_position e (IndexEntries h)) (IndexEntries h) @
           e # drop (insert_position e (IndexEntries h)) (IndexEntries h))"
    and "weight (IndexEntries h') = weight (IndexEntries h) + length (payload e) + 16"
    and "unat (storeSizeInBytes h') \<le> weight (IndexEntries h) + length (payload e) + 16"
    and "meta h' = meta h"
    and "length (IndexEntries h) + 1 \<le> entries_cap h \<Longrightarrow> entries_array h' = entries_array h"
    and "length (IndexEntries h') \<le> entries_cap h'"
proof -
  let ?i = "insert_position e (IndexEntries h)" and ?es = "IndexEntries h"
  define h1 where "h1 = slices_Insert grow ?i e h"
  define h2 where "h2 = h1\<lparr>indexEntryCount := indexEntryCount h1 + 1\<rparr>"
  have es2: "IndexEntries h2 = take ?i ?es @ e # drop ?i ?es"
    by (simp add: h2_def h1_def slices_Insert_def Let_def)
  have w: "weight (IndexEntries h2) = weight ?es + length (payload e) + 16"
    unfolding es2 by (rule weight_insert)
  have len: "16 * length ?es < 4294967280" using weight_length [of ?es] assms(7) by simp
  have set2: "set (IndexEntries h2) = insert e (set ?es)"
    unfolding es2 by (metis Un_insert_right append_take_drop_id list.simps(15) set_append)
  have ok: "entries_ok ?es" using assms(1) by (simp add: sig_shape_def)
  have "entries_ok (IndexEntries h2)"
    unfolding entries_ok_def set2 w
    using ok assms(3-7) insert_position_sorted [of ?es e] by (simp add: es2 entries_ok_def)
  moreover have "\<not> IsMainHeader h2"
    using assms(1) by (simp add: sig_shape_def h2_def h1_def slices_Insert_def Let_def)
  ultimately have shape: "sig_shape h2" by (simp add: sig_shape_def)
  have cnt: "unat (indexEntryCount h2) = length (IndexEntries h2)"
  proof -
    have "indexEntryCount h1 = indexEntryCount h" by (simp add: h1_def slices_Insert_def Let_def)
    moreover have "unat (indexEntryCount h + 1) = unat (indexEntryCount h) + 1"
      using unat_plus_u32 [of "indexEntryCount h" 1] assms(2) len by simp
    ultimately show ?thesis using assms(2) by (simp add: h2_def h1_def slices_Insert_def Let_def)
  qed
  obtain h' where h': "obind (updateSignedRegionTrailer h2) syncDataStoreLayout = Ok h'" "consistent h'"
    "map tag (IndexEntries h') = map tag (IndexEntries h2)" "full_view h' = full_view h2"
    "weight (IndexEntries h') = weight (IndexEntries h2)"
    "unat (storeSizeInBytes h') \<le> weight (IndexEntries h2)"
    "meta h' = meta h2" "entries_array h' = entries_array h2" "entries_cap h' = entries_cap h2"
    using settle_ok [OF shape cnt] by metis
  have "full_view h2 = (full_view h)(tag e \<mapsto> entry_value e)"
    using assms(6) by (simp add: full_view_def es2 entry_map_insert [OF assms(3)])
  moreover have "meta h2 = meta h" by (simp add: meta_def h2_def h1_def slices_Insert_def Let_def)
  moreover have "length ?es + 1 \<le> entries_cap h \<Longrightarrow> entries_array h2 = entries_array h"
    by (simp add: h2_def h1_def slices_Insert_def Let_def)
  moreover have "length (IndexEntries h') \<le> entries_cap h'"
  proof -
    have "length (IndexEntries h') = Suc (length ?es)"
      using map_eq_imp_length_eq [OF h'(3)] by (auto simp: es2 min_def)
    moreover have "Suc (length ?es) \<le> entries_cap h2"
      by (simp add: h2_def h1_def slices_Insert_def Let_def)
    ultimately show ?thesis using h'(9) by simp
  qed
  ultimately show thesis
    by (intro that [of h']) (use h' w es2 in \<open>simp_all add: insertIndexEntry_def h2_def h1_def Let_def\<close>)
qed

lemma entries_ok_remove:
  assumes ok: "entries_ok es" and i: "i < length es"
  shows "entries_ok (RemoveAtIndex es i)"
proof -
  have sub: "set (RemoveAtIndex es i) \<subseteq> set es"
    by (auto simp: RemoveAtIndex_def dest: in_set_takeD in_set_dropD)
  have "sorted_wrt (<) (map tag (take i es @ es ! i # drop (Suc i) es))"
    using ok id_take_nth_drop [OF i] by (simp add: entries_ok_def)
  then have "sorted_wrt (<) (map tag (take i es) @ map tag (drop (Suc i) es))"
    by (simp add: sorted_wrt_append)
  then show ?thesis
    using ok sub weight_remove [of es i] unfolding entries_ok_def by (auto simp: RemoveAtIndex_def)
qed

lemma DeleteIndexEntryIfExists_ok:
  assumes "consistent h"
  obtains h' where "DeleteIndexEntryIfExists t h = Ok h'" and "consistent h'"
    and "full_view h' = (full_view h)(ID t := None)" and "meta h' = meta h"
    and "set (map tag (IndexEntries h')) = set (map tag (IndexEntries h)) - {ID t}"
    and "weight (IndexEntries h') \<le> weight (IndexEntries h)"
    and "length (IndexEntries h') = length (IndexEntries h) - (if FindIndexEntry h t = None then 0 else 1)"
    and "entries_cap h' = entries_cap h" and "entries_array h' = entries_array h"
proof (cases "FindIndexEntry h t")
  case None
  then have "entry_map (IndexEntries h) (ID t) = None" by (simp add: FindIndexEntry_None entry_map_None)
  then have "(full_view h)(ID t := None) = full_view h"
    by (simp add: full_view_def fun_upd_idem restrict_map_def)
  moreover have "ID t \<notin> tag ` set (IndexEntries h)" using None by (simp add: FindIndexEntry_None)
  ultimately show thesis
    using None assms by (intro that [of h]) (auto simp: DeleteIndexEntryIfExists_def)
next
  case (Some i)
  let ?es = "IndexEntries h"
  note i = FindIndexEntry_Some [OF Some]
  define h1 where "h1 = h\<lparr>IndexEntries := RemoveAtIndex ?es i, indexEntryCount := indexEntryCount h - 1\<rparr>"
  have ok: "entries_ok ?es" and dist: "distinct (map tag ?es)" and cnt: "unat (indexEntryCount h) = length ?es"
    using assms by (auto simp: consistent_def sig_shape_def counted_def entries_ok_def sorted_distinct_tags)
  have shape: "sig_shape h1"
    using assms entries_ok_remove [OF ok i(1)] by (simp add: consistent_def sig_shape_def h1_def)
  have cnt1: "unat (indexEntryCount h1) = length (IndexEntries h1)"
    using cnt i(1) unat_minus_le [of 1 "indexEntryCount h"] by (simp add: h1_def RemoveAtIndex_def)
  obtain h' where h': "obind (updateSignedRegionTrailer h1) syncDataStoreLayout = Ok h'" "consistent h'"
    "map tag (IndexEntries h') = map tag (IndexEntries h1)" "full_view h' = full_view h1"
    "weight (IndexEntries h') = weight (IndexEntries h1)"
    "meta h' = meta h1" "entries_cap h' = entries_cap h1" "entries_array h' = entries_array h1"
    using settle_ok [OF shape cnt1] by metis
  have dom1: "tag ` set (RemoveAtIndex ?es i) = tag ` set ?es - {ID t}"
    using arg_cong [OF entry_map_remove [OF dist i(1)], where f = dom] i(2) by (simp add: dom_entry_map)
  have len': "length (IndexEntries h') = length ?es - 1"
    using map_eq_imp_length_eq [OF h'(3)] i(1) by (simp add: h1_def RemoveAtIndex_def)
  have find: "find_slot (\<lambda>e. tag e = tag (?es ! i)) ?es = Some i"
    using Some i(2) by (simp add: FindIndexEntry_def)
  have del: "DeleteIndexEntryIfExists t h = Ok h'"
    using Some find h'(1) by (simp add: DeleteIndexEntryIfExists_def DeleteIndexEntry_def h1_def Let_def)
  have view: "full_view h' = (full_view h)(ID t := None)"
    using h'(4) entry_map_remove [OF dist i(1)] i(2)
    by (auto simp: full_view_def h1_def restrict_map_def fun_eq_iff)
  have tags: "set (map tag (IndexEntries h')) = set (map tag ?es) - {ID t}"
    using h'(3) dom1 by (simp add: h1_def)
  show thesis
    by (rule that [OF del h'(2) view _ tags])
      (use h' weight_remove [of ?es i] len' Some in \<open>simp_all add: meta_def h1_def\<close>)
qed
end
