(* ===== verification/Header_Alloc.thy ===== *)
theory Header_Alloc
  imports Header_Edit
begin

text \<open>
  The allocator and \<^verbatim>\<open>SetOrAddIndexEntry\<close> on signature headers. The allocator returns (it
  needs at most three activations) for every size that leaves the data store below 4 GiB. Setting
  a tag is a map update on \<open>sig_view\<close> as long as the pointer the code keeps across the
  allocation stays good. The last section states the editing interface the signing code uses as a
  locale and interprets it on the model's operations.
\<close>


section \<open>Scanning for the last entry\<close>

lemma largest_None: "largest key b es = None \<longleftrightarrow> b = None \<and> es = []"
  by (induction key b es rule: largest.induct) (auto split: option.splits)

lemma largest_mem: "largest key b es = Some x \<Longrightarrow> x \<in> set es \<or> b = Some x"
  by (induction key b es rule: largest.induct) (auto split: option.splits if_splits)

lemma isAtEndOfDataStore_ok:
  assumes "e \<in> set (candidates h)" and "endOffset e > 0"
  obtains b where "isAtEndOfDataStore h x = Ok b"
proof (cases "largest endOffset None (filter (\<lambda>e. endOffset e > 0) (candidates h))")
  case None
  with assms show thesis by (auto simp: largest_None filter_empty_conv)
next
  case (Some l)
  with that show thesis by (simp add: isAtEndOfDataStore_def)
qed

lemma CalcAlignmentByteCount_1: "CalcAlignmentByteCount a 1 = Ok 0"
  by (simp add: CalcAlignmentByteCount_def)

lemma FindNextSuitablePayloadOffset_binary:
  obtains o' where "FindNextSuitablePayloadOffset h FORMAT_TYPE_BINARY = Ok o'"
    and "o' = 0 \<or> (\<exists>e\<in>set (candidates h). o' = endOffset e)"
proof (cases "largest offset None (candidates h)")
  case None
  with that show thesis by (simp add: FindNextSuitablePayloadOffset_def)
next
  case (Some e)
  moreover from largest_mem [OF Some] have "e \<in> set (candidates h)" by simp
  ultimately show thesis
    using that [of "endOffset e"]
    by (auto simp: FindNextSuitablePayloadOffset_def GetRequiredAlignment_def
        CalcAlignmentByteCount_1 [simplified] endOffset_def Let_def)
qed

lemma candidates_subset: "set (candidates h) \<subseteq> set (IndexEntries h)"
  by (simp add: candidates_def set_others)

lemma candidatesI:
  assumes "\<not> IsMainHeader h" and "e \<in> set (IndexEntries h)" and "tag e \<noteq> ID SigTagHeaderSignatures"
  shows "e \<in> set (candidates h)"
proof (cases "regionTrailerEntry h")
  case None
  with assms show ?thesis by (simp add: candidates_def)
next
  case (Some t)
  then have "tag (IndexEntries h ! t) = ID SigTagHeaderSignatures"
    using assms(1) FindIndexEntry_Some(2) by (simp add: regionTrailerEntry_def)
  with assms set_others_Some [of 0 t "IndexEntries h"] regionTrailer_bound [OF Some] Some show ?thesis
    by (auto simp: candidates_def)
qed

lemma endOffset_pos:
  assumes "unat (offset e) + length (payload e) < 4294967296" and "payload e \<noteq> []"
  shows "unat (endOffset e) = unat (offset e) + length (payload e)" and "endOffset e > 0"
proof -
  have "unat (of_nat (length (payload e)) :: u32) = length (payload e)"
    using assms(1) by (intro unat_of_nat_u32) simp
  then show *: "unat (endOffset e) = unat (offset e) + length (payload e)"
    using unat_plus_u32 [of "offset e" "of_nat (length (payload e))"] assms(1) by (simp add: endOffset_def)
  have "0 < length (payload e)" using assms(2) by simp
  with * have "unat (endOffset e) \<noteq> 0" by simp
  then show "endOffset e > 0" by (metis unat_0 word_gt_0)
qed

lemma packed_weight: "packed n es m \<Longrightarrow> m \<le> n + weight es"
proof (induction es arbitrary: n)
  case (Cons e es)
  have "pad_to (align_of (formatType e)) n < align_of (formatType e)"
    by (rule pad_to_less) (rule align_of_bounds)
  with align_of_bounds(2) [of "formatType e"] have "pad_to (align_of (formatType e)) n < 8" by simp
  with Cons.IH [of "unat (offset e) + length (payload e)"] Cons.prems show ?case by auto
qed simp

lemma weight_data_order: "weight (data_order h) = weight (IndexEntries h)"
proof (cases "regionTrailerEntry h")
  case (Some t)
  with weight_others [of 0 t "IndexEntries h"] regionTrailer_bound [OF Some] show ?thesis
    by (simp add: data_order_def candidates_def)
qed (simp add: data_order_def candidates_def)

lemma consistent_ends:
  assumes "consistent h" and "e \<in> set (IndexEntries h)"
  shows "unat (offset e) + length (payload e) \<le> weight (IndexEntries h)"
proof -
  have p: "packed 0 (data_order h) (unat (storeSizeInBytes h))" using assms(1) by (simp add: consistent_def)
  from packed_bounds [OF p] assms(2) packed_weight [OF p] show ?thesis
    by (fastforce simp: set_data_order weight_data_order)
qed

section \<open>Resizing the reserved space\<close>

lemma at_slot_sel [simp]:
  "IndexEntries (at_slot i f h) = (IndexEntries h)[i := f (IndexEntries h ! i)]"
  "IsMainHeader (at_slot i f h) = IsMainHeader h" "indexEntryCount (at_slot i f h) = indexEntryCount h"
  "signedRegion (at_slot i f h) = signedRegion h" "entries_cap (at_slot i f h) = entries_cap h"
  "entries_array (at_slot i f h) = entries_array h" "meta (at_slot i f h) = meta h"
  by (simp_all add: at_slot_def meta_def)

lemma at_slot_ok:
  assumes "sig_shape h" and "counted h" and "i < length (IndexEntries h)"
    and "tag (f (IndexEntries h ! i)) = tag (IndexEntries h ! i)"
    and "formatType (f (IndexEntries h ! i)) = formatType (IndexEntries h ! i)"
    and "payload_ok (f (IndexEntries h ! i))"
    and "isMainHeaderEntry (f (IndexEntries h ! i)) = isMainHeaderEntry (IndexEntries h ! i)"
    and "tag (IndexEntries h ! i) \<noteq> ID SigTagHeaderSignatures"
    and "weight (IndexEntries h) + length (payload (f (IndexEntries h ! i)))
       < 4294967296 + length (payload (IndexEntries h ! i))"
  shows "sig_shape (at_slot i f h)" and "counted (at_slot i f h)"
    and "map tag (IndexEntries (at_slot i f h)) = map tag (IndexEntries h)"
    and "full_view (at_slot i f h) =
      (full_view h)(tag (IndexEntries h ! i) \<mapsto> entry_value (f (IndexEntries h ! i)))"
proof -
  let ?es = "IndexEntries h" let ?e = "f (?es ! i)"
  have ok: "entries_ok ?es" and dist: "distinct (map tag ?es)"
    using assms(1) by (auto simp: sig_shape_def entries_ok_def sorted_distinct_tags)
  show "sig_shape (at_slot i f h)"
    using entries_ok_update [OF ok assms(3-7)] assms(1,4,8,9) by (simp add: sig_shape_def)
  show "map tag (IndexEntries (at_slot i f h)) = map tag ?es"
    using map_tag_update [OF assms(3,4)] by simp
  have "x \<in> set ?es" if "x \<in> set (?es[i := ?e])" "tag x = ID SigTagHeaderSignatures" for x
    using that set_update_subset_insert [of ?es i ?e] assms(4,8) by auto
  then show "counted (at_slot i f h)" using assms(2) unfolding counted_def by (simp, metis)
  show "full_view (at_slot i f h) = (full_view h)(tag (?es ! i) \<mapsto> entry_value ?e)"
    using entry_map_update [OF dist assms(3,4)] assms(4,8) by (simp add: full_view_def)
qed

lemma resize_reserved_sel [simp]:
  "tag (resize_reserved n e) = tag e" "isMainHeaderEntry (resize_reserved n e) = isMainHeaderEntry e"
  "formatType (resize_reserved n e) = formatType e"
  "offset (resize_reserved n e) = offset e" "dataItemCnt (resize_reserved n e) = word_of_int n"
  "payload (resize_reserved n e) = replicate (nat n) 0"
  by (simp_all add: resize_reserved_def)

lemma payload_ok_resized:
  assumes "formatType e = 7" and "0 < n" and "n < 4294967296"
  shows "payload_ok (resize_reserved n e)"
proof -
  have "unat (word_of_int n :: u32) = nat n"
    using assms(2,3) by (simp add: unsigned_of_int take_bit_int_eq_self)
  with assms show ?thesis by (simp add: payload_ok_binary)
qed

lemma at_slot_const: "at_slot i f h = at_slot i (\<lambda>_. f (IndexEntries h ! i)) h"
  by (simp add: at_slot_def)

lemma at_slot_twice:
  "i < length (IndexEntries h) \<Longrightarrow> at_slot i f (at_slot i g h) = at_slot i (\<lambda>e. f (g e)) h"
  by (simp add: at_slot_def)

text \<open>The reserved space after an activation of the allocator.\<close>

definition same_kind :: "IndexEntry \<Rightarrow> IndexEntry \<Rightarrow> bool" where
  "same_kind e e' \<longleftrightarrow> tag e' = tag e \<and> formatType e' = formatType e \<and>
     isMainHeaderEntry e' = isMainHeaderEntry e \<and> payload_ok e'"

lemma same_kind_resized:
  assumes "formatType e = 7" and "0 < n" and "n < 4294967296"
  shows "same_kind e ((resize_reserved n e)\<lparr>offset := o'\<rparr>)"
proof -
  have "core ((resize_reserved n e)\<lparr>offset := o'\<rparr>) = core (resize_reserved n e)" by simp
  from payload_ok_core [OF this] payload_ok_resized [OF assms] show ?thesis
    by (simp add: same_kind_def)
qed

lemma resize_offset: "resize_reserved n (e\<lparr>offset := o'\<rparr>) = (resize_reserved n e)\<lparr>offset := o'\<rparr>"
  by (simp add: resize_reserved_def)

lemma allocate_from_step:
  fixes h :: RpmHeader and r :: nat and req :: u32
  defines "e \<equiv> IndexEntries h ! r"
  assumes b: "isAtEndOfDataStore h e = Ok b" and f: "valid_format f"
    and small_req: "unat req + 4103 < 4294967296"
  obtains p :: u32 and A :: u32 and R where "unat p \<le> 7" and "unat A = unat req + unat p"
    and "R = uint (dataItemCnt e) - uint A"
    and "allocate_from r req f h =
     (if R > 0 then Ok (Inr (offset e + p,
        at_slot r (\<lambda>_. (resize_reserved R e)\<lparr>offset := offset e + A\<rparr>) h))
      else if R = 0 then Ok (Inr (offset e + p,
        at_slot r (\<lambda>_. (resize_reserved 4096 e)\<lparr>offset := offset e + A\<rparr>) h))
      else let h1 = at_slot r (resize_reserved (uint A + 4096)) h
        in if b then Ok (Inl h1)
           else obind (FindNextSuitablePayloadOffset h1 FORMAT_TYPE_BINARY) (\<lambda>o'.
             Ok (Inl (at_slot r (\<lambda>e. e\<lparr>offset := o'\<rparr>) h1))))"
proof -
  obtain p where p: "unat p \<le> 7"
    "\<And>g :: _ \<Rightarrow> (RpmHeader + (u32 \<times> RpmHeader)) outcome. obind (GetRequiredAlignment f)
       (\<lambda>a. obind (CalcAlignmentByteCount (ucast (offset e)) a) g) = g p"
    using padding_eval [OF f, of "offset e"] by metis
  define A where "A = req + ucast p"
  have up: "unat (ucast p :: u32) = unat p"
    using p(1) by (simp add: unsigned_ucast_eq take_bit_nat_eq_self_iff)
  then have A: "unat A = unat req + unat (ucast p :: u32)"
    using unat_plus_u32 [of req "ucast p"] p(1) small_req by (simp add: A_def)
  define R where "R = uint (dataItemCnt e) - uint A"
  have shift: "at_slot r (\<lambda>e. resize_reserved n (e\<lparr>offset := offset e + A\<rparr>)) h =
      at_slot r (\<lambda>_. (resize_reserved n e)\<lparr>offset := offset e + A\<rparr>) h" for n
    unfolding e_def by (subst at_slot_const) (simp add: resize_offset)
  have four: "uint RESERVED_SPACE_ALLOCATION_SIZE = 4096" by (simp add: RESERVED_SPACE_ALLOCATION_SIZE_def)
  show thesis
  proof (rule that [OF _ A R_def])
    show "unat (ucast p :: u32) \<le> 7" using p(1) up by simp
  qed (unfold allocate_from_def Let_def e_def [symmetric] b obind.simps p(2) A_def [symmetric]
      R_def [symmetric] shift four, rule refl)
qed

lemma enlarge_reserved:
  fixes h :: RpmHeader and r :: nat and N :: int
  defines "e \<equiv> IndexEntries h ! r" and "h1 \<equiv> at_slot r (resize_reserved N) h"
  assumes kind: "formatType e = 7" and rb: "r < length (IndexEntries h)"
    and N: "0 < N" "N < 4294967296"
  obtains e' where "(if b then Ok (Inl h1)
      else obind (FindNextSuitablePayloadOffset h1 FORMAT_TYPE_BINARY) (\<lambda>o'.
        Ok (Inl (at_slot r (\<lambda>e. e\<lparr>offset := o'\<rparr>) h1)))) = Ok (Inl (at_slot r (\<lambda>_. e') h))"
    and "same_kind e e'" and "unat (dataItemCnt e') = nat N" and "length (payload e') = nat N"
    and "offset e' = offset e \<or> offset e' = 0 \<or> (\<exists>x\<in>set (candidates h1). offset e' = endOffset x)"
proof -
  define e1 where "e1 = resize_reserved N e"
  have h1: "h1 = at_slot r (\<lambda>_. e1) h" unfolding h1_def e1_def e_def by (rule at_slot_const)
  have kind1: "same_kind e (e1\<lparr>offset := o'\<rparr>)" for o'
    unfolding e1_def by (rule same_kind_resized [OF kind N])
  obtain o' where o': "FindNextSuitablePayloadOffset h1 FORMAT_TYPE_BINARY = Ok o'"
    "o' = 0 \<or> (\<exists>e\<in>set (candidates h1). o' = endOffset e)"
    using FindNextSuitablePayloadOffset_binary .
  show thesis
  proof (rule that [of "if b then e1 else e1\<lparr>offset := o'\<rparr>"])
    show "same_kind e (if b then e1 else e1\<lparr>offset := o'\<rparr>)"
      using kind1 [of "offset e1"] kind1 [of o'] by simp
    show "unat (dataItemCnt (if b then e1 else e1\<lparr>offset := o'\<rparr>)) = nat N"
      using N by (simp add: e1_def unsigned_of_int take_bit_int_eq_self)
  qed (use o' rb in \<open>auto simp: h1 at_slot_twice e1_def\<close>)
qed

lemma allocate_from_cases:
  assumes kind: "formatType (IndexEntries h ! r) = 7" and rb: "r < length (IndexEntries h)"
    and cand: "IndexEntries h ! r \<in> set (candidates h)"
    and ends: "endOffset (IndexEntries h ! r) > 0"
    and f: "valid_format f" and small_req: "unat req + 4103 < 4294967296"
  shows "(\<exists>a e'. allocate_from r req f h = Ok (Inr (a, at_slot r (\<lambda>_. e') h)) \<and>
            same_kind (IndexEntries h ! r) e' \<and>
            length (payload e') \<le> max (unat (dataItemCnt (IndexEntries h ! r))) 4096)
    \<or> (\<exists>e'. allocate_from r req f h = Ok (Inl (at_slot r (\<lambda>_. e') h)) \<and>
            unat (dataItemCnt (IndexEntries h ! r)) < unat req + 7 \<and>
            same_kind (IndexEntries h ! r) e' \<and> unat req + 4096 \<le> unat (dataItemCnt e') \<and>
            length (payload e') \<le> unat req + 4103 \<and>
            (offset e' = offset (IndexEntries h ! r) \<or>
             (\<exists>h1. h1 = at_slot r (resize_reserved (int (length (payload e')))) h \<and>
                (offset e' = 0 \<or> (\<exists>x\<in>set (candidates h1). offset e' = endOffset x)))))"
proof -
  let ?e = "IndexEntries h ! r"
  obtain b where b: "isAtEndOfDataStore h ?e = Ok b" using isAtEndOfDataStore_ok [OF cand ends] .
  obtain p A :: u32 and R where p: "unat p \<le> 7" and A: "unat A = unat req + unat p"
    and R: "R = uint (dataItemCnt ?e) - uint A" and step: "allocate_from r req f h =
     (if R > 0 then Ok (Inr (offset ?e + p,
        at_slot r (\<lambda>_. (resize_reserved R ?e)\<lparr>offset := offset ?e + A\<rparr>) h))
      else if R = 0 then Ok (Inr (offset ?e + p,
        at_slot r (\<lambda>_. (resize_reserved 4096 ?e)\<lparr>offset := offset ?e + A\<rparr>) h))
      else let h1 = at_slot r (resize_reserved (uint A + 4096)) h
        in if b then Ok (Inl h1)
           else obind (FindNextSuitablePayloadOffset h1 FORMAT_TYPE_BINARY) (\<lambda>o'.
             Ok (Inl (at_slot r (\<lambda>e. e\<lparr>offset := o'\<rparr>) h1))))"
    using allocate_from_step [OF b f small_req] by metis
  have cnt: "uint (dataItemCnt ?e) < 4294967296" "0 \<le> uint A"
    using uint_lt2p [of "dataItemCnt ?e"] by simp_all
  consider "R > 0" | "R = 0" | "R < 0" by linarith
  then show ?thesis
  proof cases
    case 1
    have "R < 4294967296" using cnt unfolding R by linarith
    with 1 have "same_kind ?e ((resize_reserved R ?e)\<lparr>offset := offset ?e + A\<rparr>)"
      by (intro same_kind_resized [OF kind])
    moreover have "nat R \<le> unat (dataItemCnt ?e)"
      using cnt(2) nat_mono [of R "uint (dataItemCnt ?e)"] by (simp add: R nat_uint_eq)
    ultimately show ?thesis using 1 by (intro disjI1) (auto simp: step)
  next
    case 2
    have "same_kind ?e ((resize_reserved 4096 ?e)\<lparr>offset := offset ?e + A\<rparr>)"
      by (rule same_kind_resized [OF kind]) simp_all
    with 2 show ?thesis by (intro disjI1) (auto simp: step)
  next
    case 3
    have uA: "uint A + 4096 = int (unat req + unat p + 4096)" using A by (metis of_nat_add of_nat_numeral of_nat_unat)
    have N: "0 < uint A + 4096" "uint A + 4096 < 4294967296" "nat (uint A + 4096) = unat req + unat p + 4096"
      using p small_req unfolding uA by linarith+
    have "int (unat (dataItemCnt ?e)) < int (unat req + unat p)" using 3 uA unfolding R by simp
    with p have small: "unat (dataItemCnt ?e) < unat req + 7" by linarith
    obtain e' where "allocate_from r req f h = Ok (Inl (at_slot r (\<lambda>_. e') h))"
      and e': "same_kind ?e e'" "unat (dataItemCnt e') = unat req + unat p + 4096"
        "length (payload e') = nat (uint A + 4096)"
      and "offset e' = offset ?e \<or> offset e' = 0 \<or>
        (\<exists>x\<in>set (candidates (at_slot r (resize_reserved (uint A + 4096)) h)). offset e' = endOffset x)"
      using enlarge_reserved [OF kind rb N(1,2), of b] 3 unfolding step Let_def N(3) by auto
    moreover have "int (length (payload e')) = uint A + 4096" using e'(3) N(1) by simp
    ultimately show ?thesis using small e'(1,2) N(3) p by (intro disjI2 exI [of _ e']) auto
  qed
qed

section \<open>The allocator returns\<close>

text \<open>What a caller of the allocator may rely on. The returned address plays no part: every
  caller lays the data store out again.\<close>

definition allocated :: "RpmHeader \<Rightarrow> nat \<Rightarrow> RpmHeader \<Rightarrow> bool" where
  "allocated h req h' \<longleftrightarrow>
     sig_shape h' \<and> counted h' \<and> sig_view h' = sig_view h \<and> meta h' = meta h \<and>
     weight (IndexEntries h') \<le> weight (IndexEntries h) + 2 * req + 9000 \<and>
     (\<forall>i<length (IndexEntries h). tag (IndexEntries h ! i) < ID SigTagReservedSpace \<longrightarrow>
        i < length (IndexEntries h') \<and> tag (IndexEntries h' ! i) = tag (IndexEntries h ! i)) \<and>
     set (map tag (IndexEntries h')) = insert (ID SigTagReservedSpace) (set (map tag (IndexEntries h))) \<and>
     (FindIndexEntry h SigTagReservedSpace \<noteq> None \<or> length (IndexEntries h) < entries_cap h \<longrightarrow>
        entries_array h' = entries_array h) \<and>
     (length (IndexEntries h) \<le> entries_cap h \<longrightarrow> length (IndexEntries h') \<le> entries_cap h')"

lemma reserved_tag_ne: "ID SigTagReservedSpace \<noteq> ID SigTagHeaderSignatures"
  by (simp add: SigTag_defs)

lemma sig_view_reserved: "full_view h' = (full_view h)(ID SigTagReservedSpace \<mapsto> v) \<Longrightarrow> sig_view h' = sig_view h"
  by (auto simp: sig_view_full restrict_map_def fun_eq_iff)

lemma resized_allocated:
  assumes "sig_shape h" and "counted h" and r: "FindIndexEntry h SigTagReservedSpace = Some r"
    and k: "same_kind (IndexEntries h ! r) e'"
    and w: "weight (IndexEntries h) + length (payload e') < 4294967296 + length (payload (IndexEntries h ! r))"
    and w': "length (payload e') \<le> length (payload (IndexEntries h ! r)) + 2 * req + 9000"
  shows "allocated h req (at_slot r (\<lambda>_. e') h)"
proof -
  let ?es = "IndexEntries h" let ?h' = "at_slot r (\<lambda>_. e') h"
  note rs = FindIndexEntry_Some [OF r]
  have "payload_ok (?es ! r)" using assms(1) rs by (simp add: sig_shape_def entries_ok_def)
  note ok = at_slot_ok [OF assms(1,2) rs(1), of "\<lambda>_. e'"]
  have ok': "sig_shape ?h'" "counted ?h'" "map tag (IndexEntries ?h') = map tag ?es"
    "full_view ?h' = (full_view h)(tag (?es ! r) \<mapsto> entry_value e')"
    using ok k w rs(2) reserved_tag_ne by (simp_all add: same_kind_def)
  have tags: "tag (?es[r := e'] ! i) = tag (?es ! i)" if "i < length ?es" for i
    using k rs that by (cases "i = r") (auto simp: same_kind_def)
  have dom: "insert (ID SigTagReservedSpace) (set (map tag ?es)) = set (map tag ?es)"
    using rs by (metis insert_absorb image_eqI list.set_map)
  show ?thesis
    unfolding allocated_def dom
    using ok' sig_view_reserved [of ?h' h "entry_value e'"] rs tags r weight_update [OF rs(1), of e'] w'
    by (simp del: set_map)
qed

lemma insert_position_after:
  assumes "sorted_wrt (<) (map tag es)" and "tag e \<notin> tag ` set es"
    and "i < length es" and "tag (es ! i) < tag e"
  shows "i < insert_position e es"
proof (rule ccontr)
  let ?p = "insert_position e es"
  assume "\<not> i < ?p"
  then have "es ! i = drop ?p es ! (i - ?p)" "i - ?p < length (drop ?p es)" using assms(3) by simp_all
  then have "es ! i \<in> set (drop ?p es)" using nth_mem by metis
  with insert_position_sorted [OF assms(1,2)] have "tag e < tag (es ! i)" by (simp add: sorted_wrt_append)
  with assms(4) show False by simp
qed

lemma inserted_tags:
  assumes "map tag es' = map tag (take k es @ e # drop k es)"
  shows "set (map tag es') = insert (tag e) (set (map tag es))" and "length es' = Suc (length es)"
    and "i < k \<Longrightarrow> i < length es \<Longrightarrow> tag (es' ! i) = tag (es ! i)"
proof -
  have "set (take k es @ e # drop k es) = insert e (set es)"
    by (metis Un_insert_right append_take_drop_id list.simps(15) set_append)
  then show "set (map tag es') = insert (tag e) (set (map tag es))" unfolding assms set_map by simp
  show l: "length es' = Suc (length es)" using arg_cong [OF assms, where f = length] by simp
  show "tag (es' ! i) = tag (es ! i)" if i: "i < k" "i < length es"
  proof -
    have "map tag es' ! i = tag (es ! i)" unfolding assms using i by (simp add: nth_append)
    with l i(2) show ?thesis by simp
  qed
qed

text \<open>The reserved space entry that the allocator creates: the padding of the request, the
  request itself and 4096 bytes more.\<close>

lemma reserved_size:
  assumes f: "valid_format f" and bound: "2 * unat req + 16384 < 4294967296"
  obtains S :: u32 where "4096 + unat req \<le> unat S" and "unat S \<le> 4103 + unat req"
    and "\<And>g :: _ \<Rightarrow> RpmHeader outcome. obind (GetRequiredAlignment f)
       (\<lambda>a. obind (CalcAlignmentByteCount (ucast (o1 :: u32)) a) (\<lambda>p.
          g (RESERVED_SPACE_ALLOCATION_SIZE + req + ucast p))) = g S"
proof -
  obtain p where p: "unat p \<le> 7"
    "\<And>g :: _ \<Rightarrow> RpmHeader outcome. obind (GetRequiredAlignment f)
       (\<lambda>a. obind (CalcAlignmentByteCount (ucast o1) a) g) = g p"
    using padding_eval [OF f, of o1] by metis
  have "unat (ucast p :: u32) = unat p"
    using p(1) by (simp add: unsigned_ucast_eq take_bit_nat_eq_self_iff)
  then have "unat (RESERVED_SPACE_ALLOCATION_SIZE + req + ucast p) = 4096 + unat req + unat p"
    using unat_plus_u32 [of "4096 + req" "ucast p"] unat_plus_u32 [of 4096 req] p(1) bound
    by (simp add: RESERVED_SPACE_ALLOCATION_SIZE_def)
  with p show thesis by (intro that [of "RESERVED_SPACE_ALLOCATION_SIZE + req + ucast p"]) simp_all
qed

lemma create_reserved_ok:
  assumes c: "consistent h" and f: "valid_format f" and none: "FindIndexEntry h SigTagReservedSpace = None"
    and bound: "weight (IndexEntries h) + 2 * unat req + 16384 < 4294967296"
  obtains h1 r where "create_reserved grow req f h = Ok h1" and "consistent h1"
    and "allocated h (unat req) h1" and "FindIndexEntry h1 SigTagReservedSpace = Some r"
    and "unat req + 4096 \<le> unat (dataItemCnt (IndexEntries h1 ! r))"
    and "weight (IndexEntries h1) \<le> weight (IndexEntries h) + unat req + 4200"
proof -
  let ?es = "IndexEntries h"
  obtain o1 where o1: "FindNextSuitablePayloadOffset h FORMAT_TYPE_BINARY = Ok o1"
    using FindNextSuitablePayloadOffset_binary by blast
  obtain S :: u32 where S: "4096 + unat req \<le> unat S" "unat S \<le> 4103 + unat req"
    and size: "\<And>g :: _ \<Rightarrow> RpmHeader outcome. obind (GetRequiredAlignment f)
       (\<lambda>a. obind (CalcAlignmentByteCount (ucast o1) a) (\<lambda>p.
          g (RESERVED_SPACE_ALLOCATION_SIZE + req + ucast p))) = g S"
    using reserved_size [OF f, of req o1] bound by auto
  define e where "e = \<lparr>isMainHeaderEntry = IsMainHeader h, tag = ID SigTagReservedSpace,
    formatType = FORMAT_TYPE_BINARY, offset = o1, dataItemCnt = S, payload = replicate (unat S) (0 :: u8)\<rparr>"
  have e: "tag e = ID SigTagReservedSpace" "formatType e = 7" "dataItemCnt e = S" "length (payload e) = unat S"
    by (simp_all add: e_def)
  have "payload_ok e" using S e by (simp add: payload_ok_binary) (simp add: e_def)
  moreover have "\<not> IsMainHeader h" using c by (simp add: consistent_def sig_shape_def)
  ultimately have pe: "payload_ok e \<and> \<not> isMainHeaderEntry e" by (simp add: e_def)
  have sh: "sig_shape h" "unat (indexEntryCount h) = length ?es" "sorted_wrt (<) (map tag ?es)"
    using c by (simp_all add: consistent_def counted_def sig_shape_def entries_ok_def)
  have fresh: "tag e \<notin> tag ` set ?es" using none e(1) by (simp add: FindIndexEntry_None)
  have w: "weight ?es + length (payload e) + 16 < 4294967296" using e(4) S bound by simp
  obtain h1 where h1: "insertIndexEntry grow e h = Ok h1" "consistent h1"
    "full_view h1 = (full_view h)(tag e \<mapsto> entry_value e)"
    "map tag (IndexEntries h1) = map tag (take (insert_position e ?es) ?es @ e # drop (insert_position e ?es) ?es)"
    "weight (IndexEntries h1) = weight ?es + length (payload e) + 16" "meta h1 = meta h"
    "length ?es + 1 \<le> entries_cap h \<Longrightarrow> entries_array h1 = entries_array h"
    "length (IndexEntries h1) \<le> entries_cap h1"
    using insertIndexEntry_ok [OF sh(1,2) fresh pe _ _ w, of grow] e(1,2) reserved_tag_ne by metis
  have cr: "create_reserved grow req f h = Ok h1"
    using h1(1) size [of "\<lambda>S. insertIndexEntry grow \<lparr>isMainHeaderEntry = IsMainHeader h,
      tag = ID SigTagReservedSpace, formatType = FORMAT_TYPE_BINARY, offset = o1, dataItemCnt = S,
      payload = replicate (unat S) 0\<rparr> h"]
    unfolding create_reserved_def o1 obind.simps Let_def e_def by simp
  note ins = inserted_tags [OF h1(4)]
  have "FindIndexEntry h1 SigTagReservedSpace \<noteq> None"
    using ins(1) e(1) by (simp add: FindIndexEntry_None)
  then obtain r where r: "FindIndexEntry h1 SigTagReservedSpace = Some r"
    by blast
  note rs = FindIndexEntry_Some [OF r]
  have dist1: "distinct (map tag (IndexEntries h1))"
    using h1(2) by (simp add: consistent_def sig_shape_def entries_ok_def sorted_distinct_tags)
  have "entry_map (IndexEntries h1) (ID SigTagReservedSpace) = Some (entry_value e)"
    using fun_cong [OF h1(3), of "ID SigTagReservedSpace"] e(1) reserved_tag_ne by (simp add: full_view_def)
  moreover have "entry_map (IndexEntries h1) (tag (IndexEntries h1 ! r)) = Some (entry_value (IndexEntries h1 ! r))"
    using entry_map_update [OF dist1 rs(1) refl] by (metis fun_upd_same list_update_id)
  ultimately have "dataItemCnt (IndexEntries h1 ! r) = S" using rs(2) e(3) by (simp add: entry_value_def)
  then have cnt: "unat req + 4096 \<le> unat (dataItemCnt (IndexEntries h1 ! r))" using S by simp
  have pos: "i < length (IndexEntries h1) \<and> tag (IndexEntries h1 ! i) = tag (?es ! i)"
    if "i < length ?es" "tag (?es ! i) < ID SigTagReservedSpace" for i
    using ins(2) ins(3) [OF _ that(1)] insert_position_after [OF sh(3) fresh that(1)] that e(1) by simp
  have "allocated h (unat req) h1"
    unfolding allocated_def ins(1)
    using h1 sig_view_reserved [of h1 h "entry_value e"] e S pos none by (simp add: consistent_def)
  with cr h1(2,5) r cnt e(4) S show thesis by (intro that) auto
qed

lemma allocated_trans:
  assumes "allocated h req h1" and "allocated h1 req h'" and "FindIndexEntry h1 SigTagReservedSpace \<noteq> None"
    and "weight (IndexEntries h') \<le> weight (IndexEntries h) + 2 * req + 9000"
  shows "allocated h req h'"
  using assms unfolding allocated_def by (simp del: set_map)

text \<open>The entry of the reserved space of a consistent header.\<close>

lemma reserved_entry:
  assumes c: "consistent h" and r: "FindIndexEntry h SigTagReservedSpace = Some r" and w: "weight (IndexEntries h) < 4294967296"
  shows "r < length (IndexEntries h)" and "formatType (IndexEntries h ! r) = 7" and "IndexEntries h ! r \<in> set (candidates h)"
    and "endOffset (IndexEntries h ! r) > 0" and "length (payload (IndexEntries h ! r)) = unat (dataItemCnt (IndexEntries h ! r))"
    and "unat (offset (IndexEntries h ! r)) + length (payload (IndexEntries h ! r)) \<le> weight (IndexEntries h)"
proof -
  let ?e = "IndexEntries h ! r"
  note rs = FindIndexEntry_Some [OF r]
  have sh: "sig_shape h" "\<not> IsMainHeader h" using c by (simp_all add: consistent_def sig_shape_def)
  show "r < length (IndexEntries h)" by (rule rs(1))
  have ok: "payload_ok ?e" using sh rs by (auto simp: sig_shape_def entries_ok_def)
  show "formatType ?e = 7" using sh rs by (auto simp: sig_shape_def entries_ok_def)
  then show "length (payload ?e) = unat (dataItemCnt ?e)" using payload_ok_binary [of ?e] ok by simp
  show "?e \<in> set (candidates h)" using candidatesI [OF sh(2) rs(3)] rs(2) reserved_tag_ne by simp
  show "unat (offset ?e) + length (payload ?e) \<le> weight (IndexEntries h)" using consistent_ends [OF c rs(3)] .
  then show "endOffset ?e > 0" using endOffset_pos(2) [of ?e] ok w payload_ok_valid by force
qed

text \<open>A reserve that exceeds the request by the allocation size serves it at once.\<close>

lemma allocate_from_large:
  assumes "formatType (IndexEntries h ! r) = 7" and "r < length (IndexEntries h)" and "IndexEntries h ! r \<in> set (candidates h)"
    and "endOffset (IndexEntries h ! r) > 0" and "valid_format f" and "unat req + 4103 < 4294967296"
    and "unat req + 4096 \<le> unat (dataItemCnt (IndexEntries h ! r))"
  obtains a e' where "allocate_from r req f h = Ok (Inr (a, at_slot r (\<lambda>_. e') h))" and "same_kind (IndexEntries h ! r) e'"
    and "length (payload e') \<le> unat (dataItemCnt (IndexEntries h ! r))"
  using allocate_from_cases [OF assms(1-6)] assms(7) that by auto

text \<open>A reserve that was moved starts at the end of some entry.\<close>

lemma moved_offset_bound:
  assumes c: "consistent h" and r: "FindIndexEntry h SigTagReservedSpace = Some r"
    and len: "length (payload e') \<le> unat req + 4103"
    and o: "offset e' = offset (IndexEntries h ! r) \<or> offset e' = 0 \<or>
      (\<exists>x\<in>set (candidates (at_slot r (resize_reserved (int (length (payload e')))) h)). offset e' = endOffset x)"
  shows "unat (offset e') \<le> weight (IndexEntries h) + unat req + 4103"
  using o
proof (elim disjE bexE)
  let ?es = "IndexEntries h"
  note rs = FindIndexEntry_Some [OF r]
  have end_e: "unat (offset (?es ! r)) + length (payload (?es ! r)) \<le> weight ?es" using consistent_ends [OF c rs(3)] .
  then show "offset e' = offset (?es ! r) \<Longrightarrow> ?thesis" by simp
  fix x assume x: "x \<in> set (candidates (at_slot r (resize_reserved (int (length (payload e')))) h))"
    and o: "offset e' = endOffset x"
  have "x \<in> set (?es[r := resize_reserved (int (length (payload e'))) (?es ! r)])"
    using x candidates_subset by fastforce
  then have "x \<in> set ?es \<or> x = resize_reserved (int (length (payload e'))) (?es ! r)"
    using set_update_subset_insert by fastforce
  then have le: "unat (offset x) + length (payload x) \<le> weight ?es + unat req + 4103"
    using consistent_ends [OF c, of x] end_e len by auto
  have "unat (endOffset x) \<le> unat (offset x) + length (payload x)"
    unfolding endOffset_def by (simp add: unat_word_ariths unsigned_of_nat)
      (meson add_le_mono le_refl mod_less_eq_dividend take_bit_nat_less_eq_self le_trans)
  with le o show ?thesis by simp
qed simp

text \<open>After the reserve was enlarged, the second round succeeds.\<close>

lemma allocate_enlarged:
  assumes c: "consistent h" and f: "valid_format f" and bound: "weight (IndexEntries h) + 2 * unat req + 16384 < 4294967296"
    and r: "FindIndexEntry h SigTagReservedSpace = Some r"
    and e': "same_kind (IndexEntries h ! r) e'" "unat req + 4096 \<le> unat (dataItemCnt e')" "length (payload e') \<le> unat req + 4103"
      "offset e' = offset (IndexEntries h ! r) \<or> offset e' = 0 \<or>
        (\<exists>x\<in>set (candidates (at_slot r (resize_reserved (int (length (payload e')))) h)). offset e' = endOffset x)"
  obtains a h' where "allocateSpaceInDatastore grow req f (at_slot r (\<lambda>_. e') h) = Some (Ok (a, h'))" and "allocated h (unat req) h'"
proof -
  let ?h1 = "at_slot r (\<lambda>_. e') h"
  note rs = FindIndexEntry_Some [OF r]
  have "weight (IndexEntries h) < 4294967296" using bound by simp
  note e = reserved_entry [OF c r this]
  have sh: "sig_shape h" "counted h" "\<not> IsMainHeader ?h1" using c by (simp_all add: consistent_def sig_shape_def)
  have r1: "FindIndexEntry ?h1 SigTagReservedSpace = Some r"
    using FindIndexEntry_cong [of ?h1 h] map_tag_update [OF rs(1), of e'] e'(1) r by (simp add: same_kind_def)
  have e1: "IndexEntries ?h1 ! r = e'" "r < length (IndexEntries ?h1)" using rs(1) by simp_all
  have e'7: "formatType e' = 7" "payload e' \<noteq> []" "length (payload e') = unat (dataItemCnt e')"
    using e'(1) e(2) payload_ok_binary [of e'] by (simp_all add: same_kind_def)
  have "unat (offset e') + length (payload e') < 4294967296"
    using moved_offset_bound [OF c r e'(3,4)] e'(3) bound by simp
  then have pos: "endOffset e' > 0" using endOffset_pos(2) e'7(2) by simp
  have cand: "e' \<in> set (candidates ?h1)"
    using candidatesI [OF sh(3), of e'] rs(1,2) e'(1) reserved_tag_ne set_update_memI [OF rs(1), of e'] by (simp add: same_kind_def)
  have lim: "unat req + 4103 < 4294967296" using bound by simp
  obtain a e2 where s2: "allocate_from r req f ?h1 = Ok (Inr (a, at_slot r (\<lambda>_. e2) ?h1))" "same_kind e' e2"
    "length (payload e2) \<le> unat (dataItemCnt e')"
    by (rule allocate_from_large [where h = ?h1 and r = r, unfolded e1(1), OF e'7(1) e1(2) cand pos f lim e'(2)])
  have "same_kind (IndexEntries h ! r) e2" using s2(2) e'(1) by (simp add: same_kind_def)
  then have "allocated h (unat req) (at_slot r (\<lambda>_. e2) h)"
    using resized_allocated [OF sh(1,2) r, of e2 "unat req"] s2(3) e'7(3) e'(3) bound by simp
  moreover have "at_slot r (\<lambda>_. e2) ?h1 = at_slot r (\<lambda>_. e2) h" using rs(1) by (simp add: at_slot_twice)
  ultimately show thesis
    using that [of a "at_slot r (\<lambda>_. e2) h"] s2(1) r1 by (simp add: allocateSpaceInDatastore.simps [of grow req f ?h1] allocate_step_def)
qed

text \<open>After the reserve was created, the second round succeeds.\<close>

lemma allocate_created:
  assumes c: "consistent h" and f: "valid_format f" and bound: "weight (IndexEntries h) + 2 * unat req + 16384 < 4294967296"
    and none: "FindIndexEntry h SigTagReservedSpace = None"
  obtains h1 a h' where "create_reserved grow req f h = Ok h1"
    and "allocateSpaceInDatastore grow req f h1 = Some (Ok (a, h'))" and "allocated h (unat req) h'"
proof -
  obtain h1 r where h1: "create_reserved grow req f h = Ok h1" "consistent h1"
    "allocated h (unat req) h1" "FindIndexEntry h1 SigTagReservedSpace = Some r"
    "unat req + 4096 \<le> unat (dataItemCnt (IndexEntries h1 ! r))"
    "weight (IndexEntries h1) \<le> weight (IndexEntries h) + unat req + 4200"
    using create_reserved_ok [OF c f none bound] by metis
  have w: "weight (IndexEntries h1) < 4294967296" using bound h1(6) by simp
  note e = reserved_entry [OF h1(2,4) w]
  have lim: "unat req + 4103 < 4294967296" using bound by simp
  obtain a e2 where s2: "allocate_from r req f h1 = Ok (Inr (a, at_slot r (\<lambda>_. e2) h1))"
    "same_kind (IndexEntries h1 ! r) e2" "length (payload e2) \<le> unat (dataItemCnt (IndexEntries h1 ! r))"
    by (rule allocate_from_large [OF e(2,1,3,4) f lim h1(5)])
  let ?h' = "at_slot r (\<lambda>_. e2) h1"
  have le: "length (payload e2) \<le> length (payload (IndexEntries h1 ! r))" using s2(3) e(5) by simp
  have sh: "sig_shape h1" "counted h1" using h1(2) by (simp_all add: consistent_def)
  have "allocated h1 (unat req) ?h'"
    using resized_allocated [OF sh h1(4) s2(2), of "unat req"] le w by simp
  moreover have "weight (IndexEntries ?h') \<le> weight (IndexEntries h) + 2 * unat req + 9000"
    using weight_update [OF e(1), of e2] le h1(6) by simp
  ultimately have "allocated h (unat req) ?h'" using allocated_trans [OF h1(3)] h1(4) by simp
  with s2(1) h1(1,4) show thesis
    using that [of h1 a ?h'] by (simp add: allocateSpaceInDatastore.simps [of grow req f h1] allocate_step_def)
qed

lemma allocateSpaceInDatastore_ok:
  assumes c: "consistent h" and f: "valid_format f"
    and bound: "weight (IndexEntries h) + 2 * unat req + 16384 < 4294967296"
  obtains a h' where "allocateSpaceInDatastore grow req f h = Some (Ok (a, h'))"
    and "allocated h (unat req) h'"
proof (cases "FindIndexEntry h SigTagReservedSpace")
  case None
  obtain h1 a h' where "create_reserved grow req f h = Ok h1" "allocateSpaceInDatastore grow req f h1 = Some (Ok (a, h'))"
    "allocated h (unat req) h'" by (rule allocate_created [OF c f bound None])
  with None that show thesis by (simp add: allocateSpaceInDatastore.simps [of grow req f h] allocate_step_def)
next
  case (Some r)
  let ?e = "IndexEntries h ! r"
  have lim: "unat req + 4103 < 4294967296" and w: "weight (IndexEntries h) < 4294967296" using bound by simp_all
  note e = reserved_entry [OF c Some w]
  from allocate_from_cases [OF e(2,1,3,4) f lim] consider
    (inr) a e' where "allocate_from r req f h = Ok (Inr (a, at_slot r (\<lambda>_. e') h))" "same_kind ?e e'"
      "length (payload e') \<le> max (unat (dataItemCnt ?e)) 4096"
  | (inl) e' where "allocate_from r req f h = Ok (Inl (at_slot r (\<lambda>_. e') h))" "same_kind ?e e'"
      "unat req + 4096 \<le> unat (dataItemCnt e')" "length (payload e') \<le> unat req + 4103"
      "offset e' = offset ?e \<or> offset e' = 0 \<or>
        (\<exists>x\<in>set (candidates (at_slot r (resize_reserved (int (length (payload e')))) h)). offset e' = endOffset x)"
    by blast
  then show thesis
  proof cases
    case inr
    have "sig_shape h" "counted h" using c by (simp_all add: consistent_def)
    from resized_allocated [OF this Some inr(2), of "unat req"] have "allocated h (unat req) (at_slot r (\<lambda>_. e') h)"
      using inr(3) e(5,6) bound by simp
    with inr(1) Some show thesis
      by (intro that) (simp_all add: allocateSpaceInDatastore.simps [of grow req f h] allocate_step_def)
  next
    case inl
    obtain a h' where "allocateSpaceInDatastore grow req f (at_slot r (\<lambda>_. e') h) = Some (Ok (a, h'))" "allocated h (unat req) h'"
      by (rule allocate_enlarged [OF c f bound Some inl(2-5)])
    with inl(1) Some that show thesis by (simp add: allocateSpaceInDatastore.simps [of grow req f h] allocate_step_def)
  qed
qed

section \<open>Adding and replacing entries\<close>

definition new_entry :: "TagValue \<Rightarrow> FormatType \<Rightarrow> u32 \<Rightarrow> bytes \<Rightarrow> IndexEntry" where
  "new_entry t f n p = \<lparr>isMainHeaderEntry = False, tag = ID t, formatType = f, offset = 0,
     dataItemCnt = n, payload = p\<rparr>"

text \<open>The pointer to an existing entry stays good: the payload fits in place, or the allocator
  does not have to replace the array the entry lives in and does not shift its slot.\<close>

definition pointer_safe :: "TagValue \<Rightarrow> bytes \<Rightarrow> RpmHeader \<Rightarrow> bool" where
  "pointer_safe t p h \<longleftrightarrow>
     (case FindIndexEntry h t of
        None \<Rightarrow> True
      | Some i \<Rightarrow>
          length p \<le> length (payload (IndexEntries h ! i)) \<or>
          (ID t < ID SigTagReservedSpace \<and>
           (FindIndexEntry h SigTagReservedSpace \<noteq> None \<or> length (IndexEntries h) < entries_cap h)))"

lemma sig_view_upd:
  "ID t \<notin> managed_tags \<Longrightarrow> full_view h' = (full_view h)(ID t \<mapsto> v) \<Longrightarrow> sig_view h' = (sig_view h)(ID t \<mapsto> v)"
  by (auto simp: sig_view_full managed_tags_def restrict_map_def fun_eq_iff)

lemma entry_map_nth:
  assumes "distinct (map tag es)" and "i < length es"
  shows "entry_map es (tag (es ! i)) = Some (entry_value (es ! i))"
  using entry_map_update [OF assms refl] by (metis fun_upd_same list_update_id)

lemma replace_at_slot:
  assumes sh: "sig_shape h" "counted h" and i: "i < length (IndexEntries h)"
    and t: "tag (IndexEntries h ! i) = ID t" "ID t \<notin> managed_tags"
    and f: "formatType (IndexEntries h ! i) = f" and ok: "payload_ok (new_entry t f n p)"
    and w: "weight (IndexEntries h) + length p < 4294967296"
  obtains h' where
    "syncDataStoreLayout (at_slot i (\<lambda>e. e\<lparr>offset := o', dataItemCnt := n, payload := p\<rparr>) h) = Ok h'"
    and "consistent h'" and "sig_view h' = (sig_view h)(ID t \<mapsto> (f, n, p))" and "meta h' = meta h"
    and "map tag (IndexEntries h') = map tag (IndexEntries h)" and "entries_cap h' = entries_cap h"
proof -
  let ?g = "\<lambda>e :: IndexEntry. e\<lparr>offset := o', dataItemCnt := n, payload := p\<rparr>"
  let ?e = "IndexEntries h ! i"
  have "payload_ok (?g ?e) = payload_ok (new_entry t f n p)"
    using f by (simp add: payload_ok_def new_entry_def)
  then have pe: "payload_ok (?g ?e)" using ok by simp
  have ne: "tag ?e \<noteq> ID SigTagHeaderSignatures" using t by (simp add: managed_tags_def)
  have s: "sig_shape (at_slot i ?g h)" "counted (at_slot i ?g h)"
    "map tag (IndexEntries (at_slot i ?g h)) = map tag (IndexEntries h)"
    "full_view (at_slot i ?g h) = (full_view h)(tag ?e \<mapsto> entry_value (?g ?e))"
    using at_slot_ok [OF sh i, of ?g] pe ne w by simp_all
  obtain h' where h': "syncDataStoreLayout (at_slot i ?g h) = Ok h'" "consistent h'"
    "map core (IndexEntries h') = map core (IndexEntries (at_slot i ?g h))"
    "full_view h' = full_view (at_slot i ?g h)" "meta h' = meta (at_slot i ?g h)"
    "entries_cap h' = entries_cap (at_slot i ?g h)"
    using syncDataStoreLayout_consistent [OF s(1,2)] by metis
  show thesis
    by (rule that [OF h'(1,2)])
      (use h' s t f sig_view_upd [of t h' h "(f, n, p)"] map_core_tag [OF h'(3)] in \<open>simp_all add: entry_value_def\<close>)
qed

lemma allocate_payload_ok:
  assumes c: "consistent h" and ok: "payload_ok (new_entry t f n p)"
    and bound: "weight (IndexEntries h) + 3 * length p + 32768 < 4294967296"
  obtains a h1 where "allocateSpaceInDatastore grow (of_nat (length p)) f h = Some (Ok (a, h1))"
    and "allocated h (length p) h1"
proof -
  have valid: "valid_format f" using payload_ok_valid [OF ok] by (simp add: new_entry_def)
  have len: "unat (of_nat (length p) :: u32) = length p" using bound by (intro unat_of_nat_u32) simp
  have b: "weight (IndexEntries h) + 2 * unat (of_nat (length p) :: u32) + 16384 < 4294967296"
    using len bound by simp
  from allocateSpaceInDatastore_ok [OF c valid b, of grow] len that show thesis by metis
qed

lemma add_entry_ok:
  assumes c: "consistent h" and none: "FindIndexEntry h t = None" and t: "ID t \<notin> managed_tags"
    and ok: "payload_ok (new_entry t f n p)"
    and bound: "weight (IndexEntries h) + 3 * length p + 32768 < 4294967296"
  obtains h' where "addIndexEntry grow (new_entry t f n p) h = Some (Ok h')" and "consistent h'"
    and "sig_view h' = (sig_view h)(ID t \<mapsto> (f, n, p))" and "meta h' = meta h"
    and "length (IndexEntries h') \<le> entries_cap h'" and "has_region h' = has_region h"
proof -
  have main: "\<not> IsMainHeader h" using c by (simp add: consistent_def sig_shape_def)
  obtain a h1 where h1: "allocateSpaceInDatastore grow (of_nat (length p)) f h = Some (Ok (a, h1))"
    "allocated h (length p) h1"
    using allocate_payload_ok [OF c ok bound] .
  let ?e = "(new_entry t f n p)\<lparr>offset := a\<rparr>"
  have fresh: "tag ?e \<notin> tag ` set (IndexEntries h1)"
    using h1(2) none t by (simp add: allocated_def FindIndexEntry_None managed_tags_def new_entry_def)
  have pe: "payload_ok ?e \<and> \<not> isMainHeaderEntry ?e" using ok by (simp add: payload_ok_def new_entry_def)
  have ne: "tag ?e \<noteq> ID SigTagHeaderSignatures" "tag ?e \<noteq> ID SigTagReservedSpace"
    using t by (simp_all add: managed_tags_def new_entry_def)
  have sh: "sig_shape h1" "unat (indexEntryCount h1) = length (IndexEntries h1)"
    using h1(2) by (simp_all add: allocated_def counted_def)
  have w: "weight (IndexEntries h1) + length (payload ?e) + 16 < 4294967296"
    using h1(2) bound by (simp add: allocated_def new_entry_def)
  obtain h' where h': "insertIndexEntry grow ?e h1 = Ok h'" "consistent h'"
    "full_view h' = (full_view h1)(tag ?e \<mapsto> entry_value ?e)" "meta h' = meta h1"
    "length (IndexEntries h') \<le> entries_cap h'"
    and tags: "map tag (IndexEntries h') = map tag (take (insert_position ?e (IndexEntries h1)) (IndexEntries h1) @
      ?e # drop (insert_position ?e (IndexEntries h1)) (IndexEntries h1))"
    using insertIndexEntry_ok [OF sh fresh pe _ ne(1) w, of grow] ne(2) by metis
  have reg: "has_region h' = has_region h"
    using inserted_tags(1) [OF tags] h1(2) t reserved_tag_ne
    by (auto simp: has_region_def allocated_def managed_tags_def new_entry_def)
  show thesis
    by (rule that [of h'])
      (use h1 h' reg main sig_view_upd [OF t, of h' h1 "(f, n, p)"] in
        \<open>simp_all add: addIndexEntry_def new_entry_def allocated_def entry_value_def\<close>)
qed

lemma move_entry_ok:
  assumes c: "consistent h" and some: "FindIndexEntry h t = Some i" and t: "ID t \<notin> managed_tags"
    and f: "formatType (IndexEntries h ! i) = f" and ok: "payload_ok (new_entry t f n p)"
    and bound: "weight (IndexEntries h) + 3 * length p + 32768 < 4294967296"
    and low: "ID t < ID SigTagReservedSpace"
    and space: "FindIndexEntry h SigTagReservedSpace \<noteq> None \<or> length (IndexEntries h) < entries_cap h"
  obtains a h1 h' where "allocateSpaceInDatastore grow (of_nat (length p)) f h = Some (Ok (a, h1))"
    and "syncDataStoreLayout (write_existing (entries_array h) i a n p h1) = Ok h'" and "consistent h'"
    and "sig_view h' = (sig_view h)(ID t \<mapsto> (f, n, p))" and "meta h' = meta h"
    and "length (IndexEntries h) \<le> entries_cap h \<Longrightarrow> length (IndexEntries h') \<le> entries_cap h'"
    and "has_region h' = has_region h"
proof -
  note ix = FindIndexEntry_Some [OF some]
  obtain a h1 where h1: "allocateSpaceInDatastore grow (of_nat (length p)) f h = Some (Ok (a, h1))"
    "allocated h (length p) h1"
    using allocate_payload_ok [OF c ok bound] .
  have arr: "entries_array h1 = entries_array h" using h1(2) space unfolding allocated_def by metis
  have i1: "i < length (IndexEntries h1)" "tag (IndexEntries h1 ! i) = ID t"
    using h1(2) ix low by (auto simp: allocated_def)
  have dist: "distinct (map tag (IndexEntries h))"
    using c by (simp add: consistent_def sig_shape_def entries_ok_def sorted_distinct_tags)
  have sh1: "sig_shape h1" "counted h1" "distinct (map tag (IndexEntries h1))"
    using h1(2) by (auto simp: allocated_def sig_shape_def entries_ok_def sorted_distinct_tags)
  have "sig_view h1 (ID t) = sig_view h (ID t)" using h1(2) by (simp add: allocated_def)
  then have "entry_value (IndexEntries h1 ! i) = entry_value (IndexEntries h ! i)"
    using entry_map_nth [OF sh1(3) i1(1)] entry_map_nth [OF dist ix(1)] i1(2) ix(2) t
    by (simp add: sig_view_def)
  then have f1: "formatType (IndexEntries h1 ! i) = f" using f by (simp add: entry_value_def)
  have w1: "weight (IndexEntries h1) + length p < 4294967296" using h1(2) bound by (simp add: allocated_def)
  obtain h' where h': "syncDataStoreLayout (at_slot i (\<lambda>e. e\<lparr>offset := a, dataItemCnt := n,
        payload := p\<rparr>) h1) = Ok h'" "consistent h'"
    "sig_view h' = (sig_view h1)(ID t \<mapsto> (f, n, p))" "meta h' = meta h1"
    "map tag (IndexEntries h') = map tag (IndexEntries h1)" "entries_cap h' = entries_cap h1"
    using replace_at_slot [OF sh1(1,2) i1 t f1 ok w1] by metis
  have "has_region h' = has_region h"
    using h1(2) reserved_tag_ne unfolding has_region_def h'(5) allocated_def by (metis insert_iff)
  with map_eq_imp_length_eq [OF h'(5)] h' h1 arr show thesis
    by (intro that [of a h1 h']) (simp_all add: write_existing_def allocated_def)
qed

lemma SetOrAddIndexEntry_ok:
  assumes c: "consistent h" and t: "ID t \<notin> managed_tags"
    and ok: "payload_ok (new_entry t f n p)"
    and fmt: "\<And>i. FindIndexEntry h t = Some i \<Longrightarrow> formatType (IndexEntries h ! i) = f"
    and safe: "pointer_safe t p h"
    and bound: "weight (IndexEntries h) + 3 * length p + 32768 < 4294967296"
  obtains h' where "SetOrAddIndexEntry grow t f n p h = Some (Ok h')" and "consistent h'"
    and "sig_view h' = (sig_view h)(ID t \<mapsto> (f, n, p))" and "meta h' = meta h"
    and "length (IndexEntries h) \<le> entries_cap h \<Longrightarrow> length (IndexEntries h') \<le> entries_cap h'"
    and "has_region h' = has_region h"
proof (cases "FindIndexEntry h t")
  case None
  have "\<not> IsMainHeader h" using c by (simp add: consistent_def sig_shape_def)
  moreover obtain h' where "addIndexEntry grow (new_entry t f n p) h = Some (Ok h')" "consistent h'"
    "sig_view h' = (sig_view h)(ID t \<mapsto> (f, n, p))" "meta h' = meta h"
    "length (IndexEntries h') \<le> entries_cap h'" "has_region h' = has_region h"
    using add_entry_ok [OF c None t ok bound] .
  ultimately show thesis using that None by (simp add: SetOrAddIndexEntry_def new_entry_def)
next
  case (Some i)
  note ix = FindIndexEntry_Some [OF Some]
  let ?e = "IndexEntries h ! i"
  have sh: "sig_shape h" "counted h" "\<not> IsMainHeader h"
    using c by (simp_all add: consistent_def sig_shape_def)
  have ne: "payload ?e \<noteq> []" using sh(1) ix(3) payload_ok_valid by (auto simp: sig_shape_def entries_ok_def)
  have pos: "endOffset ?e > 0" using endOffset_pos(2) [OF _ ne] consistent_ends [OF c ix(3)] bound by simp
  have "?e \<in> set (candidates h)" using candidatesI [OF sh(3) ix(3)] ix(2) t by (simp add: managed_tags_def)
  then obtain b where b: "isAtEndOfDataStore h ?e = Ok b" using isAtEndOfDataStore_ok pos by blast
  show thesis
  proof (cases "length p > length (payload ?e) \<and> \<not> b")
    case False
    obtain h' where "syncDataStoreLayout (at_slot i (\<lambda>e. e\<lparr>offset := offset ?e, dataItemCnt := n,
          payload := p\<rparr>) h) = Ok h'" "consistent h'"
      "sig_view h' = (sig_view h)(ID t \<mapsto> (f, n, p))" "meta h' = meta h"
      "map tag (IndexEntries h') = map tag (IndexEntries h)" "entries_cap h' = entries_cap h"
      using replace_at_slot [OF sh(1,2) ix(1,2) t fmt [OF Some] ok, of "offset ?e"] bound by auto
    with map_eq_imp_length_eq [of tag "IndexEntries h'" tag "IndexEntries h"] that Some False b fmt [OF Some] show thesis
      by (auto simp: SetOrAddIndexEntry_def Let_def write_existing_def has_region_def simp del: set_map)
  next
    case True
    have ps: "ID t < ID SigTagReservedSpace"
      "FindIndexEntry h SigTagReservedSpace \<noteq> None \<or> length (IndexEntries h) < entries_cap h"
      using safe Some True by (auto simp: pointer_safe_def)
    obtain a h1 h' where
      "allocateSpaceInDatastore grow (of_nat (length p)) f h = Some (Ok (a, h1))"
      "syncDataStoreLayout (write_existing (entries_array h) i a n p h1) = Ok h'" "consistent h'"
      "sig_view h' = (sig_view h)(ID t \<mapsto> (f, n, p))" "meta h' = meta h"
      "length (IndexEntries h) \<le> entries_cap h \<Longrightarrow> length (IndexEntries h') \<le> entries_cap h'"
      "has_region h' = has_region h"
      using move_entry_ok [OF c Some t fmt [OF Some] ok bound ps, where grow = grow] by blast
    with that Some True b fmt [OF Some] show thesis by (simp add: SetOrAddIndexEntry_def Let_def)
  qed
qed

section \<open>The editing interface\<close>

text \<open>What the signing code relies on when it edits a signature header: deleting and setting
  tags act as on a finite map, keep the header good and leave its other parts (the frame) alone,
  and a deletion never takes away the possibility of a later update.\<close>

locale tag_store =
  fixes good :: "'h \<Rightarrow> bool"
    and view :: "'h \<Rightarrow> u32 \<rightharpoonup> entry_data"
    and frame :: "'h \<Rightarrow> 'm"
    and delete :: "TagValue \<Rightarrow> 'h \<Rightarrow> 'h outcome"
    and put :: "TagValue \<Rightarrow> FormatType \<Rightarrow> u32 \<Rightarrow> bytes \<Rightarrow> 'h \<Rightarrow> 'h outcome option"
    and deletable :: "TagValue \<Rightarrow> bool"
    and can_put :: "TagValue \<Rightarrow> FormatType \<Rightarrow> u32 \<Rightarrow> bytes \<Rightarrow> 'h \<Rightarrow> bool"
  assumes delete_ok: "good h \<Longrightarrow> deletable t \<Longrightarrow>
      \<exists>h'. delete t h = Ok h' \<and> good h' \<and> view h' = (view h)(ID t := None) \<and> frame h' = frame h"
    and delete_can_put: "good h \<Longrightarrow> deletable t \<Longrightarrow> delete t h = Ok h' \<Longrightarrow>
      can_put s f n p h \<Longrightarrow> can_put s f n p h'"
    and put_ok: "good h \<Longrightarrow> can_put s f n p h \<Longrightarrow>
      \<exists>h'. put s f n p h = Some (Ok h') \<and> good h' \<and>
        view h' = (view h)(ID s \<mapsto> (f, n, p)) \<and> frame h' = frame h"
begin

lemma delete_all:
  "good h \<Longrightarrow> \<forall>t\<in>set ts. deletable t \<Longrightarrow>
   \<exists>h'. ofold (\<lambda>h t. delete t h) h ts = Ok h' \<and> good h' \<and>
     view h' = view h |` (- ID ` set ts) \<and> frame h' = frame h \<and>
     (can_put s f n p h \<longrightarrow> can_put s f n p h')"
proof (induction ts arbitrary: h)
  case Nil
  then show ?case by simp
next
  case (Cons t ts)
  from Cons.prems obtain h1 where h1: "delete t h = Ok h1" "good h1"
    "view h1 = (view h)(ID t := None)" "frame h1 = frame h"
    using delete_ok [of h t] by auto
  moreover have "can_put s f n p h \<longrightarrow> can_put s f n p h1"
    using delete_can_put [OF Cons.prems(1) _ h1(1)] Cons.prems(2) by auto
  moreover obtain h' where "ofold (\<lambda>h t. delete t h) h1 ts = Ok h'" "good h'"
    "view h' = view h1 |` (- ID ` set ts)" "frame h' = frame h1"
    "can_put s f n p h1 \<longrightarrow> can_put s f n p h'"
    using Cons.IH [OF h1(2)] Cons.prems(2) by auto
  moreover have "(view h)(ID t := None) |` (- ID ` set ts) = view h |` (- ID ` set (t # ts))"
    by (auto simp: restrict_map_def fun_eq_iff)
  ultimately show ?case by auto
qed

lemma delete_then_put:
  assumes "good h" and "\<forall>t\<in>set ts. deletable t" and "can_put s f n p h"
  shows "\<exists>h1 h'. ofold (\<lambda>h t. delete t h) h ts = Ok h1 \<and> put s f n p h1 = Some (Ok h') \<and> good h' \<and>
    view h' = (view h |` (- ID ` set ts))(ID s \<mapsto> (f, n, p)) \<and> frame h' = frame h"
proof -
  obtain h1 where h1: "ofold (\<lambda>h t. delete t h) h ts = Ok h1" "good h1"
    "view h1 = view h |` (- ID ` set ts)" "frame h1 = frame h" "can_put s f n p h1"
    using delete_all [OF assms(1,2), of s f n p] assms(3) by auto
  with put_ok [of h1 s f n p] show ?thesis by metis
qed

end

definition good_sig :: "RpmHeader \<Rightarrow> bool" where
  "good_sig h \<longleftrightarrow> consistent h \<and> length (IndexEntries h) \<le> entries_cap h"

text \<open>What editing leaves alone: the fields outside the index, and whether there is a region.\<close>

definition sig_frame :: "RpmHeader \<Rightarrow> RpmHeader \<times> bool" where
  "sig_frame h = (meta h, has_region h)"

definition unmanaged :: "TagValue \<Rightarrow> bool" where
  "unmanaged t \<longleftrightarrow> ID t \<notin> managed_tags"

definition can_set :: "TagValue \<Rightarrow> FormatType \<Rightarrow> u32 \<Rightarrow> bytes \<Rightarrow> RpmHeader \<Rightarrow> bool" where
  "can_set t f n p h \<longleftrightarrow>
     unmanaged t \<and> payload_ok (new_entry t f n p) \<and>
     (case sig_view h (ID t) of
        None \<Rightarrow> True
      | Some (f', n', p') \<Rightarrow>
          f' = f \<and>
          (length p \<le> length p' \<or>
           (ID t < ID SigTagReservedSpace \<and>
            (full_view h (ID SigTagReservedSpace) \<noteq> None \<or> length (IndexEntries h) < entries_cap h)))) \<and>
     weight (IndexEntries h) + 3 * length p + 32768 < 4294967296"

lemma full_view_reserved:
  "full_view h (ID SigTagReservedSpace) \<noteq> None \<longleftrightarrow> FindIndexEntry h SigTagReservedSpace \<noteq> None"
proof -
  have "entry_map (IndexEntries h) k \<noteq> None \<longleftrightarrow> k \<in> tag ` set (IndexEntries h)" for k
    using dom_entry_map [of "IndexEntries h"] by blast
  then show ?thesis using reserved_tag_ne by (simp add: full_view_def FindIndexEntry_None)
qed

lemma can_set_existing:
  assumes "consistent h" and "FindIndexEntry h t = Some i" and "unmanaged t"
  shows "sig_view h (ID t) = Some (entry_value (IndexEntries h ! i))"
proof -
  note ix = FindIndexEntry_Some [OF assms(2)]
  have "distinct (map tag (IndexEntries h))"
    using assms(1) by (auto simp: consistent_def sig_shape_def entries_ok_def sorted_distinct_tags)
  from entry_map_nth [OF this ix(1)] ix(2) assms(3) show ?thesis by (simp add: sig_view_def unmanaged_def)
qed

lemma SetOrAddIndexEntry_view:
  assumes g: "good_sig h" and c: "can_set t f n p h"
  shows "\<exists>h'. SetOrAddIndexEntry grow t f n p h = Some (Ok h') \<and> good_sig h' \<and>
    sig_view h' = (sig_view h)(ID t \<mapsto> (f, n, p)) \<and> sig_frame h' = sig_frame h"
proof -
  have con: "consistent h" and um: "unmanaged t" using g c by (simp_all add: good_sig_def can_set_def)
  have fmt: "formatType (IndexEntries h ! i) = f" if "FindIndexEntry h t = Some i" for i
    using c can_set_existing [OF con that um] by (simp add: can_set_def entry_value_def)
  have safe: "pointer_safe t p h"
    using c can_set_existing [OF con _ um] full_view_reserved [of h]
    by (auto simp: pointer_safe_def can_set_def entry_value_def split: option.splits)
  have "ID t \<notin> managed_tags" "payload_ok (new_entry t f n p)"
    "weight (IndexEntries h) + 3 * length p + 32768 < 4294967296"
    using c by (simp_all add: can_set_def unmanaged_def)
  from SetOrAddIndexEntry_ok [OF con this(1,2) fmt safe this(3), of grow] obtain h' where
    "SetOrAddIndexEntry grow t f n p h = Some (Ok h')" "consistent h'"
    "sig_view h' = (sig_view h)(ID t \<mapsto> (f, n, p))" "meta h' = meta h" "has_region h' = has_region h"
    "length (IndexEntries h) \<le> entries_cap h \<Longrightarrow> length (IndexEntries h') \<le> entries_cap h'" by metis
  with g show ?thesis by (auto simp: good_sig_def sig_frame_def)
qed

lemma Delete_view:
  assumes "good_sig h" and "unmanaged t"
  shows "\<exists>h'. DeleteIndexEntryIfExists t h = Ok h' \<and> good_sig h' \<and>
    sig_view h' = (sig_view h)(ID t := None) \<and> sig_frame h' = sig_frame h"
    and "DeleteIndexEntryIfExists t h = Ok h' \<Longrightarrow> can_set s f n p h \<Longrightarrow> can_set s f n p h'"
proof -
  obtain h1 where h1: "DeleteIndexEntryIfExists t h = Ok h1" "consistent h1"
    "full_view h1 = (full_view h)(ID t := None)" "meta h1 = meta h"
    and tags: "set (map tag (IndexEntries h1)) = set (map tag (IndexEntries h)) - {ID t}"
    and small: "weight (IndexEntries h1) \<le> weight (IndexEntries h)"
    "length (IndexEntries h1) \<le> length (IndexEntries h)" "entries_cap h1 = entries_cap h"
    using DeleteIndexEntryIfExists_ok [of h t] assms(1) unfolding good_sig_def by (metis diff_le_self)
  have view: "sig_view h1 = (sig_view h)(ID t := None)"
    using h1(3) by (auto simp: sig_view_full restrict_map_def fun_eq_iff)
  show "\<exists>h'. DeleteIndexEntryIfExists t h = Ok h' \<and> good_sig h' \<and>
      sig_view h' = (sig_view h)(ID t := None) \<and> sig_frame h' = sig_frame h"
  proof -
    have "ID SigTagHeaderSignatures \<noteq> ID t" using assms(2) unfolding unmanaged_def managed_tags_def by (metis insert_iff)
    then have "has_region h1 = has_region h" unfolding has_region_def tags by (simp only: Diff_iff singleton_iff simp_thms)
    with h1 view small assms(1) show ?thesis by (auto simp: good_sig_def sig_frame_def)
  qed
  assume d: "DeleteIndexEntryIfExists t h = Ok h'" and c: "can_set s f n p h"
  have h': "h' = h1" using d h1(1) by simp
  have "full_view h1 (ID SigTagReservedSpace) = full_view h (ID SigTagReservedSpace)"
    using h1(3) assms(2) unfolding unmanaged_def managed_tags_def by (metis fun_upd_other insert_iff)
  with c view small show "can_set s f n p h'"
    unfolding h' can_set_def by (auto split: option.splits)
qed

interpretation sig_store: tag_store good_sig sig_view sig_frame DeleteIndexEntryIfExists
  "SetOrAddIndexEntry grow" unmanaged can_set for grow
proof unfold_locales
  fix h t assume "good_sig h" "unmanaged t"
  then show "\<exists>h'. DeleteIndexEntryIfExists t h = Ok h' \<and> good_sig h' \<and>
      sig_view h' = (sig_view h)(ID t := None) \<and> sig_frame h' = sig_frame h"
    by (rule Delete_view(1))
next
  fix h t h' s f n p
  assume "good_sig h" "unmanaged t" "DeleteIndexEntryIfExists t h = Ok h'" "can_set s f n p h"
  then show "can_set s f n p h'" by (rule Delete_view(2))
next
  fix h s f n p assume "good_sig h" "can_set s f n p h"
  then show "\<exists>h'. SetOrAddIndexEntry grow s f n p h = Some (Ok h') \<and> good_sig h' \<and>
      sig_view h' = (sig_view h)(ID s \<mapsto> (f, n, p)) \<and> sig_frame h' = sig_frame h"
    by (rule SetOrAddIndexEntry_view)
qed
end
