(* ===== verification/Bitmap.thy ===== *)
theory Bitmap
  imports Utils
begin

text \<open>
  The bitmap of \<^verbatim>\<open>common/bitmap.go\<close>, which the data store writer uses to detect
  overlapping payloads. A bitmap is a slice of 64-bit words; bit offset \<open>k\<close> is bit
  \<open>63 - k mod 64\<close> of word \<open>k div 64\<close>. The abstraction \<open>bits_of\<close> is the set of
  the bit offsets that are set.
\<close>

section \<open>Definitions\<close>

record BitmapImpl =
  bm_data :: "u64 list"

definition bitsPerElement :: u32 where
  "bitsPerElement = 64"

definition NewBitmap :: BitmapImpl where
  "NewBitmap = \<lparr>bm_data = []\<rparr>"

definition simpleWrite :: "BitmapImpl \<Rightarrow> u32 \<Rightarrow> u32 \<Rightarrow> (bool \<times> BitmapImpl) outcome" where
  "simpleWrite b bitOffset bitCount =
     (let startIndexInclusive = bitOffset div bitsPerElement;
          endIndexInclusive = (bitOffset + bitCount - 1) div bitsPerElement
      in if startIndexInclusive \<noteq> endIndexInclusive then
           Panic ''simpleWrite() called with wrong arguments''
         else
           (let maskLen = bitCount;
                mask = (if maskLen > 1 then push_bit (unat maskLen) 1 - 1 else (1 :: u64));
                bitoffsetInLongWord = bitOffset mod bitsPerElement;
                leftShift = 64 - maskLen - bitoffsetInLongWord;
                mask' = push_bit (unat leftShift) mask;
                d = GrowSliceIfNecessary 0 startIndexInclusive (bm_data b);
                i = unat startIndexInclusive
            in obind (slice_at d i)
                 (\<lambda>v. if v AND mask' \<noteq> 0 then Ok (False, b\<lparr>bm_data := d\<rparr>)
                      else Ok (True, b\<lparr>bm_data := d[i := v OR mask']\<rparr>))))"

text \<open>The loop over the words that are covered completely. It stops early, with
  \<open>False\<close>, at the first word that already has a bit set; otherwise it returns the number
  of bits left for the last word.\<close>

function set_intermediate ::
  "u64 list \<Rightarrow> u32 \<Rightarrow> u32 \<Rightarrow> (bool \<times> u32 \<times> u64 list) outcome" where
  "set_intermediate d currentIndex bitsRemaining =
     (if bitsRemaining > bitsPerElement then
        (let d' = GrowSliceIfNecessary 0 currentIndex d;
             i = unat currentIndex
         in obind (slice_at d' i)
              (\<lambda>v. if v AND 0xffffffffffffffff \<noteq> 0 then Ok (False, bitsRemaining, d')
                   else set_intermediate (d'[i := v OR 0xffffffffffffffff])
                          (currentIndex + 1) (bitsRemaining - bitsPerElement)))
      else Ok (True, bitsRemaining, d))"
  by pat_completeness auto
termination
  by (relation "measure (\<lambda>(d, i, r). unat r)")
    (auto simp: bitsPerElement_def word_less_nat_alt unat_sub_if_size)

declare set_intermediate.simps [simp del]

definition Bitmap_Set :: "BitmapImpl \<Rightarrow> u32 \<Rightarrow> u32 \<Rightarrow> (bool \<times> BitmapImpl) outcome" where
  "Bitmap_Set b bitOffset bitCount =
     (if bitCount = 0 then Ok (True, b)
      else
        (let startIndexInclusive = bitOffset div bitsPerElement;
             endIndexInclusive = (bitOffset + bitCount - 1) div bitsPerElement
         in if startIndexInclusive = endIndexInclusive then simpleWrite b bitOffset bitCount
            else
              (let bitOffsetAtStartSegment = startIndexInclusive * bitsPerElement;
                   cnt = 64 - (bitOffset - bitOffsetAtStartSegment)
               in obind (simpleWrite b bitOffset cnt)
                    (\<lambda>(ok, b1).
                      if \<not> ok then Ok (False, b1)
                      else if bitCount - cnt = 0 then Ok (True, b1)
                      else obind (set_intermediate (bm_data b1) (startIndexInclusive + 1) (bitCount - cnt))
                        (\<lambda>(ok2, bitsRemaining, d).
                          if \<not> ok2 then Ok (False, b1\<lparr>bm_data := d\<rparr>)
                          else if bitsRemaining > 0 then
                            simpleWrite (b1\<lparr>bm_data := d\<rparr>) (endIndexInclusive * bitsPerElement) bitsRemaining
                          else Ok (True, b1\<lparr>bm_data := d\<rparr>))))))"

text \<open>\<^verbatim>\<open>String\<close>: most significant bit first, a line feed between words but not before
  the last two, trailing zeros removed.\<close>

definition word_bits :: "u64 \<Rightarrow> string" where
  "word_bits v = map (\<lambda>k. if bit v (63 - k) then CHR ''1'' else CHR ''0'') [0..<64]"

definition last_nonzero :: "u64 list \<Rightarrow> nat" where
  "last_nonzero d = fold (\<lambda>i acc. if d ! i \<noteq> 0 then i else acc) [0..<length d] 0"

definition BitmapString :: "BitmapImpl \<Rightarrow> string" where
  "BitmapString b =
     (if length (bm_data b) = 0 then []
      else
        (let lastIdx = last_nonzero (bm_data b);
             body = concat (map (\<lambda>offset. word_bits (bm_data b ! offset) @
                       (if offset + 1 < lastIdx then [CHR 0x0A] else [])) [0..<lastIdx + 1])
         in rev (dropWhile (\<lambda>c. c = CHR ''0'') (rev body))))"

text \<open>The abstraction.\<close>

definition bit_at :: "u64 list \<Rightarrow> nat \<Rightarrow> bool" where
  "bit_at d k \<longleftrightarrow> k div 64 < length d \<and> bit (d ! (k div 64)) (63 - k mod 64)"

definition bits_of :: "BitmapImpl \<Rightarrow> nat set" where
  "bits_of b = {k. bit_at (bm_data b) k}"

definition bitmap_ok :: "BitmapImpl \<Rightarrow> bool" where
  "bitmap_ok b \<longleftrightarrow> length (bm_data b) < 2 ^ 31"

text \<open>What a write of the range \<open>R\<close> does to the set \<open>B\<close> of marked offsets, and the
  marking of a list of ranges, stopping at the first that fails.\<close>

definition overlay :: "nat set \<Rightarrow> nat set \<Rightarrow> bool \<Rightarrow> nat set \<Rightarrow> bool" where
  "overlay B R ok B' \<longleftrightarrow>
     (if ok then R \<inter> B = {} \<and> B' = B \<union> R else R \<inter> B \<noteq> {} \<and> B \<subseteq> B' \<and> B' \<subseteq> B \<union> R)"

text \<open>The effect on the words of a bitmap.\<close>

definition marks :: "u64 list \<Rightarrow> nat \<Rightarrow> nat \<Rightarrow> bool \<Rightarrow> u64 list \<Rightarrow> bool" where
  "marks d lo n ok d' \<longleftrightarrow> length d' < 2 ^ 31 \<and>
     overlay {k. bit_at d k} {lo..<lo + n} ok {k. bit_at d' k}"

text \<open>What the loop over whole words leaves: the bits still to be marked in the last word, after
  \<open>n\<close> less that many bits from \<open>lo\<close> on are marked.\<close>

definition intermediate_post :: "u64 list \<Rightarrow> nat \<Rightarrow> nat \<Rightarrow> (bool \<times> u32 \<times> u64 list) outcome \<Rightarrow> bool" where
  "intermediate_post d lo n res = (case res of
      Ok (True, r', d') \<Rightarrow> 0 < unat r' \<and> unat r' \<le> 64 \<and> unat r' \<le> n \<and>
        64 dvd n - unat r' \<and> marks d lo (n - unat r') True d'
    | Ok (False, r', d') \<Rightarrow> marks d lo n False d'
    | _ \<Rightarrow> False)"

fun mark_all ::
  "('b \<Rightarrow> u32 \<Rightarrow> u32 \<Rightarrow> (bool \<times> 'b) outcome) \<Rightarrow> 'b \<Rightarrow> (u32 \<times> u32) list \<Rightarrow> bool outcome" where
  "mark_all s b [] = Ok True"
| "mark_all s b ((p, c) # rs) =
     obind (s b p c) (\<lambda>(ok, b'). if ok then mark_all s b' rs else Ok False)"

fun ranges_disjoint :: "nat set \<Rightarrow> (u32 \<times> u32) list \<Rightarrow> bool" where
  "ranges_disjoint B [] \<longleftrightarrow> True"
| "ranges_disjoint B ((p, c) # rs) \<longleftrightarrow>
     {unat p..<unat p + unat c} \<inter> B = {} \<and>
     ranges_disjoint (B \<union> {unat p..<unat p + unat c}) rs"

text \<open>The offsets of word \<open>i\<close> that a mask selects.\<close>

definition word_range :: "nat \<Rightarrow> u64 \<Rightarrow> nat set" where
  "word_range i m = {k. k div 64 = i \<and> bit m (63 - k mod 64)}"

section \<open>One word\<close>

lemma unat_last_offset:
  assumes "0 < unat c" and "unat o' + unat c \<le> 4294967296"
  shows "unat (o' + c - 1 :: u32) = unat o' + unat c - 1"
proof -
  have "unat (c - 1) = unat c - 1" using assms(1) by (subst unat_minus_le) auto
  then have "unat (o' + (c - 1)) = unat o' + (unat c - 1)"
    using assms by (subst unat_plus_u32) auto
  then show ?thesis using assms(1) by (simp add: add_diff_eq)
qed

lemma bit_at_GrowSlice:
  "length d < 4294967296 \<Longrightarrow> unat i < 4294967295 \<Longrightarrow> bit_at (GrowSliceIfNecessary 0 i d) k = bit_at d k"
  using GrowSlice_bound(3) [of d i 0]
  by (auto simp: bit_at_def nth_GrowSlice split: if_splits)

lemma and_zero_iff_disjoint:
  assumes "i < length d"
  shows "d ! i AND m = 0 \<longleftrightarrow> word_range i m \<inter> {k. bit_at d k} = {}"
proof
  assume "d ! i AND m = 0"
  then have "\<not> bit (d ! i AND m) n" for n by simp
  then show "word_range i m \<inter> {k. bit_at d k} = {}"
    by (auto simp: word_range_def bit_at_def bit_and_iff)
next
  assume dis: "word_range i m \<inter> {k. bit_at d k} = {}"
  show "d ! i AND m = 0"
  proof (rule bit_word_eqI)
    fix n assume n: "n < LENGTH(64)"
    define k where "k = i * 64 + (63 - n)"
    have "k mod 64 = 63 - n" "k div 64 = i"
      unfolding k_def using mod_mult_self3 [of i 64 "63 - n"] div_mult_self3 [of 64 i "63 - n"]
      by simp_all
    with n have "k div 64 = i" "63 - k mod 64 = n" by simp_all
    with dis assms have "\<not> (bit m n \<and> bit (d ! i) n)"
      by (auto simp: word_range_def bit_at_def)
    then show "bit (d ! i AND m) n = bit 0 n" by (auto simp: bit_and_iff)
  qed
qed

lemma bit_at_mark:
  assumes "i < length d"
  shows "{k. bit_at (d[i := d ! i OR m]) k} = {k. bit_at d k} \<union> word_range i m"
  using assms by (auto simp: bit_at_def word_range_def nth_list_update bit_or_iff split: if_splits)

lemma word_range_mask:
  assumes "0 < c" and "s + c \<le> 64"
  shows "word_range i (push_bit (64 - c - s) (mask c)) = {64 * i + s..<64 * i + s + c}"
proof -
  have "bit (push_bit (64 - c - s) (mask c) :: u64) (63 - t) \<longleftrightarrow> s \<le> t \<and> t < s + c" if "t < 64" for t
    using that assms by (auto simp: bit_simps)
  then have mem: "k \<in> word_range i (push_bit (64 - c - s) (mask c)) \<longleftrightarrow>
      k div 64 = i \<and> s \<le> k mod 64 \<and> k mod 64 < s + c" for k
    by (simp add: word_range_def)
  have split: "k = 64 * (k div 64) + k mod 64" for k :: nat by simp
  have "k div 64 = i \<and> s \<le> k mod 64 \<and> k mod 64 < s + c \<longleftrightarrow> k \<in> {64 * i + s..<64 * i + s + c}" for k
  proof
    assume "k div 64 = i \<and> s \<le> k mod 64 \<and> k mod 64 < s + c"
    with split [of k] show "k \<in> {64 * i + s..<64 * i + s + c}" by auto
  next
    assume k: "k \<in> {64 * i + s..<64 * i + s + c}"
    then have "k div 64 = i" using assms(2) by (intro div_nat_eqI) auto
    with split [of k] k show "k div 64 = i \<and> s \<le> k mod 64 \<and> k mod 64 < s + c" by auto
  qed
  with mem show ?thesis by blast
qed

lemma word_range_ones: "word_range i 0xffffffffffffffff = {64 * i..<64 * i + 64}"
proof -
  have "(0xffffffffffffffff :: u64) = push_bit (64 - 64 - 0) (mask 64)"
    by (simp add: mask_numeral)
  then show ?thesis using word_range_mask [of 64 0 i] by simp
qed

section \<open>Composing writes\<close>

lemma overlay_seq:
  "overlay B R True B1 \<Longrightarrow> overlay B1 S ok B2 \<Longrightarrow> R \<inter> S = {} \<Longrightarrow> overlay B (R \<union> S) ok B2"
  unfolding overlay_def by (cases ok) (simp_all, blast+)

lemma overlay_fail: "overlay B R False B' \<Longrightarrow> R \<subseteq> S \<Longrightarrow> overlay B S False B'"
  unfolding overlay_def by (simp, blast)

lemma marks_none: "length d < 2 ^ 31 \<Longrightarrow> marks d lo 0 True d"
  by (simp add: marks_def overlay_def)

lemma marks_seq:
  assumes "marks d lo m True d1" and "marks d1 (lo + m) n ok d2"
  shows "marks d lo (m + n) ok d2"
proof -
  have "{lo..<lo + (m + n)} = {lo..<lo + m} \<union> {lo + m..<lo + m + n}" by auto
  moreover have "{lo..<lo + m} \<inter> {lo + m..<lo + m + n} = {}" by auto
  ultimately show ?thesis using assms unfolding marks_def by (metis overlay_seq)
qed

lemma marks_fail:
  assumes "marks d lo m False d'" and "m \<le> n"
  shows "marks d lo n False d'"
proof -
  have "{lo..<lo + m} \<subseteq> {lo..<lo + n}" using assms(2) by auto
  with assms(1) show ?thesis unfolding marks_def by (metis overlay_fail)
qed

section \<open>The operations\<close>

lemma mask_of_length:
  assumes "0 < unat (c :: u32)"
  shows "(if c > 1 then push_bit (unat c) 1 - 1 else (1 :: u64)) = mask (unat c)"
proof (cases "c > 1")
  case False
  then have "unat c = 1" using assms by (simp add: word_less_nat_alt)
  with False show ?thesis by simp
qed (simp add: mask_eq_exp_minus_1)

lemma simpleWrite_spec:
  assumes c: "0 < unat c" "unat p mod 64 + unat c \<le> 64" and ok: "bitmap_ok b"
  shows "case simpleWrite b p c of
    Ok (ok, b') \<Rightarrow> marks (bm_data b) (unat p) (unat c) ok (bm_data b') | _ \<Rightarrow> False"
proof -
  let ?s = "unat p mod 64" and ?i = "unat p div 64"
  have p: "unat p = 64 * ?i + ?s" by simp
  have i: "?i < 67108864" using unat_lt_u32 [of p] by simp
  have sum: "unat p + unat c \<le> 4294967296" using c(2) p i by linarith
  have "unat (p + c - 1) = unat p + unat c - 1" by (rule unat_last_offset [OF c(1) sum])
  moreover have "(unat p + unat c - 1) div 64 = ?i"
  proof (rule div_nat_eqI)
    show "64 * ?i \<le> unat p + unat c - 1" using c(1) p by linarith
    have "unat p + unat c - 1 < unat p + unat c" using c(1) by simp
    also have "\<dots> \<le> 64 * Suc ?i" unfolding mult_Suc_right using c(2) p by linarith
    finally show "unat p + unat c - 1 < 64 * Suc ?i" .
  qed
  ultimately have same: "p div 64 = (p + c - 1) div 64"
    by (simp add: word_unat_eq_iff unat_div_distrib)
  have ui: "unat (p div 64) = ?i" by (simp add: unat_div_distrib)
  have us: "unat (p mod 64) = ?s" by (simp add: unat_mod_distrib)
  have "unat (64 - c) = 64 - unat c" using c by (subst unat_minus_le) auto
  then have shift: "unat (64 - c - p mod 64) = 64 - unat c - ?s"
    using c us by (subst unat_minus_le) auto
  define d where "d = GrowSliceIfNecessary 0 (p div 64) (bm_data b)"
  have len: "length (bm_data b) < 4294967296" and idx: "unat (p div 64) < 4294967295"
    using ok i ui by (auto simp: bitmap_ok_def)
  have id: "?i < length d"
    using GrowSlice_covers [OF len idx] ui by (simp add: d_def)
  have ld: "length d < 2 ^ 31"
    using GrowSlice_bound(2) [OF len idx, of 0] ok i ui by (auto simp: d_def bitmap_ok_def)
  have bd: "{k. bit_at d k} = {k. bit_at (bm_data b) k}"
    by (simp add: d_def bit_at_GrowSlice [OF len idx])
  let ?m = "push_bit (64 - unat c - ?s) (mask (unat c)) :: u64"
  have wr: "word_range ?i ?m = {unat p..<unat p + unat c}"
    using word_range_mask [OF c(1), of ?s ?i] c(2) p by simp
  have "simpleWrite b p c = (if d ! ?i AND ?m \<noteq> 0 then Ok (False, b\<lparr>bm_data := d\<rparr>)
      else Ok (True, b\<lparr>bm_data := d[?i := d ! ?i OR ?m]\<rparr>))"
    unfolding simpleWrite_def Let_def bitsPerElement_def same [symmetric] mask_of_length [OF c(1)] shift ui
      d_def [symmetric] slice_at_Ok [OF id]
    by simp
  then show ?thesis
    using and_zero_iff_disjoint [OF id, of ?m] bit_at_mark [OF id, of ?m] wr bd ld
    by (auto simp: marks_def overlay_def)
qed


lemma grow_for_word:
  assumes "length d < 2 ^ 31" and "unat i < 67108863"
  shows "unat i < length (GrowSliceIfNecessary 0 i d)" and "length (GrowSliceIfNecessary 0 i d) < 2 ^ 31"
    and "bit_at (GrowSliceIfNecessary 0 i d) k = bit_at d k"
proof -
  have len: "length d < 4294967296" and idx: "unat i < 4294967295" using assms by auto
  show "unat i < length (GrowSliceIfNecessary 0 i d)" by (rule GrowSlice_covers [OF len idx])
  show "length (GrowSliceIfNecessary 0 i d) < 2 ^ 31"
    using GrowSlice_bound(2) [OF len idx, of 0] assms by auto
  show "bit_at (GrowSliceIfNecessary 0 i d) k = bit_at d k" by (rule bit_at_GrowSlice [OF len idx])
qed

lemma full_word_marks:
  fixes d :: "u64 list" and i :: u32
  assumes "length d < 2 ^ 31" and "unat i < 67108863"
  defines "g \<equiv> GrowSliceIfNecessary 0 i d" and "ones \<equiv> 0xffffffffffffffff :: u64"
  shows "g ! unat i AND ones \<noteq> 0 \<Longrightarrow> marks d (64 * unat i) 64 False g"
    and "g ! unat i AND ones = 0 \<Longrightarrow> marks d (64 * unat i) 64 True (g[unat i := g ! unat i OR ones])"
proof -
  note g = grow_for_word [OF assms(1,2), folded g_def]
  note dis = and_zero_iff_disjoint [OF g(1), of ones, unfolded ones_def word_range_ones g(3)]
  show "marks d (64 * unat i) 64 False g" if "g ! unat i AND ones \<noteq> 0"
    using that dis g(2,3) by (simp add: marks_def overlay_def ones_def)
  show "marks d (64 * unat i) 64 True (g[unat i := g ! unat i OR ones])" if "g ! unat i AND ones = 0"
    using that dis g(2) bit_at_mark [OF g(1), of ones, unfolded ones_def word_range_ones g(3)]
    by (simp add: marks_def overlay_def ones_def)
qed

lemma intermediate_post_seq:
  assumes first: "marks d lo 64 True h" and "64 < n" and rest: "intermediate_post h (lo + 64) (n - 64) res"
  shows "intermediate_post d lo n res"
proof -
  from rest obtain ok r' d' where res: "res = Ok (ok, r', d')"
    by (auto simp: intermediate_post_def split: outcome.splits)
  show ?thesis
  proof (cases ok)
    case True
    with rest res have le: "unat r' \<le> n - 64" and dv: "64 dvd n - 64 - unat r'"
      and m: "marks h (lo + 64) (n - 64 - unat r') True d'"
      and "0 < unat r'" "unat r' \<le> 64" by (simp_all add: intermediate_post_def)
    moreover have "n - unat r' = 64 + (n - 64 - unat r')" using le \<open>64 < n\<close> by simp
    moreover have "64 dvd 64 + (n - 64 - unat r')" using dv by (intro dvd_add) auto
    ultimately show ?thesis using res True marks_seq [OF first m] by (simp add: intermediate_post_def)
  next
    case False
    with rest res have "marks h (lo + 64) (n - 64) False d'" by (simp add: intermediate_post_def)
    from marks_seq [OF first this] res False \<open>64 < n\<close> show ?thesis by (simp add: intermediate_post_def)
  qed
qed

lemma set_intermediate_spec:
  assumes "length d < 2 ^ 31" and "64 * unat i + unat r \<le> 4294967296" and "0 < unat r"
  shows "intermediate_post d (64 * unat i) (unat r) (set_intermediate d i r)"
  using assms
proof (induction d i r rule: set_intermediate.induct)
  case (1 d i r)
  show ?case
  proof (cases "r > bitsPerElement")
    case False
    then have "set_intermediate d i r = Ok (True, r, d)" by (simp add: set_intermediate.simps)
    with False 1(2-4) show ?thesis
      by (simp add: bitsPerElement_def word_less_nat_alt marks_none intermediate_post_def)
  next
    case True
    then have r: "64 < unat r" by (simp add: bitsPerElement_def word_less_nat_alt)
    with 1(3) have i: "unat i < 67108863" by linarith
    define g where "g = GrowSliceIfNecessary 0 i d"
    note g = grow_for_word [OF 1(2) i, folded g_def] and word = full_word_marks [OF 1(2) i, folded g_def]
    show ?thesis
    proof (cases "g ! unat i AND 0xffffffffffffffff = 0")
      case False
      then have "set_intermediate d i r = Ok (False, r, g)"
        using True g(1) unfolding set_intermediate.simps [of d i r] Let_def g_def [symmetric]
        by simp
      with word(1) [OF False] r marks_fail show ?thesis by (fastforce simp: intermediate_post_def)
    next
      case free: True
      define h where "h = g[unat i := g ! unat i OR 0xffffffffffffffff]"
      have step: "set_intermediate d i r = set_intermediate h (i + 1) (r - bitsPerElement)"
        using True free g(1)
        unfolding set_intermediate.simps [of d i r] Let_def g_def [symmetric] h_def by simp
      have ur: "unat (r - bitsPerElement) = unat r - 64"
        using r by (subst unat_minus_le) (auto simp: bitsPerElement_def)
      have ui: "unat (i + 1) = unat i + 1" using i by (simp add: unat_word_ariths)
      have "length h < 2 ^ 31" "64 * unat (i + 1) + unat (r - bitsPerElement) \<le> 4294967296"
        "0 < unat (r - bitsPerElement)"
        using g(2) 1(3) r by (simp_all add: h_def ur ui)
      with 1(1) [OF True g_def refl, of "g ! unat i", folded h_def] free
      have "intermediate_post h (64 * unat i + 64) (unat r - 64) (set_intermediate h (i + 1) (r - bitsPerElement))"
        by (simp only: ur ui distrib_left mult_1_right simp_thms)
      from intermediate_post_seq [OF word(2) [OF free, folded h_def] r this] show ?thesis by (simp only: step)
    qed
  qed
qed

lemma unat_times_bitsPerElement: "unat (x * bitsPerElement) = unat x * 64 mod 4294967296"
  by (simp add: unat_word_ariths bitsPerElement_def)

lemma unat_first_segment:
  "unat (64 - (p - p div bitsPerElement * bitsPerElement)) = 64 - unat p mod 64"
proof -
  have "unat (p div bitsPerElement * bitsPerElement) = unat p div 64 * 64"
    using unat_lt_u32 [of p]
    by (simp add: unat_times_bitsPerElement unat_div_distrib) (simp add: bitsPerElement_def)
  then have "unat (p - p div bitsPerElement * bitsPerElement) = unat p mod 64"
    by (subst unat_minus_le) (simp_all add: minus_div_mult_eq_mod)
  then show ?thesis by (subst unat_minus_le) (auto simp: less_imp_le)
qed

text \<open>The words after the first one: the complete ones and the last.\<close>

lemma set_tail_spec:
  assumes d: "length d < 2 ^ 31" and lo: "64 * unat i = lo" and r: "0 < unat r"
    and sum: "lo + unat r \<le> 4294967296" and e: "unat e = (lo + unat r - 1) div 64"
  shows "case obind (set_intermediate d i r)
       (\<lambda>(ok2, bitsRemaining, d').
          if \<not> ok2 then Ok (False, b\<lparr>bm_data := d'\<rparr>)
          else if bitsRemaining > 0 then
            simpleWrite (b\<lparr>bm_data := d'\<rparr>) (e * bitsPerElement) bitsRemaining
          else Ok (True, b\<lparr>bm_data := d'\<rparr>)) of
     Ok (ok, b') \<Rightarrow> marks d lo (unat r) ok (bm_data b') | _ \<Rightarrow> False"
proof -
  note spec = set_intermediate_spec [OF d, of i r, unfolded lo intermediate_post_def, OF sum r]
  then obtain ok2 r' d' where w: "set_intermediate d i r = Ok (ok2, r', d')"
    by (auto split: outcome.splits)
  show ?thesis
  proof (cases ok2)
    case False
    with spec w show ?thesis by simp
  next
    case True
    with spec w have r': "0 < unat r'" "unat r' \<le> 64" "unat r' \<le> unat r"
      and dv: "64 dvd unat r - unat r'" and m: "marks d lo (unat r - unat r') True d'" by simp_all
    from dv obtain q where q: "unat r - unat r' = 64 * q" by auto
    have "(lo + unat r - 1) div 64 = unat i + q"
      using q r' lo by (intro div_nat_eqI) simp_all
    then have x64: "unat (e * bitsPerElement) = 64 * (unat i + q)"
      using e q lo sum r' by (simp add: unat_times_bitsPerElement)
    also have "\<dots> = lo + (unat r - unat r')" using q lo by simp
    finally have x: "unat (e * bitsPerElement) = lo + (unat r - unat r')" .
    have ok: "bitmap_ok (b\<lparr>bm_data := d'\<rparr>)" using m by (simp add: bitmap_ok_def marks_def)
    have "unat (e * bitsPerElement) mod 64 + unat r' \<le> 64" unfolding x64 using r' by simp
    from simpleWrite_spec [OF r'(1) this ok, unfolded x] obtain r3 b3
      where "simpleWrite (b\<lparr>bm_data := d'\<rparr>) (e * bitsPerElement) r' = Ok (r3, b3)"
        and "marks d' (lo + (unat r - unat r')) (unat r') r3 (bm_data b3)"
      by (auto split: outcome.splits)
    with marks_seq [OF m, of "unat r'" r3 "bm_data b3"] w True r' show ?thesis
      by (simp add: word_gt_0 unat_gt_0)
  qed
qed

lemma segments_across_words:
  assumes c: "0 < unat c" and sum: "unat p + unat c \<le> 4294967296"
    and diff: "p div bitsPerElement \<noteq> (p + c - 1) div bitsPerElement"
  defines "cnt \<equiv> 64 - (p - p div bitsPerElement * bitsPerElement)"
  shows "0 < unat cnt" and "unat p mod 64 + unat cnt \<le> 64" and "unat cnt < unat c"
    and "unat (c - cnt) = unat c - unat cnt"
    and "64 * unat (p div bitsPerElement + 1) = unat p + unat cnt"
    and "unat ((p + c - 1) div bitsPerElement) = (unat p + unat cnt + unat (c - cnt) - 1) div 64"
proof -
  define s i e where "s = unat p mod 64" and "i = unat p div 64"
    and "e = (unat p + unat c - 1) div 64"
  have p: "unat p = 64 * i + s" "s < 64" by (simp_all add: s_def i_def)
  have ui: "unat (p div bitsPerElement) = i"
    by (simp add: unat_div_distrib bitsPerElement_def i_def)
  have ue: "unat ((p + c - 1) div bitsPerElement) = e"
    by (simp add: unat_div_distrib bitsPerElement_def unat_last_offset [OF c sum] e_def)
  have "64 * e \<le> unat p + unat c - 1" by (simp add: e_def)
  then have e: "64 * e < unat p + unat c" using c by linarith
  have "i \<noteq> e" using diff ui ue by (metis word_unat_eq_iff)
  moreover have "i \<le> e" unfolding i_def e_def using c by (intro div_le_mono) simp
  ultimately have ie: "i < e" by simp
  have cnt: "unat cnt = 64 - s" unfolding cnt_def s_def by (rule unat_first_segment)
  then show "0 < unat cnt" "unat p mod 64 + unat cnt \<le> 64" using p(2) by (simp_all add: s_def)
  show more: "unat cnt < unat c" using ie e p cnt by simp
  then show rem: "unat (c - cnt) = unat c - unat cnt" by (subst unat_minus_le) auto
  show "64 * unat (p div bitsPerElement + 1) = unat p + unat cnt"
    using ui unat_lt_u32 [of p] p cnt by (subst unat_plus_u32) auto
  show "unat ((p + c - 1) div bitsPerElement) = (unat p + unat cnt + unat (c - cnt) - 1) div 64"
    unfolding ue e_def using rem more by simp
qed

lemma Bitmap_Set_across:
  assumes c: "0 < unat c" and sum: "unat p + unat c \<le> 4294967296" and ok: "bitmap_ok b"
    and diff: "p div bitsPerElement \<noteq> (p + c - 1) div bitsPerElement"
  shows "case Bitmap_Set b p c of
    Ok (r, b') \<Rightarrow> marks (bm_data b) (unat p) (unat c) r (bm_data b') | _ \<Rightarrow> False"
proof -
  define cnt where "cnt = 64 - (p - p div bitsPerElement * bitsPerElement)"
  note seg = segments_across_words [OF c sum diff, folded cnt_def]
  from simpleWrite_spec [OF seg(1,2) ok] obtain r1 b1
    where w1: "simpleWrite b p cnt = Ok (r1, b1)"
      and m1: "marks (bm_data b) (unat p) (unat cnt) r1 (bm_data b1)"
    by (cases "simpleWrite b p cnt") auto
  have l1: "length (bm_data b1) < 2 ^ 31" using m1 by (simp add: marks_def)
  have nz: "c \<noteq> 0" "c - cnt \<noteq> 0" "0 < unat (c - cnt)" using c seg(3,4) by auto
  have "unat p + unat cnt + unat (c - cnt) \<le> 4294967296" using sum seg(3,4) by simp
  note tail = set_tail_spec [OF l1 seg(5) nz(3) this seg(6), where b = b1]
  show ?thesis
  proof (cases r1)
    case False
    with m1 seg(3) w1 nz diff show ?thesis
      by (simp add: Bitmap_Set_def Let_def cnt_def [symmetric] marks_fail)
  next
    case True
    have seq: "marks (bm_data b1) (unat p + unat cnt) (unat (c - cnt)) ok3 d3 \<Longrightarrow>
        marks (bm_data b) (unat p) (unat c) ok3 d3" for ok3 d3
      using marks_seq [of "bm_data b" "unat p" "unat cnt" "bm_data b1" "unat (c - cnt)" ok3 d3]
        m1 True seg(3,4) by simp
    let ?t = "obind (set_intermediate (bm_data b1) (p div bitsPerElement + 1) (c - cnt))
        (\<lambda>(ok2, bitsRemaining, d').
          if \<not> ok2 then Ok (False, b1\<lparr>bm_data := d'\<rparr>)
          else if bitsRemaining > 0 then
            simpleWrite (b1\<lparr>bm_data := d'\<rparr>) ((p + c - 1) div bitsPerElement * bitsPerElement) bitsRemaining
          else Ok (True, b1\<lparr>bm_data := d'\<rparr>))"
    have "Bitmap_Set b p c = ?t"
      using True w1 nz diff by (simp add: Bitmap_Set_def Let_def cnt_def [symmetric])
    moreover from tail obtain r3 b3 where "?t = Ok (r3, b3)"
      and "marks (bm_data b1) (unat p + unat cnt) (unat (c - cnt)) r3 (bm_data b3)"
      by (cases ?t) auto
    ultimately show ?thesis using seq by simp
  qed
qed

lemma Bitmap_Set_marks:
  assumes sum: "unat p + unat c \<le> 4294967296" and ok: "bitmap_ok b"
  shows "case Bitmap_Set b p c of
    Ok (r, b') \<Rightarrow> marks (bm_data b) (unat p) (unat c) r (bm_data b') | _ \<Rightarrow> False"
proof (cases "c = 0")
  case True
  then show ?thesis using ok by (simp add: Bitmap_Set_def bitmap_ok_def marks_none)
next
  case False
  then have c: "0 < unat c" by (simp add: unat_gt_0)
  show ?thesis
  proof (cases "p div bitsPerElement = (p + c - 1) div bitsPerElement")
    case True
    from arg_cong [OF this, of unat] have "unat p div 64 = (unat p + unat c - 1) div 64"
      by (simp add: unat_div_distrib bitsPerElement_def unat_last_offset [OF c sum])
    with c have "unat p mod 64 + unat c \<le> 64" by (simp add: modulo_nat_def)
    from simpleWrite_spec [OF c this ok] False True show ?thesis
      by (simp add: Bitmap_Set_def Let_def)
  next
    case False
    then show ?thesis by (rule Bitmap_Set_across [OF c sum ok])
  qed
qed

section \<open>The bitmap interface\<close>

text \<open>Go's \<^verbatim>\<open>Bitmap\<close> interface with the contract its comment states: \<open>Set\<close> populates
  the range and returns true exactly when none of its bits was set before. After a failed call
  some bits of the range may have been set, never any outside it.\<close>

locale bitmap_interface =
  fixes new :: 'b
    and set_range :: "'b \<Rightarrow> u32 \<Rightarrow> u32 \<Rightarrow> (bool \<times> 'b) outcome"
    and marked :: "'b \<Rightarrow> nat set"
    and invar :: "'b \<Rightarrow> bool"
  assumes marked_new: "marked new = {}"
    and invar_new: "invar new"
    and set_range_overlay:
      "invar b \<Longrightarrow> unat p + unat c \<le> 4294967296 \<Longrightarrow>
       \<exists>ok b'. set_range b p c = Ok (ok, b') \<and> invar b' \<and>
         overlay (marked b) {unat p..<unat p + unat c} ok (marked b')"
begin

lemma set_range_result:
  assumes "invar b" and "unat p + unat c \<le> 4294967296"
    and "set_range b p c = Ok (ok, b')"
  shows "ok \<longleftrightarrow> {unat p..<unat p + unat c} \<inter> marked b = {}" and "invar b'"
    and "ok \<Longrightarrow> marked b' = marked b \<union> {unat p..<unat p + unat c}"
  using set_range_overlay [OF assms(1,2)] assms(3) by (auto simp: overlay_def split: if_splits)

text \<open>Marking a list of ranges succeeds exactly when the ranges are pairwise disjoint and
  disjoint from what is marked already.\<close>

lemma mark_all_disjoint:
  assumes "invar b" and "\<forall>(p, c) \<in> set rs. unat p + unat c \<le> 4294967296"
  shows "mark_all set_range b rs = Ok (ranges_disjoint (marked b) rs)"
  using assms
proof (induction rs arbitrary: b)
  case Nil
  then show ?case by simp
next
  case (Cons r rs)
  obtain p c where r: "r = (p, c)" by force
  with Cons.prems have bound: "unat p + unat c \<le> 4294967296" by simp
  from set_range_overlay [OF Cons.prems(1) bound] obtain ok b'
    where w: "set_range b p c = Ok (ok, b')" by blast
  note res = set_range_result [OF Cons.prems(1) bound w]
  from Cons.IH [OF res(2)] Cons.prems(2)
  have IH: "mark_all set_range b' rs = Ok (ranges_disjoint (marked b') rs)" by simp
  show ?case using w res IH by (simp add: r)
qed

end

interpretation bm: bitmap_interface NewBitmap Bitmap_Set bits_of bitmap_ok
proof unfold_locales
  show "bits_of NewBitmap = {}" by (simp add: bits_of_def NewBitmap_def bit_at_def)
  show "bitmap_ok NewBitmap" by (simp add: bitmap_ok_def NewBitmap_def)
next
  fix b :: BitmapImpl and p c :: u32
  assume "bitmap_ok b" and "unat p + unat c \<le> 4294967296"
  from Bitmap_Set_marks [OF this(2,1)]
  show "\<exists>ok b'. Bitmap_Set b p c = Ok (ok, b') \<and> bitmap_ok b' \<and>
      overlay (bits_of b) {unat p..<unat p + unat c} ok (bits_of b')"
    by (auto simp: marks_def bits_of_def bitmap_ok_def split: outcome.splits)
qed

section \<open>Properties\<close>

text \<open>C32: marking a bit range succeeds exactly when the range is free, and then marks exactly the
  range; a refused range leaves every marked bit marked and marks nothing outside the range.\<close>

theorem Bitmap_Set_exact:
  assumes "bitmap_ok b" and "unat p + unat c \<le> 4294967296"
  shows "\<exists>ok b'. Bitmap_Set b p c = Ok (ok, b') \<and> bitmap_ok b' \<and>
    (ok \<longleftrightarrow> {unat p..<unat p + unat c} \<inter> bits_of b = {}) \<and>
    (if ok then bits_of b' = bits_of b \<union> {unat p..<unat p + unat c}
     else bits_of b \<subseteq> bits_of b' \<and> bits_of b' \<subseteq> bits_of b \<union> {unat p..<unat p + unat c})"
  using bm.set_range_overlay [OF assms] by (auto simp: overlay_def split: if_splits)

theorem Bitmap_Set_exact_witness:
  "\<exists>ok b'. Bitmap_Set NewBitmap 60 10 = Ok (ok, b') \<and> ok \<and> bits_of b' = {60..<70}"
  using Bitmap_Set_exact [of NewBitmap 60 10] bm.marked_new bm.invar_new by auto

text \<open>A sequence of ranges can be marked one after the other exactly when they are pairwise
  disjoint, whatever their order, sizes and word boundaries.\<close>

theorem mark_all_disjoint_ranges:
  assumes "\<forall>(p, c) \<in> set rs. unat p + unat c \<le> 4294967296"
  shows "mark_all Bitmap_Set NewBitmap rs = Ok (ranges_disjoint {} rs)"
  using bm.mark_all_disjoint [OF bm.invar_new assms] by (simp add: bm.marked_new)

theorem mark_all_disjoint_ranges_witness:
  "mark_all Bitmap_Set NewBitmap [(0, 8), (100, 70), (8, 92)] = Ok True \<and>
   mark_all Bitmap_Set NewBitmap [(0, 8), (100, 70), (169, 1)] = Ok False"
proof -
  have "{169..<170} \<inter> ({0..<8} \<union> {100..<170}) \<noteq> ({} :: nat set)"
    by (rule ccontr) (use IntI [of 169 "{169..<170::nat}" "{0..<8} \<union> {100..<170}"] in simp)
  then have "ranges_disjoint {} [(0, 8), (100, 70), (8, 92)]" "\<not> ranges_disjoint {} [(0, 8), (100, 70), (169, 1)]"
    by auto
  with mark_all_disjoint_ranges [of "[(0, 8), (100, 70), (8, 92)]"]
    mark_all_disjoint_ranges [of "[(0, 8), (100, 70), (169, 1)]"] show ?thesis
    by (simp del: mark_all.simps ranges_disjoint.simps)
qed

end
