(* ===== verification/Dynamic_Array.thy ===== *)
theory Dynamic_Array
  imports Bitmap
begin

text \<open>
  The dynamic array of \<^verbatim>\<open>common/dynamicarray.go\<close>: a byte buffer written at arbitrary
  offsets that grows on demand and refuses overlapping writes. The header writer assembles the
  data store with it.
\<close>

section \<open>Definitions\<close>

record dynamicArrayImpl =
  bitmap :: BitmapImpl
  da_data :: bytes
  lastUsedOffsetExclusive :: u32

definition NewDynamicArray :: dynamicArrayImpl where
  "NewDynamicArray = \<lparr>bitmap = NewBitmap, da_data = [], lastUsedOffsetExclusive = 0\<rparr>"

text \<open>\<^verbatim>\<open>copy(dst[offset:], p)\<close>: slicing past the length panics, a short destination cuts
  the copy.\<close>

definition copy_at :: "bytes \<Rightarrow> nat \<Rightarrow> bytes \<Rightarrow> bytes outcome" where
  "copy_at dst offset p =
     (if offset > length dst then Panic ''slice bounds out of range''
      else (let n = min (length p) (length dst - offset)
            in Ok (take offset dst @ take n p @ drop (offset + n) dst)))"

text \<open>\<open>Write\<close> returns its error beside the array, which keeps the bits the failed
  \<open>Set\<close> has marked.\<close>

definition DynamicArray_Write ::
  "dynamicArrayImpl \<Rightarrow> bytes \<Rightarrow> u32 \<Rightarrow> (goerror option \<times> dynamicArrayImpl) outcome" where
  "DynamicArray_Write da p offset =
     (if length p = 0 then Ok (None, da)
      else obind (Bitmap_Set (bitmap da) offset (of_nat (length p)))
        (\<lambda>(ok, bm).
          if \<not> ok then Ok (Some (Errorf ''write to overlapping range''), da\<lparr>bitmap := bm\<rparr>)
          else
            (let maxOffsetExclusive = offset + of_nat (length p);
                 d = GrowSliceIfNecessary 0 maxOffsetExclusive (da_data da)
             in obind (copy_at d (unat offset) p)
                  (\<lambda>d'. Ok (None, da\<lparr>bitmap := bm, da_data := d',
                      lastUsedOffsetExclusive :=
                        (if maxOffsetExclusive > lastUsedOffsetExclusive da then maxOffsetExclusive
                         else lastUsedOffsetExclusive da)\<rparr>)))))"

definition DynamicArray_GetData :: "dynamicArrayImpl \<Rightarrow> bytes outcome" where
  "DynamicArray_GetData da =
     (if unat (lastUsedOffsetExclusive da) > length (da_data da) then
        Panic ''slice bounds out of range''
      else Ok (take (unat (lastUsedOffsetExclusive da)) (da_data da)))"

text \<open>The abstraction: the byte at an offset, zero where nothing was written.\<close>

definition da_byte :: "dynamicArrayImpl \<Rightarrow> nat \<Rightarrow> u8" where
  "da_byte da k = (if k < length (da_data da) then da_data da ! k else 0)"

definition da_ok :: "dynamicArrayImpl \<Rightarrow> bool" where
  "da_ok da \<longleftrightarrow> bitmap_ok (bitmap da) \<and> length (da_data da) < 4294967296 \<and>
     unat (lastUsedOffsetExclusive da) \<le> length (da_data da) \<and>
     bits_of (bitmap da) \<subseteq> {..<unat (lastUsedOffsetExclusive da)} \<and>
     (\<forall>k. k \<notin> bits_of (bitmap da) \<longrightarrow> da_byte da k = 0)"

section \<open>Lemmas\<close>

lemma da_ok_new: "da_ok NewDynamicArray"
  by (simp add: da_ok_def NewDynamicArray_def bm.marked_new bm.invar_new da_byte_def)

lemma copy_at_fits:
  assumes "offset + length p \<le> length dst"
  shows "copy_at dst offset p = Ok (take offset dst @ p @ drop (offset + length p) dst)"
  using assms by (simp add: copy_at_def)

lemma nth_overwrite:
  assumes "offset + length p \<le> length dst" and "k < length dst"
  shows "(take offset dst @ p @ drop (offset + length p) dst) ! k =
    (if offset \<le> k \<and> k < offset + length p then p ! (k - offset) else dst ! k)"
  using assms by (auto simp: nth_append)

text \<open>A write into free space: the bytes land, nothing else changes.\<close>

lemma Write_free:
  assumes ok: "da_ok da" and p: "p \<noteq> []" and fits: "unat offset + length p < 4294967295"
    and free: "{unat offset..<unat offset + length p} \<inter> bits_of (bitmap da) = {}"
  obtains da' where "DynamicArray_Write da p offset = Ok (None, da')" and "da_ok da'"
    and "bits_of (bitmap da') = bits_of (bitmap da) \<union> {unat offset..<unat offset + length p}"
    and "\<And>k. da_byte da' k =
      (if unat offset \<le> k \<and> k < unat offset + length p then p ! (k - unat offset) else da_byte da k)"
    and "unat (lastUsedOffsetExclusive da') =
      max (unat (lastUsedOffsetExclusive da)) (unat offset + length p)"
proof -
  let ?n = "of_nat (length p) :: u32"
  have n: "unat ?n = length p" using fits by (intro unat_of_nat_u32) simp
  have bok: "bitmap_ok (bitmap da)" using ok by (simp add: da_ok_def)
  have rng: "unat offset + unat ?n \<le> 4294967296" using fits n by simp
  from bm.set_range_overlay [OF bok rng] obtain r bm' where
    s: "Bitmap_Set (bitmap da) offset ?n = Ok (r, bm')" by blast
  note res = bm.set_range_result [OF bok rng s, unfolded n]
  have r: r using res(1) free by simp
  define d where "d = GrowSliceIfNecessary 0 (offset + ?n) (da_data da)"
  have last: "unat (offset + ?n) = unat offset + length p"
    using fits n by (subst unat_plus_u32) auto
  have len: "length (da_data da) < 4294967296" and idx: "unat (offset + ?n) < 4294967295"
    using ok fits last by (auto simp: da_ok_def)
  have ld: "unat offset + length p < length d"
    using GrowSlice_covers [OF len idx] last by (simp add: d_def)
  define d' where "d' = take (unat offset) d @ p @ drop (unat offset + length p) d"
  define da' where "da' = da\<lparr>bitmap := bm', da_data := d', lastUsedOffsetExclusive :=
     (if offset + ?n > lastUsedOffsetExclusive da then offset + ?n else lastUsedOffsetExclusive da)\<rparr>"
  have w: "DynamicArray_Write da p offset = Ok (None, da')"
    using p s r copy_at_fits [of "unat offset" p d] ld
    by (simp add: DynamicArray_Write_def Let_def d_def [symmetric] d'_def da'_def)
  have ld': "length d' = length d" using ld by (simp add: d'_def)
  have dn: "k < length d \<Longrightarrow> d ! k = (if k < length (da_data da) then da_data da ! k else 0)" for k
    unfolding d_def by (rule nth_GrowSlice [OF len idx])
  have byte: "da_byte da' k =
      (if unat offset \<le> k \<and> k < unat offset + length p then p ! (k - unat offset) else da_byte da k)" for k
    using nth_overwrite [of "unat offset" p d k] ld ld' GrowSlice_bound(3) [OF len idx, of 0]
    by (auto simp: da_byte_def da'_def d'_def [symmetric] dn d_def [symmetric])
  have lu: "unat (lastUsedOffsetExclusive da') =
      max (unat (lastUsedOffsetExclusive da)) (unat offset + length p)"
    using last by (auto simp: da'_def word_less_nat_alt)
  have "da_ok da'"
    using ok res(2) res(3) [OF r] byte lu ld ld' GrowSlice_bound(1,3) [OF len idx, of 0]
    by (auto simp: da_ok_def da'_def d_def [symmetric])
  with w byte lu res(3) [OF r] show thesis by (intro that) (auto simp: da'_def)
qed

text \<open>A write into a range that is partly taken is refused and leaves the bytes alone.\<close>

lemma Write_overlap:
  assumes ok: "da_ok da" and fits: "unat offset + length p < 4294967295"
    and taken: "{unat offset..<unat offset + length p} \<inter> bits_of (bitmap da) \<noteq> {}"
  obtains da' where
    "DynamicArray_Write da p offset = Ok (Some (Errorf ''write to overlapping range''), da')"
    and "da_data da' = da_data da" and "lastUsedOffsetExclusive da' = lastUsedOffsetExclusive da"
proof -
  let ?n = "of_nat (length p) :: u32"
  have n: "unat ?n = length p" using fits by (intro unat_of_nat_u32) simp
  have bok: "bitmap_ok (bitmap da)" using ok by (simp add: da_ok_def)
  have rng: "unat offset + unat ?n \<le> 4294967296" using fits n by simp
  from bm.set_range_overlay [OF bok rng] obtain r bm' where
    s: "Bitmap_Set (bitmap da) offset ?n = Ok (r, bm')" by blast
  have "\<not> r" using bm.set_range_result(1) [OF bok rng s] taken n by simp
  moreover have "p \<noteq> []" using taken by auto
  ultimately show thesis using that s by (simp add: DynamicArray_Write_def)
qed

lemma GetData_bytes:
  assumes "da_ok da"
  shows "DynamicArray_GetData da = Ok (map (da_byte da) [0..<unat (lastUsedOffsetExclusive da)])"
  using assms
  by (auto simp: DynamicArray_GetData_def da_ok_def da_byte_def intro!: nth_equalityI)

section \<open>Properties\<close>

text \<open>C33: a write to a free range stores exactly its bytes and keeps every other byte, a write that
  touches a written byte is refused and changes no byte; both keep the invariant of the buffer's
  data.\<close>

theorem DynamicArray_Write_exact:
  assumes "da_ok da" and "p \<noteq> []" and "unat ofs + length p < 4294967295"
  shows "if {unat ofs..<unat ofs + length p} \<inter> bits_of (bitmap da) = {}
    then \<exists>da'. DynamicArray_Write da p ofs = Ok (None, da') \<and> da_ok da' \<and>
      (\<forall>k. da_byte da' k = (if unat ofs \<le> k \<and> k < unat ofs + length p then p ! (k - unat ofs)
                            else da_byte da k)) \<and>
      unat (lastUsedOffsetExclusive da') = max (unat (lastUsedOffsetExclusive da)) (unat ofs + length p)
    else \<exists>da'. DynamicArray_Write da p ofs = Ok (Some (Errorf ''write to overlapping range''), da') \<and>
      da_data da' = da_data da \<and> lastUsedOffsetExclusive da' = lastUsedOffsetExclusive da"
  using Write_free [OF assms] Write_overlap [OF assms(1,3)] by metis

theorem DynamicArray_Write_exact_witness:
  "\<exists>da'. DynamicArray_Write NewDynamicArray [1, 2] 3 = Ok (None, da') \<and> da_byte da' 4 = 2 \<and> da_byte da' 0 = 0"
proof -
  have "da_byte NewDynamicArray k = 0" "bits_of (bitmap NewDynamicArray) = {}" for k
    by (simp_all add: NewDynamicArray_def da_byte_def bm.marked_new)
  with DynamicArray_Write_exact [OF da_ok_new, of "[1, 2]" 3] show ?thesis by auto
qed

end
