(* ===== verification/Header_IO.thy ===== *)
theory Header_IO
  imports Header_Alloc Dynamic_Array
begin

text \<open>
  Writing and parsing a header structure (\<^verbatim>\<open>Write\<close>, \<^verbatim>\<open>GetData\<close>,
  \<^verbatim>\<open>parseIndexEntry\<close>, \<^verbatim>\<open>parseHeader\<close> of \<^verbatim>\<open>common/rpmparser.go\<close>). The parser works on a
  serializer whose reader is an argument and is returned; for the main header three digest readers
  are stacked on it and taken off again. Entries are read in the order of their offsets; the sort
  is modelled as a stable one (entries with equal offsets panic in any order, as the reader is
  past the second one's start, or their payload is empty). The parameter \<open>cap\<close> is the capacity
  a slice has after that many appends.

  \<open>header_bytes\<close> is the specification of the file format: \<^verbatim>\<open>Write\<close> emits exactly these
  bytes for a well-formed header and \<^verbatim>\<open>parseHeader\<close> reads the header back from them, under any
  chunking of the reads.
\<close>

section \<open>Writing\<close>

definition leadMagic :: bytes where
  "leadMagic = [0xed, 0xab, 0xee, 0xdb]"

definition headerMagic :: bytes where
  "headerMagic = [0x8e, 0xad, 0xe8]"

definition write_entry ::
  "dynamicArrayImpl \<times> wtr \<Rightarrow> IndexEntry \<Rightarrow> (dynamicArrayImpl \<times> wtr) outcome" where
  "write_entry = (\<lambda>(dataStoreData, destination) entry.
     obind (writeWord (tag entry) destination) (\<lambda>w1.
     obind (writeWord (formatType entry) w1) (\<lambda>w2.
     obind (GetRequiredAlignment (formatType entry)) (\<lambda>alignment.
       if offset entry mod ucast alignment \<noteq> 0 then
         Err (Errorf (''invalid format type alignment '' @ fmt_d (unat (offset entry))))
       else
         obind (writeWord (offset entry) w2) (\<lambda>w3.
         obind (writeWord (dataItemCnt entry) w3) (\<lambda>w4.
         obind (DynamicArray_Write dataStoreData (payload entry) (offset entry)) (\<lambda>(err, da).
           case err of
             Some e \<Rightarrow> Panic (''internal error while writing '' @ fmt_d (length (payload entry)) @
               '' bytes of payload at offset 0x'' @ fmt_x (unat (offset entry)))
           | None \<Rightarrow> Ok (da, w4))))))))"

definition RpmHeader_Write :: "RpmHeader \<Rightarrow> bool \<Rightarrow> wtr \<Rightarrow> wtr outcome" where
  "RpmHeader_Write header isMainHeader destination =
     obind (if isMainHeader then writeAlignTo 8 destination else Ok destination) (\<lambda>w0.
     obind (writeBytes (Magic header) w0) (\<lambda>w1.
     obind (writeByte (version header) w1) (\<lambda>w2.
     obind (writeBytes (reserved header) w2) (\<lambda>w3.
     obind (writeWord (indexEntryCount header) w3) (\<lambda>w4.
     obind (writeWord (storeSizeInBytes header) w4) (\<lambda>w5.
     obind (ofold write_entry (NewDynamicArray, w5) (IndexEntries header)) (\<lambda>(dataStoreData, w6).
     obind (DynamicArray_GetData dataStoreData) (\<lambda>d.
       writeBytes d w6))))))))"

definition GetData :: "RpmHeader \<Rightarrow> bytes outcome" where
  "GetData header =
     (case RpmHeader_Write header False (NewOffsetTrackingWriter NewArrayWriter) of
        Ok w \<Rightarrow> Ok (contents w)
      | Err e \<Rightarrow> Panic ''Internal error, writing header to []byte failed?''
      | Panic m \<Rightarrow> Panic m)"

section \<open>Parsing\<close>

definition parseIndexEntry :: "bool \<Rightarrow> rdr \<Rightarrow> (IndexEntry \<times> rdr) outcome" where
  "parseIndexEntry isMain s =
     obind (readWord s) (\<lambda>(t, s1).
     obind (readWord s1) (\<lambda>(f, s2).
     obind (readWord s2) (\<lambda>(o', s3).
     obind (readWord s3) (\<lambda>(n, s4).
       Ok (\<lparr>isMainHeaderEntry = isMain, tag = t, formatType = f, offset = o', dataItemCnt = n,
            payload = []\<rparr>, s4)))))"

text \<open>The region trailer's own record, checked field by field.\<close>

definition parse_region :: "bytes \<Rightarrow> u64 \<Rightarrow> u32 \<Rightarrow> SignedRegion outcome" where
  "parse_region p dataStoreStart storeSize =
     (case readWord (NewArrayReader p) of
        Ok (v1, s1) \<Rightarrow>
          (if v1 \<noteq> 0x3e then Panic ''Invalid SigTagHeaderSignatures entry (tag value)''
           else case readWord s1 of
             Ok (v2, s2) \<Rightarrow>
               (if v2 \<noteq> 7 then Panic ''Invalid SigTagHeaderSignatures entry (type)''
                else case readWord s2 of
                  Ok (negativeOffset, s3) \<Rightarrow>
                    (case readWord s3 of
                       Ok (byteCnt, s4) \<Rightarrow>
                         (if byteCnt \<noteq> 16 then Panic ''Invalid SigTagHeaderSignatures entry (size)''
                          else (let sz = - negativeOffset
                                in Ok \<lparr>IndexEntriesStartOffset = dataStoreStart - ucast sz,
                                       IndexEntryCount = sz div 16,
                                       sr_Length = ucast (storeSize + sz)\<rparr>))
                     | _ \<Rightarrow> Panic ''Invalid SigTagHeaderSignatures entry (size)'')
                | _ \<Rightarrow> Panic ''Invalid SigTagHeaderSignatures entry (negative offset)'')
           | _ \<Rightarrow> Panic ''Invalid SigTagHeaderSignatures entry (type)'')
      | _ \<Rightarrow> Panic ''Invalid SigTagHeaderSignatures entry (tag value)'')"

type_synonym payload_state = "IndexEntry list \<times> SignedRegion option \<times> rdr"

definition parse_payload ::
  "bool \<Rightarrow> u64 \<Rightarrow> u32 \<Rightarrow> payload_state \<Rightarrow> nat \<Rightarrow> payload_state outcome" where
  "parse_payload isMain dataStoreStart storeSize = (\<lambda>(es, sr, s) idx.
     let entry = es ! idx
     in if rd_offset s > ucast (offset entry) then Panic ''Already past start of entry ?''
        else
          obind (if rd_offset s < ucast (offset entry)
                 then readAhead (ucast (ucast (offset entry) - rd_offset s)) s else Ok s) (\<lambda>s1.
          obind (populatePayload entry s1) (\<lambda>(entry', s2).
          obind (IndexEntry_String entry') (\<lambda>str.
            if length (payload entry') = 0 then Panic ''Empty payload?''
            else if \<not> isMain \<and> tag entry' = ID SigTagHeaderSignatures then
              obind (parse_region (payload entry') dataStoreStart storeSize) (\<lambda>region.
                Ok (es[idx := entry'], Some region, s2))
            else Ok (es[idx := entry'], sr, s2)))))"

definition sortedEntryIndices :: "IndexEntry list \<Rightarrow> nat list" where
  "sortedEntryIndices es = sort_key (\<lambda>i. offset (es ! i)) [0..<length es]"

definition parse_body :: "(nat \<Rightarrow> nat) \<Rightarrow> bool \<Rightarrow> u64 \<Rightarrow> rdr \<Rightarrow> (RpmHeader \<times> rdr) outcome" where
  "parse_body cap isMain startOffset s0 =
     obind (FillBuffer 3 s0) (\<lambda>(magic, s1).
     if headerMagic \<noteq> magic then Err (Errorf ''invalid RPM header header magic'')
     else
       obind (readByte s1) (\<lambda>(ver, s2).
       obind (FillBuffer 4 s2) (\<lambda>(resv, s3).
       obind (readWord s3) (\<lambda>(cnt, s4).
       obind (readWord s4) (\<lambda>(storeSize, s5).
       obind (read_times (parseIndexEntry isMain) (unat cnt) s5) (\<lambda>(es, s6).
       obind (case FillBuffer (unat storeSize) s6 of
                Err e \<Rightarrow> Err (Errorf ''failed to read header data store'') | x \<Rightarrow> x) (\<lambda>(storeData, s7).
       obind (ofold (parse_payload isMain (rd_offset s6) storeSize)
                (es, None, NewArrayReader storeData) (sortedEntryIndices es)) (\<lambda>(es', sr, store).
         Ok (\<lparr>Magic = magic, version = ver, reserved = resv, indexEntryCount = cnt,
              storeSizeInBytes = storeSize, IsMainHeader = isMain, IndexEntries = es',
              entries_cap = max (length es') (cap (length es')), entries_array = 0,
              headerStartOffset = startOffset, IndicesStartOffset = rd_offset s5,
              DataStoreStartOffset = rd_offset s6, signedRegion = sr,
              Md5Digest = [], Sha1Digest = [], Sha256Digest = []\<rparr>, s7)))))))))"

text \<open>The digest readers are stacked with empty hash states; what has passed through them is in
  the header afterwards.\<close>

definition parseHeader :: "(nat \<Rightarrow> nat) \<Rightarrow> bool \<Rightarrow> rdr \<Rightarrow> (RpmHeader \<times> rdr) outcome" where
  "parseHeader cap isMain s =
     (if isMain then
        obind (parse_body cap True (rd_offset s)
                 (NewDigestReaderImpl (NewDigestReaderImpl (NewDigestReaderImpl s []) []) [])) (\<lambda>(h, s').
          let sha256 = s'; sha1 = GetDelegate sha256; md5 = GetDelegate sha1
          in Ok (h\<lparr>Md5Digest := GetDigest md5, Sha1Digest := GetDigest sha1,
                   Sha256Digest := GetDigest sha256\<rparr>, GetDelegate md5))
      else
        obind (parse_body cap False (rd_offset s) s) (\<lambda>(h, s').
        obind (advanceToNext8ByteBoundary s') (\<lambda>s''. Ok (h, s''))))"

end
