(* ===== verification/Header_RoundTrip.thy ===== *)
theory Header_RoundTrip
  imports Header_IO
begin

text \<open>
  The header file format and the round trip through it. \<open>header_bytes\<close> is the byte sequence
  of a header: preamble, index, data store. \<^verbatim>\<open>Write\<close> emits exactly these bytes for a storable
  header (its payloads do not overlap, so the writer's internal overlap check never fires), and
  \<^verbatim>\<open>parseHeader\<close> returns a header with the same contents from them. Every consistent signature
  header is storable. The digests the parser computes for the main header cover exactly its bytes.
\<close>


section \<open>Specification of the file format\<close>

definition entry_bytes :: "IndexEntry \<Rightarrow> bytes" where
  "entry_bytes e = be32 (tag e) @ be32 (formatType e) @ be32 (offset e) @ be32 (dataItemCnt e)"

definition covers :: "IndexEntry \<Rightarrow> nat \<Rightarrow> bool" where
  "covers e k \<longleftrightarrow> unat (offset e) \<le> k \<and> k < unat (offset e) + length (payload e)"

fun store_byte :: "IndexEntry list \<Rightarrow> nat \<Rightarrow> u8" where
  "store_byte [] k = 0"
| "store_byte (e # es) k = (if covers e k then payload e ! (k - unat (offset e)) else store_byte es k)"

fun store_end :: "IndexEntry list \<Rightarrow> nat" where
  "store_end [] = 0"
| "store_end (e # es) = max (unat (offset e) + length (payload e)) (store_end es)"

definition store_bytes :: "IndexEntry list \<Rightarrow> bytes" where
  "store_bytes es = map (store_byte es) [0..<store_end es]"

definition preamble_bytes :: "RpmHeader \<Rightarrow> bytes" where
  "preamble_bytes h = Magic h @ [version h] @ reserved h @ be32 (indexEntryCount h) @ be32 (storeSizeInBytes h)"

definition header_bytes :: "RpmHeader \<Rightarrow> bytes" where
  "header_bytes h = preamble_bytes h @ concat (map entry_bytes (IndexEntries h)) @ store_bytes (IndexEntries h)"

definition apart :: "IndexEntry \<Rightarrow> IndexEntry \<Rightarrow> bool" where
  "apart e f \<longleftrightarrow> unat (offset e) + length (payload e) \<le> unat (offset f) \<or>
     unat (offset f) + length (payload f) \<le> unat (offset e)"

text \<open>Headers whose data store can be written: known formats, well-formed, aligned payloads that
  do not overlap and stay below 4 GiB.\<close>

definition storable :: "IndexEntry list \<Rightarrow> bool" where
  "storable es \<longleftrightarrow>
     (\<forall>e\<in>set es. payload_ok e \<and> unat (offset e) mod align_of (formatType e) = 0) \<and>
     sorted_wrt apart es \<and> store_end es < 4294967295"

section \<open>Writing\<close>

lemma store_end_bound: "e \<in> set es \<Longrightarrow> unat (offset e) + length (payload e) \<le> store_end es"
  by (induction es) auto

lemma alignment_check:
  assumes "valid_format (formatType e)" and "unat (offset e) mod align_of (formatType e) = 0"
  obtains a where "GetRequiredAlignment (formatType e) = Ok a" and "offset e mod ucast a = 0"
proof -
  obtain k where k: "k < 4" "GetRequiredAlignment (formatType e) = Ok (2 ^ k)" "align_of (formatType e) = 2 ^ k"
    using GetRequiredAlignment_valid [OF assms(1)] .
  have "k = 0 \<or> k = 1 \<or> k = 2 \<or> k = 3" using k(1) by arith
  then have "unat (ucast (2 ^ k :: u8) :: u32) = 2 ^ k" by (elim disjE) simp_all
  then have "unat (offset e mod ucast (2 ^ k :: u8)) = 0" using assms(2) k(3) by (simp add: unat_mod_distrib)
  then have "offset e mod ucast (2 ^ k :: u8) = 0" by (simp only: unat_eq_0)
  from that [OF k(2) this] show thesis .
qed

definition data_range :: "IndexEntry \<Rightarrow> nat set" where
  "data_range e = {unat (offset e)..<unat (offset e) + length (payload e)}"

lemma covers_range: "covers e k \<longleftrightarrow> k \<in> data_range e"
  by (simp add: covers_def data_range_def)

lemma apart_disjoint: "apart e f \<Longrightarrow> data_range e \<inter> data_range f = {}"
  by (auto simp: apart_def data_range_def)

lemma write_entry_ok:
  assumes "payload_ok e" and "unat (offset e) mod align_of (formatType e) = 0"
    and "da_ok da" and "data_range e \<inter> bits_of (bitmap da) = {}"
    and "unat (offset e) + length (payload e) < 4294967295" and "unlimited w"
  obtains da' w' where "write_entry (da, w) e = Ok (da', w')" and "wrote w (entry_bytes e) w'"
    and "da_ok da'" and "bits_of (bitmap da') = bits_of (bitmap da) \<union> data_range e"
    and "\<And>k. da_byte da' k = (if covers e k then payload e ! (k - unat (offset e)) else da_byte da k)"
    and "unat (lastUsedOffsetExclusive da') =
      max (unat (lastUsedOffsetExclusive da)) (unat (offset e) + length (payload e))"
proof -
  note v = payload_ok_valid [OF assms(1)]
  obtain a where a: "GetRequiredAlignment (formatType e) = Ok a" "offset e mod ucast a = 0"
    using alignment_check [OF _ assms(2)] v by blast
  obtain w1 where w1: "writeWord (tag e) w = Ok w1" "wrote w (be32 (tag e)) w1" "unlimited w1"
    by (rule emitsD [OF word_codec.put_emits assms(6)])
  obtain w2 where w2: "writeWord (formatType e) w1 = Ok w2" "wrote w1 (be32 (formatType e)) w2" "unlimited w2"
    by (rule emitsD [OF word_codec.put_emits w1(3)])
  obtain w3 where w3: "writeWord (offset e) w2 = Ok w3" "wrote w2 (be32 (offset e)) w3" "unlimited w3"
    by (rule emitsD [OF word_codec.put_emits w2(3)])
  obtain w4 where w4: "writeWord (dataItemCnt e) w3 = Ok w4" "wrote w3 (be32 (dataItemCnt e)) w4"
    by (rule emitsD [OF word_codec.put_emits w3(3)])
  have free: "{unat (offset e)..<unat (offset e) + length (payload e)} \<inter> bits_of (bitmap da) = {}"
    using assms(4) by (simp add: data_range_def)
  obtain da' where da': "DynamicArray_Write da (payload e) (offset e) = Ok (None, da')" "da_ok da'"
    "bits_of (bitmap da') = bits_of (bitmap da) \<union> data_range e"
    "\<And>k. da_byte da' k = (if covers e k then payload e ! (k - unat (offset e)) else da_byte da k)"
    "unat (lastUsedOffsetExclusive da') =
      max (unat (lastUsedOffsetExclusive da)) (unat (offset e) + length (payload e))"
    using Write_free [OF assms(3) _ assms(5) free] v unfolding covers_def data_range_def by blast
  have "wrote w (entry_bytes e) w4"
    unfolding entry_bytes_def using wrote_trans w1(2) w2(2) w3(2) w4(2) by blast
  then show thesis
    by (rule that [rotated]) (use da' a w1 w2 w3 w4 in \<open>simp_all add: write_entry_def\<close>)
qed

lemma write_entries_ok:
  assumes "\<forall>e\<in>set es. payload_ok e \<and> unat (offset e) mod align_of (formatType e) = 0"
    and "sorted_wrt apart es" and "store_end es < 4294967295"
    and "da_ok da" and "\<forall>e\<in>set es. data_range e \<inter> bits_of (bitmap da) = {}" and "unlimited w"
  shows "\<exists>da' w'. ofold write_entry (da, w) es = Ok (da', w') \<and>
    wrote w (concat (map entry_bytes es)) w' \<and> da_ok da' \<and>
    (\<forall>k. da_byte da' k = (if \<exists>e\<in>set es. covers e k then store_byte es k else da_byte da k)) \<and>
    unat (lastUsedOffsetExclusive da') = max (unat (lastUsedOffsetExclusive da)) (store_end es)"
  using assms
proof (induction es arbitrary: da w)
  case Nil
  then show ?case by (simp add: wrote_refl)
next
  case (Cons e es)
  obtain da1 w1 where s1: "write_entry (da, w) e = Ok (da1, w1)" "wrote w (entry_bytes e) w1" "da_ok da1"
    "bits_of (bitmap da1) = bits_of (bitmap da) \<union> data_range e"
    "\<And>k. da_byte da1 k = (if covers e k then payload e ! (k - unat (offset e)) else da_byte da k)"
    "unat (lastUsedOffsetExclusive da1) = max (unat (lastUsedOffsetExclusive da)) (unat (offset e) + length (payload e))"
    using write_entry_ok [of e da w] Cons.prems by auto
  have dis: "data_range e \<inter> data_range x = {}" if "x \<in> set es" for x
    using Cons.prems(2) that apart_disjoint by simp
  have "\<forall>x\<in>set es. data_range x \<inter> bits_of (bitmap da1) = {}"
    using dis Cons.prems(5) s1(4) by auto
  moreover have "unlimited w1" using wrote_unlimited [OF s1(2)] Cons.prems(6) by simp
  ultimately obtain da2 w2 where s2: "ofold write_entry (da1, w1) es = Ok (da2, w2)"
    "wrote w1 (concat (map entry_bytes es)) w2" "da_ok da2"
    "\<And>k. da_byte da2 k = (if \<exists>e\<in>set es. covers e k then store_byte es k else da_byte da1 k)"
    "unat (lastUsedOffsetExclusive da2) = max (unat (lastUsedOffsetExclusive da1)) (store_end es)"
    using Cons.IH [of da1 w1] Cons.prems s1(3) by auto
  have "da_byte da2 k = (if \<exists>x\<in>set (e # es). covers x k then store_byte (e # es) k else da_byte da k)" for k
  proof (cases "covers e k")
    case True
    then have "\<not> (\<exists>x\<in>set es. covers x k)" using dis by (auto simp: covers_range)
    with True show ?thesis by (simp add: s1(5) s2(4))
  next
    case False
    then show ?thesis by (auto simp: s1(5) s2(4))
  qed
  with s1 s2 wrote_trans [OF s1(2) s2(2)] show ?case by (auto simp: max.assoc)
qed

lemma store_byte_default: "\<not> (\<exists>e\<in>set es. covers e k) \<Longrightarrow> store_byte es k = 0"
  by (induction es) auto

lemma emits_obind: "emits f a \<Longrightarrow> (\<And>w. unlimited w \<Longrightarrow> \<exists>w'. g w = Ok w' \<and> wrote w b w') \<Longrightarrow> emits (\<lambda>w. obind (f w) g) (a @ b)"
  using emits_bind [of f a g b] by (auto simp: emits_def)

lemma emits_data:
  assumes "storable es"
  shows "emits (\<lambda>w. obind (ofold write_entry (NewDynamicArray, w) es) (\<lambda>(da, w').
    obind (DynamicArray_GetData da) (\<lambda>d. writeBytes d w'))) (concat (map entry_bytes es) @ store_bytes es)"
  unfolding emits_def
proof (intro allI impI)
  fix w assume u: "unlimited w"
  have new: "bits_of (bitmap NewDynamicArray) = {}" "lastUsedOffsetExclusive NewDynamicArray = 0" "da_byte NewDynamicArray k = 0" for k
    by (simp_all add: NewDynamicArray_def bm.marked_new da_byte_def)
  obtain da w1 where s: "ofold write_entry (NewDynamicArray, w) es = Ok (da, w1)"
    "wrote w (concat (map entry_bytes es)) w1" "da_ok da"
    "\<And>k. da_byte da k = (if \<exists>e\<in>set es. covers e k then store_byte es k else 0)"
    "unat (lastUsedOffsetExclusive da) = store_end es"
    using write_entries_ok [OF _ _ _ da_ok_new _ u, of es] assms new unfolding storable_def by auto
  have "da_byte da = store_byte es" using s(4) store_byte_default by (auto simp: fun_eq_iff)
  then have d: "DynamicArray_GetData da = Ok (store_bytes es)"
    using GetData_bytes [OF s(3)] s(5) by (simp add: store_bytes_def)
  have "unlimited w1" using wrote_unlimited [OF s(2)] u by simp
  then obtain w2 where w2: "writeBytes (store_bytes es) w1 = Ok w2" "wrote w1 (store_bytes es) w2"
    by (rule emitsD [OF emits_writeBytes])
  with s(1) d wrote_trans [OF s(2) w2(2)]
  show "\<exists>w'. obind (ofold write_entry (NewDynamicArray, w) es) (\<lambda>(da, w').
    obind (DynamicArray_GetData da) (\<lambda>d. writeBytes d w')) = Ok w' \<and>
    wrote w (concat (map entry_bytes es) @ store_bytes es) w'" by simp
qed

lemma RpmHeader_Write_emits:
  assumes "storable (IndexEntries h)"
  shows "emits (RpmHeader_Write h False) (header_bytes h)"
proof -
  have "header_bytes h = Magic h @ [version h] @ reserved h @ be32 (indexEntryCount h) @
      be32 (storeSizeInBytes h) @ concat (map entry_bytes (IndexEntries h)) @ store_bytes (IndexEntries h)"
    by (simp add: header_bytes_def preamble_bytes_def)
  moreover have "RpmHeader_Write h False = (\<lambda>w.
     obind (writeBytes (Magic h) w) (\<lambda>w1. obind (writeByte (version h) w1) (\<lambda>w2.
     obind (writeBytes (reserved h) w2) (\<lambda>w3. obind (writeWord (indexEntryCount h) w3) (\<lambda>w4.
     obind (writeWord (storeSizeInBytes h) w4) (\<lambda>w5.
     obind (ofold write_entry (NewDynamicArray, w5) (IndexEntries h)) (\<lambda>(da, w6).
     obind (DynamicArray_GetData da) (\<lambda>d. writeBytes d w6))))))))"
    by (simp add: fun_eq_iff RpmHeader_Write_def)
  ultimately show ?thesis
    by (simp only:) (intro emits_bind emits_writeBytes emits_writeByte word_codec.put_emits emits_data assms)
qed

lemma GetData_ok: "storable (IndexEntries h) \<Longrightarrow> GetData h = Ok (header_bytes h)"
proof -
  assume s: "storable (IndexEntries h)"
  let ?w = "NewOffsetTrackingWriter NewArrayWriter"
  have "unlimited ?w" "contents ?w = []" by (simp_all add: NewOffsetTrackingWriter_def NewArrayWriter_def)
  with emitsD [OF RpmHeader_Write_emits [OF s]] obtain w' where
    "RpmHeader_Write h False ?w = Ok w'" "contents w' = header_bytes h" by (metis append_Nil)
  then show ?thesis by (simp add: GetData_def)
qed

section \<open>Parsing\<close>

lemma feeds_array: "feeds (arrayReader src o1) bs r' \<Longrightarrow> r' = arrayReader src (o1 + length bs)"
  by (cases r') auto

lemma readAhead_loop_array:
  "0 < cap \<Longrightarrow> pos + n \<le> length src \<Longrightarrow>
   readAhead_loop cap n (arrayReader src pos) = Ok (0, arrayReader src (pos + n))"
proof (induction n arbitrary: cap pos rule: less_induct)
  case (less n)
  show ?case
  proof (cases "n = 0")
    case True
    then show ?thesis by (simp add: readAhead_loop.simps)
  next
    case False
    define c where "c = (if n < cap then n else cap)"
    have c: "0 < c" "c \<le> n" using False less.prems(1) by (simp_all add: c_def)
    have rd: "rd_read (arrayReader src pos) c = (take c (drop pos src), None, arrayReader src (pos + c))"
      using c less.prems(2) by (simp add: Let_def)
    have "length (take c (drop pos src)) = c" using c less.prems(2) by simp
    moreover have "readAhead_loop c (n - c) (arrayReader src (pos + c)) = Ok (0, arrayReader src (pos + n))"
      using less.IH [of "n - c" c "pos + c"] c less.prems(2) by simp
    ultimately show ?thesis
      using rd False less.prems(1) by (simp add: readAhead_loop.simps [of cap n] c_def [symmetric] Let_def)
  qed
qed

lemma readAhead_array:
  assumes "pos + unat n \<le> length src"
  shows "readAhead n (arrayReader src pos) = Ok (arrayReader src (pos + unat n))"
proof -
  have "FillBuffer (unat n) (arrayReader src pos) = Ok (take (unat n) (drop pos src), arrayReader src (pos + unat n))"
  proof -
    have e: "end_error (arrayReader src pos) = EOF" "unat n \<le> length (rest (arrayReader src pos))"
      using assms by simp_all
    obtain r' where "FillBuffer (unat n) (arrayReader src pos) = Ok (take (unat n) (drop pos src), r')"
      "feeds (arrayReader src pos) (take (unat n) (drop pos src)) r'"
      using FillBuffer_ok [OF e] by auto
    then show ?thesis using feeds_array assms by force
  qed
  moreover have "readAhead_loop scratchBufferSize (unat n) (arrayReader src pos) = Ok (0, arrayReader src (pos + unat n))"
    by (rule readAhead_loop_array [OF _ assms]) (simp add: scratchBufferSize_def)
  ultimately show ?thesis by (cases "n = 0") (simp_all add: readAhead_def)
qed

lemma store_byte_covered:
  "sorted_wrt apart es \<Longrightarrow> e \<in> set es \<Longrightarrow> covers e k \<Longrightarrow> store_byte es k = payload e ! (k - unat (offset e))"
proof (induction es)
  case (Cons x es)
  show ?case
  proof (cases "covers x k")
    case True
    have "x = e"
    proof (rule ccontr)
      assume "x \<noteq> e"
      with Cons.prems(1,2) have "apart x e" by auto
      from apart_disjoint [OF this] True Cons.prems(3) show False by (auto simp: covers_range)
    qed
    with True show ?thesis by simp
  next
    case False
    with Cons show ?thesis by auto
  qed
qed simp

lemma length_store_bytes [simp]: "length (store_bytes es) = store_end es"
  by (simp add: store_bytes_def)

lemma store_bytes_payload:
  assumes "sorted_wrt apart es" and "e \<in> set es"
  shows "drop (unat (offset e)) (store_bytes es) =
    payload e @ drop (unat (offset e) + length (payload e)) (store_bytes es)"
proof -
  let ?o = "unat (offset e)" and ?n = "length (payload e)"
  have le: "?o + ?n \<le> store_end es" using store_end_bound [OF assms(2)] .
  have "take ?n (drop ?o (store_bytes es)) = payload e"
  proof (rule nth_equalityI)
    show "length (take ?n (drop ?o (store_bytes es))) = ?n" using le by simp
    fix i assume "i < length (take ?n (drop ?o (store_bytes es)))"
    then have i: "i < ?n" by simp
    then have "covers e (?o + i)" by (simp add: covers_def)
    with store_byte_covered [OF assms] i le show "take ?n (drop ?o (store_bytes es)) ! i = payload e ! i"
      by (simp add: store_bytes_def)
  qed
  then show ?thesis by (metis append_take_drop_id drop_drop add.commute)
qed

definition region_step :: "bool \<Rightarrow> u64 \<Rightarrow> u32 \<Rightarrow> IndexEntry list \<Rightarrow> SignedRegion option \<Rightarrow> nat \<Rightarrow> SignedRegion option" where
  "region_step isMain ds sz es sr i =
     (if \<not> isMain \<and> tag (es ! i) = ID SigTagHeaderSignatures then
        (case parse_region (payload (es ! i)) ds sz of Ok x \<Rightarrow> Some x | _ \<Rightarrow> None) else sr)"

definition region_readable :: "bool \<Rightarrow> IndexEntry \<Rightarrow> bool" where
  "region_readable isMain e \<longleftrightarrow>
     (\<not> isMain \<and> tag e = ID SigTagHeaderSignatures \<longrightarrow> (\<forall>ds sz. is_ok (parse_region (payload e) ds sz)))"

text \<open>The reader of the data store compares its 64-bit position with 32-bit offsets.\<close>

lemma store_position:
  assumes "pos < 4294967296"
  shows "((of_nat pos :: u64) > ucast (offset e)) = (pos > unat (offset e))"
    and "((of_nat pos :: u64) < ucast (offset e)) = (pos < unat (offset e))"
    and "pos \<le> unat (offset e) \<Longrightarrow> unat (ucast (ucast (offset e) - of_nat pos :: u64) :: u32) = unat (offset e) - pos"
proof -
  have o32: "unat (offset e) < 4294967296" by (rule unat_lt_u32)
  have uo: "unat (ucast (offset e) :: u64) = unat (offset e)"
    using o32 by (simp add: unsigned_ucast_eq take_bit_nat_eq_self_iff)
  have up: "unat (of_nat pos :: u64) = pos" using assms by (intro unat_of_nat_u64) simp
  show "((of_nat pos :: u64) > ucast (offset e)) = (pos > unat (offset e))"
    "((of_nat pos :: u64) < ucast (offset e)) = (pos < unat (offset e))"
    by (simp_all add: word_less_nat_alt uo up)
  assume "pos \<le> unat (offset e)"
  then have "unat (ucast (offset e) - of_nat pos :: u64) = unat (offset e) - pos"
    using unat_minus_le [of "of_nat pos :: u64" "ucast (offset e)"] uo up by simp
  then show "unat (ucast (ucast (offset e) - of_nat pos :: u64) :: u32) = unat (offset e) - pos"
    using o32 by (simp add: unsigned_ucast_eq take_bit_nat_eq_self_iff)
qed

lemma parse_payload_ok:
  assumes st: "storable es" and i: "i < length es" and len: "length cur = length es"
    and cur: "cur ! i = (es ! i)\<lparr>payload := []\<rparr>" and pos: "pos \<le> unat (offset (es ! i))"
    and reg: "region_readable isMain (es ! i)"
  shows "parse_payload isMain ds sz (cur, sr, arrayReader (store_bytes es) pos) i =
    Ok (cur[i := es ! i], region_step isMain ds sz es sr i,
      arrayReader (store_bytes es) (unat (offset (es ! i)) + length (payload (es ! i))))"
proof -
  let ?e = "es ! i" and ?D = "store_bytes es"
  let ?o = "unat (offset ?e)"
  have mem: "?e \<in> set es" using i by simp
  have ap: "sorted_wrt apart es" and ok: "payload_ok ?e" and se: "store_end es < 4294967295"
    using st mem by (auto simp: storable_def)
  have "pos < 4294967296" using pos unat_lt_u32 [of "offset ?e"] by simp
  note cmp = store_position(1,2) [OF this, of ?e] and skip = store_position(3) [OF this pos]
  have le: "?o + length (payload ?e) \<le> store_end es" using store_end_bound [OF mem] .
  have s1: "readAhead (ucast (ucast (offset ?e) - of_nat pos :: u64)) (arrayReader ?D pos) = Ok (arrayReader ?D ?o)"
    using readAhead_array [of pos "ucast (ucast (offset ?e) - of_nat pos :: u64)" ?D] skip le pos by simp
  have "end_error (arrayReader ?D ?o) = EOF" by simp
  moreover have "rest (arrayReader ?D ?o) = payload ?e @ drop (?o + length (payload ?e)) ?D"
    using store_bytes_payload [OF ap mem] by simp
  ultimately obtain r' where r': "populatePayload (?e\<lparr>payload := []\<rparr>) (arrayReader ?D ?o) = Ok (?e, r')"
    "feeds (arrayReader ?D ?o) (payload ?e) r'"
    by (rule readsD [OF populatePayload_reads [OF ok]])
  have r'_eq: "r' = arrayReader ?D (?o + length (payload ?e))" using feeds_array [OF r'(2)] .
  obtain str where str: "IndexEntry_String ?e = Ok str"
    using IndexEntry_String_ok [OF ok] by (auto simp: is_ok_iff)
  have ne: "payload ?e \<noteq> []" using payload_ok_valid [OF ok] by simp
  show ?thesis
  proof (cases "\<not> isMain \<and> tag ?e = ID SigTagHeaderSignatures")
    case True
    then obtain x where "parse_region (payload ?e) ds sz = Ok x"
      using reg by (auto simp: region_readable_def is_ok_iff)
    with True cur cmp s1 r'(1) r'_eq str ne pos show ?thesis
      by (cases "pos < ?o") (simp_all add: parse_payload_def Let_def region_step_def)
  next
    case False
    with cur cmp s1 r'(1) r'_eq str ne pos show ?thesis
      by (cases "pos < ?o") (auto simp: parse_payload_def Let_def region_step_def)
  qed
qed

lemma parse_payloads_ok:
  assumes st: "storable es"
  shows "\<lbrakk>distinct idxs; set idxs \<subseteq> {..<length es}; length cur = length es;
    \<forall>i\<in>set idxs. cur ! i = (es ! i)\<lparr>payload := []\<rparr> \<and> pos \<le> unat (offset (es ! i)) \<and> region_readable isMain (es ! i);
    sorted_wrt (\<lambda>i j. unat (offset (es ! i)) + length (payload (es ! i)) \<le> unat (offset (es ! j))) idxs\<rbrakk> \<Longrightarrow>
    \<exists>cur' s'. ofold (parse_payload isMain ds sz) (cur, sr, arrayReader (store_bytes es) pos) idxs =
      Ok (cur', foldl (region_step isMain ds sz es) sr idxs, s') \<and>
      length cur' = length es \<and> (\<forall>i<length es. cur' ! i = (if i \<in> set idxs then es ! i else cur ! i))"
proof (induction idxs arbitrary: cur sr pos)
  case Nil
  then show ?case by simp
next
  case (Cons i idxs)
  have i: "i < length es" using Cons.prems(2) by simp
  have step: "parse_payload isMain ds sz (cur, sr, arrayReader (store_bytes es) pos) i =
    Ok (cur[i := es ! i], region_step isMain ds sz es sr i,
      arrayReader (store_bytes es) (unat (offset (es ! i)) + length (payload (es ! i))))"
    using parse_payload_ok [OF st i] Cons.prems by simp
  have "\<forall>j\<in>set idxs. (cur[i := es ! i]) ! j = (es ! j)\<lparr>payload := []\<rparr> \<and>
      unat (offset (es ! i)) + length (payload (es ! i)) \<le> unat (offset (es ! j)) \<and> region_readable isMain (es ! j)"
    using Cons.prems by (auto simp: nth_list_update)
  then obtain cur' s' where "ofold (parse_payload isMain ds sz) (cur[i := es ! i], region_step isMain ds sz es sr i,
      arrayReader (store_bytes es) (unat (offset (es ! i)) + length (payload (es ! i)))) idxs =
      Ok (cur', foldl (region_step isMain ds sz es) (region_step isMain ds sz es sr i) idxs, s')"
    "length cur' = length es" "\<forall>j<length es. cur' ! j = (if j \<in> set idxs then es ! j else cur[i := es ! i] ! j)"
    using Cons.IH [of "cur[i := es ! i]" "unat (offset (es ! i)) + length (payload (es ! i))"
        "region_step isMain ds sz es sr i"] Cons.prems by auto
  with step Cons.prems i show ?case by (auto simp: nth_list_update)
qed

subsection \<open>The order of the entries\<close>

lemma sorted_indices_apart:
  assumes st: "storable es" and cur: "length cur = length es" "\<forall>i<length es. offset (cur ! i) = offset (es ! i)"
  shows "sorted_wrt (\<lambda>i j. unat (offset (es ! i)) + length (payload (es ! i)) \<le> unat (offset (es ! j)))
    (sortedEntryIndices cur)"
proof -
  let ?xs = "sortedEntryIndices cur"
  have xs: "set ?xs = {..<length es}" "distinct ?xs" using cur(1) by (auto simp: sortedEntryIndices_def)
  have "sorted (map (\<lambda>i. offset (cur ! i)) ?xs)" unfolding sortedEntryIndices_def by (rule sorted_sort_key)
  then have ord: "sorted_wrt (\<lambda>i j. offset (cur ! i) \<le> offset (cur ! j)) ?xs" by (simp add: sorted_map)
  have key: "unat (offset (es ! i)) + length (payload (es ! i)) \<le> unat (offset (es ! j))"
    if i: "i < length es" and j: "j < length es" and ij: "i \<noteq> j" and le: "offset (cur ! i) \<le> offset (cur ! j)" for i j
  proof -
    have le': "unat (offset (es ! i)) \<le> unat (offset (es ! j))"
      using le cur(2) i j by (simp add: word_le_nat_alt)
    have ap: "apart (es ! i) (es ! j)"
    proof (cases "i < j")
      case True
      then show ?thesis using st j by (simp add: storable_def sorted_wrt_iff_nth_less)
    next
      case False
      then have "apart (es ! j) (es ! i)" using st i ij by (simp add: storable_def sorted_wrt_iff_nth_less)
      then show ?thesis by (auto simp: apart_def)
    qed
    have "payload (es ! j) \<noteq> []" using st j payload_ok_valid by (auto simp: storable_def)
    then have "0 < length (payload (es ! j))" by simp
    with ap le' show ?thesis by (auto simp: apart_def)
  qed
  show ?thesis
    unfolding sorted_wrt_iff_nth_less
  proof (intro allI impI)
    fix a b assume ab: "a < b" "b < length ?xs"
    then have "?xs ! a \<in> set ?xs" "?xs ! b \<in> set ?xs" by simp_all
    then have m: "?xs ! a < length es" "?xs ! b < length es" unfolding xs(1) by simp_all
    have "?xs ! a \<noteq> ?xs ! b" using ab xs(2) nth_eq_iff_index_eq [of ?xs a b] by simp
    moreover have "offset (cur ! (?xs ! a)) \<le> offset (cur ! (?xs ! b))"
      using ord ab by (simp add: sorted_wrt_iff_nth_less)
    ultimately show "unat (offset (es ! (?xs ! a))) + length (payload (es ! (?xs ! a))) \<le> unat (offset (es ! (?xs ! b)))"
      using key [OF m] by simp
  qed
qed

subsection \<open>The whole header\<close>

definition strip :: "IndexEntry \<Rightarrow> IndexEntry" where
  "strip e = e\<lparr>payload := []\<rparr>"

definition header_wf :: "RpmHeader \<Rightarrow> bool" where
  "header_wf h \<longleftrightarrow>
     storable (IndexEntries h) \<and> unat (indexEntryCount h) = length (IndexEntries h) \<and>
     unat (storeSizeInBytes h) = store_end (IndexEntries h) \<and>
     Magic h = headerMagic \<and> length (reserved h) = 4 \<and>
     (\<forall>e\<in>set (IndexEntries h). isMainHeaderEntry e = IsMainHeader h \<and> region_readable (IsMainHeader h) e)"

definition same_file :: "RpmHeader \<Rightarrow> RpmHeader \<Rightarrow> bool" where
  "same_file h h' \<longleftrightarrow>
     Magic h' = Magic h \<and> version h' = version h \<and> reserved h' = reserved h \<and>
     indexEntryCount h' = indexEntryCount h \<and> storeSizeInBytes h' = storeSizeInBytes h \<and>
     IsMainHeader h' = IsMainHeader h \<and> IndexEntries h' = IndexEntries h"

lemma parseIndexEntry_reads:
  assumes "isMainHeaderEntry e = isMain"
  shows "reads (parseIndexEntry isMain) (strip e) (entry_bytes e)"
proof -
  let ?mk = "\<lambda>t f o' n. \<lparr>isMainHeaderEntry = isMain, tag = t, formatType = f, offset = o', dataItemCnt = n, payload = []\<rparr>"
  have e: "strip e = ?mk (tag e) (formatType e) (offset e) (dataItemCnt e)"
    using assms by (simp add: strip_def)
  show ?thesis
    unfolding parseIndexEntry_def [abs_def] entry_bytes_def
    by (intro reads_bind [OF word_codec.get_reads] reads_map [OF word_codec.get_reads, where h = "?mk _ _ _"]) (simp add: e)
qed

lemma entry_bytes_strip [simp]: "entry_bytes (strip e) = entry_bytes e"
  by (simp add: strip_def entry_bytes_def)

lemma parse_entries_reads:
  assumes "\<forall>e\<in>set es. isMainHeaderEntry e = isMain"
  shows "reads (read_times (parseIndexEntry isMain) (length es)) (map strip es) (concat (map entry_bytes es))"
proof -
  have "reads (parseIndexEntry isMain) x (entry_bytes x)" if "x \<in> set (map strip es)" for x
    using that parseIndexEntry_reads [of x isMain] assms by (auto simp: strip_def)
  from reads_times [of "map strip es", OF this] show ?thesis by (simp add: comp_def)
qed

text \<open>What the parser makes of a well-formed header's bytes.\<close>

lemma preamble_read:
  assumes magic: "Magic h = headerMagic" and res: "length (reserved h) = 4"
    and r: "end_error r = EOF" "rest r = preamble_bytes h @ left"
  obtains r1 r2 r3 r4 r5 where "FillBuffer 3 r = Ok (Magic h, r1)" and "readByte r1 = Ok (version h, r2)"
    and "FillBuffer 4 r2 = Ok (reserved h, r3)" and "readWord r3 = Ok (indexEntryCount h, r4)"
    and "readWord r4 = Ok (storeSizeInBytes h, r5)" and "feeds r (preamble_bytes h) r5"
    and "end_error r5 = EOF" and "rest r5 = left"
proof -
  obtain r1 where r1: "FillBuffer 3 r = Ok (Magic h, r1)" "feeds r (Magic h) r1"
      "rest r1 = [version h] @ reserved h @ be32 (indexEntryCount h) @ be32 (storeSizeInBytes h) @ left"
      "end_error r1 = EOF"
    using readsD [OF reads_FillBuffer [of "Magic h" 3] r(1)] r(2) magic
    by (auto simp: headerMagic_def preamble_bytes_def)
  obtain r2 where r2: "readByte r1 = Ok (version h, r2)" "feeds r1 [version h] r2"
      "rest r2 = reserved h @ be32 (indexEntryCount h) @ be32 (storeSizeInBytes h) @ left" "end_error r2 = EOF"
    using readsD [OF byte_codec.get_reads r1(4,3)] by metis
  obtain r3 where r3: "FillBuffer 4 r2 = Ok (reserved h, r3)" "feeds r2 (reserved h) r3"
      "rest r3 = be32 (indexEntryCount h) @ be32 (storeSizeInBytes h) @ left" "end_error r3 = EOF"
    using readsD [OF reads_FillBuffer [OF res] r2(4,3)] by metis
  obtain r4 where r4: "readWord r3 = Ok (indexEntryCount h, r4)" "feeds r3 (be32 (indexEntryCount h)) r4"
      "rest r4 = be32 (storeSizeInBytes h) @ left" "end_error r4 = EOF"
    using readsD [OF word_codec.get_reads r3(4,3)] by metis
  obtain r5 where r5: "readWord r4 = Ok (storeSizeInBytes h, r5)" "feeds r4 (be32 (storeSizeInBytes h)) r5"
      "rest r5 = left" "end_error r5 = EOF"
    using readsD [OF word_codec.get_reads r4(4,3)] by metis
  have "feeds r (preamble_bytes h) r5"
    unfolding preamble_bytes_def
    by (intro feeds_trans [OF r1(2)] feeds_trans [OF r2(2)] feeds_trans [OF r3(2)] feeds_trans [OF r4(2)] r5(2))
  from that [OF r1(1) r2(1) r3(1) r4(1) r5(1) this r5(4,3)] show thesis .
qed

lemma index_bytes_length:
  assumes "Magic h = headerMagic" and "length (reserved h) = 4"
  shows "length (preamble_bytes h @ concat (map entry_bytes es)) = 16 + 16 * length es"
proof -
  have "length (concat (map entry_bytes es)) = 16 * length es"
    by (induction es) (simp_all add: entry_bytes_def word_codec.enc_width)
  then show ?thesis using assms by (simp add: preamble_bytes_def word_codec.enc_width headerMagic_def)
qed

lemma parse_store_ok:
  fixes es :: "IndexEntry list"
  assumes st: "storable es" and reg: "\<forall>e\<in>set es. region_readable m e"
  defines "idxs \<equiv> sortedEntryIndices (map strip es)"
  obtains s' where "ofold (parse_payload m base sz) (map strip es, None, arrayReader (store_bytes es) 0) idxs =
      Ok (es, foldl (region_step m base sz es) None idxs, s')"
proof -
  have idx: "distinct idxs" "set idxs = {..<length es}" by (auto simp: idxs_def sortedEntryIndices_def)
  have srt: "sorted_wrt (\<lambda>i j. unat (offset (es ! i)) + length (payload (es ! i)) \<le> unat (offset (es ! j))) idxs"
    unfolding idxs_def by (rule sorted_indices_apart [OF st]) (simp_all add: strip_def)
  have pre: "\<forall>i\<in>set idxs. map strip es ! i = (es ! i)\<lparr>payload := []\<rparr> \<and> 0 \<le> unat (offset (es ! i)) \<and> region_readable m (es ! i)"
    using idx(2) reg by (simp add: strip_def)
  obtain cur' s' where pp: "ofold (parse_payload m base sz) (map strip es, None, arrayReader (store_bytes es) 0) idxs =
      Ok (cur', foldl (region_step m base sz es) None idxs, s')"
    "length cur' = length es" "\<forall>i<length es. cur' ! i = (if i \<in> set idxs then es ! i else map strip es ! i)"
    using parse_payloads_ok [OF st idx(1) _ _ pre srt, of base sz None] idx(2) by auto
  have "cur' = es" using pp(2,3) idx(2) by (auto intro: nth_equalityI)
  with pp(1) that show thesis by simp
qed

lemma parse_body_ok:
  assumes wf: "header_wf h" and r: "end_error r = EOF" "rest r = header_bytes h @ left"
  obtains h' r' where "parse_body cap (IsMainHeader h) start r = Ok (h', r')"
    and "feeds r (header_bytes h) r'" and "same_file h h'" and "headerStartOffset h' = start"
    and "signedRegion h' = foldl (region_step (IsMainHeader h) (DataStoreStartOffset h') (storeSizeInBytes h) (IndexEntries h))
      None (sortedEntryIndices (map strip (IndexEntries h)))"
    and "has_offset r \<Longrightarrow> DataStoreStartOffset h' = rd_offset r + of_nat (16 + 16 * length (IndexEntries h))"
    and "length (IndexEntries h') \<le> entries_cap h'"
proof -
  let ?es = "IndexEntries h" and ?m = "IsMainHeader h"
  have st: "storable ?es" and cnt: "unat (indexEntryCount h) = length ?es"
    and sz: "unat (storeSizeInBytes h) = length (store_bytes ?es)"
    and magic: "Magic h = headerMagic" and res: "length (reserved h) = 4"
    and main: "\<forall>e\<in>set ?es. isMainHeaderEntry e = ?m" and reg: "\<forall>e\<in>set ?es. region_readable ?m e"
    using wf by (auto simp: header_wf_def)
  have hb: "header_bytes h = preamble_bytes h @ concat (map entry_bytes ?es) @ store_bytes ?es"
    by (simp add: header_bytes_def)
  obtain r1 r2 r3 r4 r5 where pr: "FillBuffer 3 r = Ok (Magic h, r1)" "readByte r1 = Ok (version h, r2)"
    "FillBuffer 4 r2 = Ok (reserved h, r3)" "readWord r3 = Ok (indexEntryCount h, r4)"
    "readWord r4 = Ok (storeSizeInBytes h, r5)"
    and r5: "feeds r (preamble_bytes h) r5" "end_error r5 = EOF"
      "rest r5 = concat (map entry_bytes ?es) @ store_bytes ?es @ left"
    using preamble_read [OF magic res r(1) r(2) [unfolded hb append_assoc]] .
  obtain r6 where r6: "read_times (parseIndexEntry ?m) (unat (indexEntryCount h)) r5 = Ok (map strip ?es, r6)"
      "feeds r5 (concat (map entry_bytes ?es)) r6" "rest r6 = store_bytes ?es @ left" "end_error r6 = EOF"
    using readsD [OF parse_entries_reads [OF main] r5(2,3)] cnt by metis
  obtain r7 where r7: "FillBuffer (unat (storeSizeInBytes h)) r6 = Ok (store_bytes ?es, r7)"
      "feeds r6 (store_bytes ?es) r7"
    using readsD [OF reads_FillBuffer [OF sz [symmetric]] r6(4,3)] by metis
  let ?idxs = "sortedEntryIndices (map strip ?es)"
  obtain s' where pp: "ofold (parse_payload ?m (rd_offset r6) (storeSizeInBytes h))
      (map strip ?es, None, arrayReader (store_bytes ?es) 0) ?idxs =
      Ok (?es, foldl (region_step ?m (rd_offset r6) (storeSizeInBytes h) ?es) None ?idxs, s')"
    using parse_store_ok [OF st reg] .
  have fr: "feeds r (header_bytes h) r7"
    unfolding hb by (intro feeds_trans [OF r5(1)] feeds_trans [OF r6(2)] r7(2))
  have off: "has_offset r \<Longrightarrow> rd_offset r6 = rd_offset r + of_nat (16 + 16 * length ?es)"
    using feeds_offset [OF feeds_trans [OF r5(1) r6(2)]] index_bytes_length [OF magic res, of ?es] by metis
  define h' where "h' = \<lparr>Magic = Magic h, version = version h, reserved = reserved h,
    indexEntryCount = indexEntryCount h, storeSizeInBytes = storeSizeInBytes h, IsMainHeader = ?m,
    IndexEntries = ?es, entries_cap = max (length ?es) (cap (length ?es)), entries_array = 0,
    headerStartOffset = start, IndicesStartOffset = rd_offset r5, DataStoreStartOffset = rd_offset r6,
    signedRegion = foldl (region_step ?m (rd_offset r6) (storeSizeInBytes h) ?es) None ?idxs,
    Md5Digest = [], Sha1Digest = [], Sha256Digest = []\<rparr>"
  have pb: "parse_body cap ?m start r = Ok (h', r7)"
    using pr r6(1) r7(1) pp magic by (simp add: parse_body_def NewArrayReader_def h'_def)
  show thesis
    by (rule that [OF pb fr]) (use off in \<open>simp_all add: h'_def same_file_def\<close>)
qed

section \<open>Consistent signature headers can be written and parsed\<close>

lemma others_eq: "t < length es \<Longrightarrow> others (Some t) 0 es = take t es @ drop (Suc t) es"
proof -
  have "i \<le> t \<Longrightarrow> t - i < length es \<Longrightarrow>
      others (Some t) i es = take (t - i) es @ drop (Suc (t - i)) es" for i
  proof (induction es arbitrary: i)
    case (Cons x es)
    show ?case
    proof (cases "i = t")
      case False
      with Cons.prems have "Suc i \<le> t" "t - i = Suc (t - Suc i)" by auto
      with Cons.IH [of "Suc i"] Cons.prems False show ?thesis by simp
    qed (simp add: others_beyond)
  qed simp
  from this [of 0] show "t < length es \<Longrightarrow> ?thesis" by simp
qed

lemma apart_commute: "apart e f = apart f e"
  by (auto simp: apart_def)

lemma store_end_append: "store_end (es @ fs) = max (store_end es) (store_end fs)"
  by (induction es) auto

lemma data_order_perm:
  assumes "sorted_wrt apart (data_order h)"
  shows "sorted_wrt apart (IndexEntries h)" and "store_end (data_order h) = store_end (IndexEntries h)"
proof -
  let ?es = "IndexEntries h"
  have "sorted_wrt apart ?es \<and> store_end (data_order h) = store_end ?es"
  proof (cases "regionTrailerEntry h")
    case None
    then show ?thesis using assms by (simp add: data_order_def candidates_def)
  next
    case (Some t)
    have t: "t < length ?es" using regionTrailer_bound [OF Some] .
    have d: "data_order h = take t ?es @ drop (Suc t) ?es @ [?es ! t]"
      using Some others_eq [OF t] by (simp add: data_order_def candidates_def)
    have es: "?es = take t ?es @ ?es ! t # drop (Suc t) ?es" using t by (rule id_take_nth_drop)
    have "sorted_wrt apart (take t ?es @ ?es ! t # drop (Suc t) ?es)"
      using assms unfolding d sorted_wrt_append by (auto simp: apart_commute)
    moreover have "store_end (take t ?es @ ?es ! t # drop (Suc t) ?es) = store_end (data_order h)"
      by (simp add: d store_end_append max.assoc max.commute max.left_commute)
    ultimately show ?thesis using es by metis
  qed
  then show "sorted_wrt apart ?es" "store_end (data_order h) = store_end ?es" by blast+
qed

lemma packed_store_end: "packed n es m \<Longrightarrow> es \<noteq> [] \<Longrightarrow> store_end es = m"
proof (induction es arbitrary: n)
  case (Cons e es)
  then have p: "packed (unat (offset e) + length (payload e)) es m" by auto
  show ?case
  proof (cases "es = []")
    case False
    with Cons.IH [OF p] packed_mono [OF p] show ?thesis by simp
  qed (use p in simp)
qed simp

lemma packed_slack: "packed n es m \<Longrightarrow> m + 9 * length es \<le> n + weight es"
proof (induction es arbitrary: n)
  case (Cons e es)
  have "pad_to (align_of (formatType e)) n < align_of (formatType e)"
    by (rule pad_to_less) (rule align_of_bounds)
  with align_of_bounds(2) [of "formatType e"] have "pad_to (align_of (formatType e)) n < 8" by simp
  with Cons.IH [of "unat (offset e) + length (payload e)"] Cons.prems show ?case by auto
qed simp

lemma consistent_storable:
  assumes "consistent h"
  shows "storable (IndexEntries h)" and "unat (storeSizeInBytes h) = store_end (IndexEntries h)"
proof -
  let ?es = "IndexEntries h"
  have p: "packed 0 (data_order h) (unat (storeSizeInBytes h))" and ok: "entries_ok ?es"
    using assms by (simp_all add: consistent_def sig_shape_def)
  have "sorted_wrt apart (data_order h)"
    using packed_ordered [OF p] by (rule sorted_wrt_mono_rel [rotated]) (simp add: apart_def)
  note d = data_order_perm [OF this]
  have se: "store_end ?es = unat (storeSizeInBytes h)"
  proof (cases "data_order h = []")
    case True
    then have "?es = []" using set_data_order [of h] by simp
    with True p show ?thesis by simp
  next
    case False
    with packed_store_end [OF p] d(2) show ?thesis by simp
  qed
  then show "unat (storeSizeInBytes h) = store_end ?es" by simp
  have "unat (storeSizeInBytes h) < 4294967295"
  proof (cases "data_order h")
    case Nil
    with p show ?thesis by simp
  next
    case (Cons a list)
    then have "0 < length (data_order h)" by simp
    moreover have "weight (IndexEntries h) < 4294967296" using ok by (simp add: entries_ok_def)
    ultimately show ?thesis using packed_slack [OF p] weight_data_order [of h] by linarith
  qed
  then show "storable ?es"
    using ok packed_aligned [OF p] set_data_order [of h] d(1) se by (auto simp: storable_def entries_ok_def)
qed

lemma parse_region_ok:
  assumes "length p = 16" and "take 8 p = be32 0x3e @ be32 7" and "drop 12 p = be32 16"
    and neg: "take 4 (drop 8 p) = be32 n"
  shows "parse_region p ds sz = Ok \<lparr>IndexEntriesStartOffset = ds - ucast (- n),
    IndexEntryCount = - n div 16, sr_Length = ucast (sz + - n)\<rparr>"
proof -
  have "p = take 8 p @ take 4 (drop 8 p) @ drop 12 p"
    using append_take_drop_id [of 8 p] append_take_drop_id [of 4 "drop 8 p"] by simp
  then have p: "p = be32 0x3e @ be32 7 @ be32 n @ be32 16" using assms by simp
  obtain s1 where s1: "readWord (NewArrayReader p) = Ok (0x3e, s1)" "rest s1 = be32 7 @ be32 n @ be32 16" "end_error s1 = EOF"
    using readsD [OF word_codec.get_reads, of "NewArrayReader p" "0x3e" "be32 7 @ be32 n @ be32 16"] p
    by (auto simp: NewArrayReader_def)
  obtain s2 where s2: "readWord s1 = Ok (7, s2)" "rest s2 = be32 n @ be32 16" "end_error s2 = EOF"
    using readsD [OF word_codec.get_reads s1(3,2)] by metis
  obtain s3 where s3: "readWord s2 = Ok (n, s3)" "rest s3 = be32 16 @ []" "end_error s3 = EOF"
    using readsD [OF word_codec.get_reads s2(3,2)] by (metis append_Nil2)
  obtain s4 where s4: "readWord s3 = Ok (16, s4)"
    using readsD [OF word_codec.get_reads s3(3,2)] by metis
  show ?thesis using s1(1) s2(1) s3(1) s4 by (simp add: parse_region_def Let_def)
qed

lemma trailer_readable:
  assumes "trailer_record p"
  shows "is_ok (parse_region p ds sz)"
proof -
  define q where "q = take 4 (drop 8 p)"
  have "length q = Suc (Suc (Suc (Suc 0)))" using assms by (simp add: trailer_record_def q_def)
  then obtain a b c d where abcd: "take 4 (drop 8 p) = [a, b, c, d]"
    unfolding q_def [symmetric] by (auto simp: length_Suc_conv)
  have "\<exists>n :: u32. be32 n = [a, b, c, d]"
  proof
    show "be32 (push_bit 24 (ucast a) OR push_bit 16 (ucast b) OR push_bit 8 (ucast c) OR ucast d) = [a, b, c, d]"
      unfolding be32_bytes by (simp, intro conjI; rule bit_word_eqI) (auto simp: bit_simps dest: bit_imp_le_length)
  qed
  then obtain n where "take 4 (drop 8 p) = be32 n" using abcd by metis
  from parse_region_ok [OF _ _ _ this] assms show ?thesis by (simp add: trailer_record_def)
qed

definition file_fields :: "RpmHeader \<Rightarrow> bool" where
  "file_fields h \<longleftrightarrow> Magic h = headerMagic \<and> length (reserved h) = 4"

lemma consistent_header_wf:
  assumes "consistent h" and "file_fields h"
  shows "header_wf h"
proof -
  have ok: "entries_ok (IndexEntries h)" "\<not> IsMainHeader h" "counted h"
    using assms(1) by (simp_all add: consistent_def sig_shape_def)
  have "isMainHeaderEntry e = IsMainHeader h \<and> region_readable (IsMainHeader h) e"
    if "e \<in> set (IndexEntries h)" for e
    using ok that trailer_readable by (auto simp: region_readable_def entries_ok_def)
  with consistent_storable [OF assms(1)] assms(2) ok(3) show ?thesis
    by (simp add: header_wf_def file_fields_def counted_def)
qed

section \<open>Parsing what was written\<close>

lemma region_foldl_none:
  "\<forall>i\<in>set idxs. isMain \<or> tag (es ! i) \<noteq> ID SigTagHeaderSignatures \<Longrightarrow>
   foldl (region_step isMain ds sz es) sr idxs = sr"
  by (induction idxs arbitrary: sr) (auto simp: region_step_def)

text \<open>The region the parser reports for a signature header.\<close>

lemma region_foldl_some:
  assumes "i \<in> set idxs" and "distinct idxs" and "tag (es ! i) = ID SigTagHeaderSignatures"
    and "\<forall>j\<in>set idxs. tag (es ! j) = ID SigTagHeaderSignatures \<longrightarrow> j = i"
    and "parse_region (payload (es ! i)) ds sz = Ok x"
  shows "foldl (region_step False ds sz es) sr idxs = Some x"
proof -
  obtain as bs where idxs: "idxs = as @ i # bs" using split_list [OF assms(1)] by blast
  have "i \<notin> set bs" using assms(2) idxs by simp
  moreover have "set bs \<subseteq> set idxs" using idxs by auto
  ultimately have "\<forall>j\<in>set bs. False \<or> tag (es ! j) \<noteq> ID SigTagHeaderSignatures" using assms(4) by blast
  from region_foldl_none [OF this] have "foldl (region_step False ds sz es) (Some x) bs = Some x" .
  then show ?thesis using assms(3,5) by (simp add: idxs region_step_def)
qed

lemma advance_ok:
  assumes "end_error r = EOF" and "pad_to 8 (unat (rd_offset r)) \<le> length (rest r)"
  obtains r' where "advanceToNext8ByteBoundary r = Ok r'"
    and "feeds r (take (pad_to 8 (unat (rd_offset r))) (rest r)) r'"
proof -
  define q where "q = pad_to 8 (unat (rd_offset r))"
  have q: "q \<le> 7" using pad_to_less [of 8 "unat (rd_offset r)"] by (simp add: q_def)
  have c: "CalcAlignmentByteCount (rd_offset r) 8 = Ok (of_nat q)"
    using CalcAlignmentByteCount_power [of 3 "rd_offset r"] by (simp add: q_def)
  have uq: "unat (of_nat q :: u8) = q" using q by (simp add: unsigned_of_nat take_bit_nat_eq_self_iff)
  have uq32: "unat (ucast (of_nat q :: u8) :: u32) = q"
    unfolding unsigned_ucast_eq uq using q by (simp add: take_bit_nat_eq_self_iff)
  show thesis
  proof (cases "q = 0")
    case True
    have "advanceToNext8ByteBoundary r = Ok r" unfolding advanceToNext8ByteBoundary_def c using True by simp
    moreover have "feeds r (take (pad_to 8 (unat (rd_offset r))) (rest r)) r"
      unfolding q_def [symmetric] True by (simp add: feeds_refl)
    ultimately show thesis by (rule that)
  next
    case False
    then have "(of_nat q :: u8) \<noteq> 0" using uq by (metis unat_0)
    moreover have n0: "(ucast (of_nat q :: u8) :: u32) \<noteq> 0" using uq32 False by (metis unat_0)
    moreover have le: "q \<le> length (rest r)" using assms(2) by (simp add: q_def)
    ultimately obtain r' where "FillBuffer q r = Ok (take q (rest r), r')" "feeds r (take q (rest r)) r'"
      using FillBuffer_ok [OF assms(1) le] by blast
    moreover have "readAhead (ucast (of_nat q :: u8)) r = Ok r'"
      unfolding readAhead_def uq32 using calculation n0 q by (simp add: scratchBufferSize_def)
    then have "advanceToNext8ByteBoundary r = Ok r'"
      unfolding advanceToNext8ByteBoundary_def c using \<open>(of_nat q :: u8) \<noteq> 0\<close> by simp
    ultimately show thesis using that unfolding q_def [symmetric] by blast
  qed
qed

lemma parse_main_header_ok:
  assumes wf: "header_wf h" and main: "IsMainHeader h"
    and r: "end_error r = EOF" "rest r = header_bytes h @ left"
  obtains h' r' where "parseHeader cap True r = Ok (h', r')" and "feeds r (header_bytes h) r'"
    and "same_file h h'" and "headerStartOffset h' = rd_offset r"
    and "Sha256Digest h' = header_bytes h" and "Sha1Digest h' = header_bytes h"
    and "Md5Digest h' = header_bytes h"
proof -
  let ?r = "DigestReaderImpl (DigestReaderImpl (DigestReaderImpl r []) []) []"
  have r': "end_error ?r = EOF" "rest ?r = header_bytes h @ left" using r by simp_all
  obtain h1 r1 where b: "parse_body cap True (rd_offset r) ?r = Ok (h1, r1)"
    "feeds ?r (header_bytes h) r1" "same_file h h1" "headerStartOffset h1 = rd_offset r"
    using parse_body_ok [OF wf r', of cap "rd_offset r"] main by metis
  obtain r2 where r2: "r1 = DigestReaderImpl (DigestReaderImpl (DigestReaderImpl r2
      (header_bytes h)) (header_bytes h)) (header_bytes h)" "feeds r (header_bytes h) r2"
  proof -
    from b(2) obtain a1 where a: "r1 = DigestReaderImpl a1 (header_bytes h)"
      "feeds (DigestReaderImpl (DigestReaderImpl r []) []) (header_bytes h) a1" by (cases r1) auto
    from a(2) obtain a2 where a2: "a1 = DigestReaderImpl a2 (header_bytes h)"
      "feeds (DigestReaderImpl r []) (header_bytes h) a2" by (cases a1) auto
    from a2(2) obtain a3 where "a2 = DigestReaderImpl a3 (header_bytes h)" "feeds r (header_bytes h) a3"
      by (cases a2) auto
    with a a2 that show thesis by simp
  qed
  show thesis
    by (rule that [of "h1\<lparr>Md5Digest := header_bytes h, Sha1Digest := header_bytes h, Sha256Digest := header_bytes h\<rparr>" r2])
      (use b r2 in \<open>simp_all add: parseHeader_def NewDigestReaderImpl_def Let_def same_file_def\<close>)
qed

lemma parsed_region:
  assumes ok: "entries_ok (IndexEntries h)" and cnt: "counted h"
    and e: "e \<in> set (IndexEntries h)" "tag e = ID SigTagHeaderSignatures"
  obtains sr where "foldl (region_step False base sz (IndexEntries h)) None
      (sortedEntryIndices (map strip (IndexEntries h))) = Some sr"
    and "unat (IndexEntryCount sr) = length (IndexEntries h)"
proof -
  let ?es = "IndexEntries h"
  obtain i where i: "i < length ?es" "?es ! i = e" using e(1) by (auto simp: in_set_conv_nth)
  have len: "16 * length ?es < 4294967296" using ok weight_length [of ?es] by (simp add: entries_ok_def)
  have n: "take 4 (drop 8 (payload (?es ! i))) = be32 (- of_nat (16 * length ?es))"
    using cnt e i unfolding counted_def by blast
  have t: "trailer_record (payload (?es ! i))" using ok e i by (simp add: entries_ok_def)
  obtain x where x: "parse_region (payload (?es ! i)) base sz = Ok x"
    "IndexEntryCount x = of_nat (16 * length ?es) div 16"
    using parse_region_ok [OF _ _ _ n] t unfolding trailer_record_def by (metis SignedRegion.select_convs(2) minus_minus)
  have dist: "distinct (map tag ?es)" using ok by (simp add: entries_ok_def sorted_distinct_tags)
  have only: "\<forall>j\<in>set (sortedEntryIndices (map strip ?es)). tag (?es ! j) = ID SigTagHeaderSignatures \<longrightarrow> j = i"
    using nth_eq_iff_index_eq [OF dist, of _ i] i e(2) by (simp add: sortedEntryIndices_def)
  have "foldl (region_step False base sz ?es) None (sortedEntryIndices (map strip ?es)) = Some x"
    by (rule region_foldl_some [OF _ _ _ only x(1)]) (use i e(2) in \<open>simp_all add: sortedEntryIndices_def\<close>)
  moreover have "unat (IndexEntryCount x) = length ?es"
    using unat_of_nat_u32 [OF len] x(2) by (simp add: unat_div_distrib)
  ultimately show thesis by (rule that)
qed

lemma consistent_same_file:
  assumes c: "consistent h" and sf: "same_file h h'"
    and reg: "\<And>e. e \<in> set (IndexEntries h) \<Longrightarrow> tag e = ID SigTagHeaderSignatures \<Longrightarrow>
      \<exists>sr. signedRegion h' = Some sr \<and> unat (IndexEntryCount sr) = length (IndexEntries h)"
  shows "consistent h'"
proof -
  have eqs: "IndexEntries h' = IndexEntries h" "IsMainHeader h' = IsMainHeader h"
    "indexEntryCount h' = indexEntryCount h" "storeSizeInBytes h' = storeSizeInBytes h"
    using sf by (simp_all add: same_file_def)
  have "counted h'"
    using c reg unfolding consistent_def counted_def eqs by auto
  moreover have "data_order h' = data_order h"
    unfolding data_order_def candidates_def regionTrailerEntry_def FindIndexEntry_def eqs by (rule refl)
  ultimately show ?thesis using c eqs by (simp add: consistent_def sig_shape_def)
qed

lemma parse_sig_header_ok:
  assumes c: "consistent h" and f: "file_fields h"
    and r: "end_error r = EOF" "rest r = header_bytes h @ left" "has_offset r"
    and pad: "pad_to 8 (unat (rd_offset r + of_nat (length (header_bytes h)))) \<le> length left"
  obtains h' r' where "parseHeader cap False r = Ok (h', r')"
    and "feeds r (header_bytes h @ take (pad_to 8 (unat (rd_offset r + of_nat (length (header_bytes h))))) left) r'"
    and "same_file h h'" and "good_sig h'"
    and "\<And>e. e \<in> set (IndexEntries h) \<Longrightarrow> tag e = ID SigTagHeaderSignatures \<Longrightarrow>
      \<exists>sr. signedRegion h' = Some sr \<and> unat (IndexEntryCount sr) = length (IndexEntries h)"
proof -
  let ?es = "IndexEntries h"
  note wf = consistent_header_wf [OF c f]
  have main: "\<not> IsMainHeader h" and ok: "entries_ok ?es" and cnt: "counted h"
    using c by (simp_all add: consistent_def sig_shape_def)
  obtain h' r1 where b: "parse_body cap False (rd_offset r) r = Ok (h', r1)"
    "feeds r (header_bytes h) r1" "same_file h h'"
    and sr: "signedRegion h' = foldl (region_step False (DataStoreStartOffset h') (storeSizeInBytes h) ?es)
      None (sortedEntryIndices (map strip ?es))"
    and cap': "length (IndexEntries h') \<le> entries_cap h'"
    using parse_body_ok [OF wf r(1,2), of cap "rd_offset r"] main by metis
  define q where "q = pad_to 8 (unat (rd_offset r + of_nat (length (header_bytes h))))"
  have r1: "end_error r1 = EOF" "rest r1 = left" "rd_offset r1 = rd_offset r + of_nat (length (header_bytes h))"
    using feeds_end [OF b(2)] feeds_rest [OF b(2)] feeds_offset [OF b(2) r(3)] r(1,2) by auto
  obtain r2 where r2: "advanceToNext8ByteBoundary r1 = Ok r2" "feeds r1 (take q left) r2"
    using advance_ok [OF r1(1)] r1(2,3) pad by (auto simp: q_def)
  have reg: "\<exists>sr. signedRegion h' = Some sr \<and> unat (IndexEntryCount sr) = length ?es"
    if "e \<in> set ?es" "tag e = ID SigTagHeaderSignatures" for e
    using parsed_region [OF ok cnt that] sr by metis
  have "consistent h'" by (rule consistent_same_file [OF c b(3) reg])
  with cap' have "good_sig h'" by (simp add: good_sig_def)
  with b r2 feeds_trans [OF b(2) r2(2)] reg show thesis
    by (intro that [of h' r2]) (simp_all add: parseHeader_def q_def)
qed
end
