(* ===== verification/Header_Dump.thy ===== *)
theory Header_Dump
  imports Header
begin

text \<open>
  The table \<^verbatim>\<open>DumpIndexEntries\<close> prints (\<^verbatim>\<open>common/rpmparser.go\<close>). Column widths are counted
  in bytes, padding in runes, as in the source.
\<close>

section \<open>Definitions\<close>

definition columnNames :: "string list" where
  "columnNames = [''Tag'', ''Tag ID'', ''Format'', ''Item Count'', ''Start adr'', ''End adr'',
     ''Length'', ''Payload'']"

definition dump_row :: "nat \<Rightarrow> IndexEntry \<Rightarrow> string list outcome" where
  "dump_row truncateValuesToLength entry =
     obind (PayloadAsPrettyString entry) (\<lambda>valueString.
       Ok [Label (Tag entry), fmt_d (unat (ID (Tag entry))), GetFormatTypeLabel (formatType entry),
           fmt_d (unat (dataItemCnt entry)), fmt_d (unat (offset entry)),
           fmt_d (unat (offset entry + of_nat (length (payload entry)))),
           fmt_d (length (payload entry)),
           (if length valueString > truncateValuesToLength
            then take truncateValuesToLength valueString @ ''...'' else valueString)])"

fun dump_rows :: "nat \<Rightarrow> IndexEntry list \<Rightarrow> string list list outcome" where
  "dump_rows n [] = Ok []"
| "dump_rows n (e # es) =
     obind (dump_row n e) (\<lambda>row. obind (dump_rows n es) (\<lambda>rows. Ok (row # rows)))"

text \<open>One call of the closure \<^verbatim>\<open>updateMaxWidths\<close>, from column \<open>colIdx\<close> on.\<close>

fun updateMaxWidths :: "nat \<Rightarrow> nat list \<Rightarrow> string list \<Rightarrow> nat list outcome" where
  "updateMaxWidths colIdx widths [] = Ok widths"
| "updateMaxWidths colIdx widths (cellContent # row) =
     obind (slice_at widths colIdx) (\<lambda>w.
       updateMaxWidths (Suc colIdx)
         (if length cellContent > w then widths[colIdx := length cellContent] else widths) row)"

definition separatorLine :: "nat list \<Rightarrow> string \<Rightarrow> string \<Rightarrow> string \<Rightarrow> string \<Rightarrow> string" where
  "separatorLine widths prefix padChar joinChar suffix =
     prefix @ join_strings (map (repeat_string padChar) widths) joinChar @ suffix"

fun pad_cells :: "nat list \<Rightarrow> string list \<Rightarrow> string list" where
  "pad_cells (w # ws) (c # cs) = CenterPad c '' '' w # pad_cells ws cs"
| "pad_cells _ cs = cs"

fun applyPadding :: "nat list \<Rightarrow> string list \<Rightarrow> string list" where
  "applyPadding (w # ws) (c # cs) = RightPad c '' '' w # pad_cells ws cs"
| "applyPadding _ cs = cs"

definition newline :: string where
  "newline = [CHR 0x0A]"

fun dump_body :: "nat list \<Rightarrow> bool \<Rightarrow> string list list \<Rightarrow> string" where
  "dump_body widths printCompact [] = []"
| "dump_body widths printCompact (row # rows) =
     ''|'' @ join_strings (applyPadding widths row) ''|'' @ ''|'' @
     (if printCompact then [] else newline @ separatorLine widths ''+'' ''-'' ''+'' ''+'') @
     (if rows = [] then [] else newline) @ dump_body widths printCompact rows"

definition DumpIndexEntries :: "RpmHeader \<Rightarrow> nat \<Rightarrow> bool \<Rightarrow> string outcome" where
  "DumpIndexEntries header truncateValuesToLength printCompact =
     obind (dump_rows truncateValuesToLength (IndexEntries header)) (\<lambda>rows.
     let columnCount = (case rows of [] \<Rightarrow> 0 | row # _ \<Rightarrow> length row)
     in obind (updateMaxWidths 0 (replicate columnCount 0) columnNames) (\<lambda>widths0.
        obind (ofold (updateMaxWidths 0) widths0 rows) (\<lambda>widths.
          let names = map (\<lambda>(c, w). CenterPad c '' '' w) (zip columnNames widths)
          in Ok (separatorLine widths ''|'' ''-'' ''|'' ''|'' @ newline @
                 ''|'' @ join_strings (applyPadding widths names) ''|'' @ ''|'' @ newline @
                 separatorLine widths ''|'' ''-'' ''|'' ''|'' @
                 (if rows = [] then [] else newline) @ dump_body widths printCompact rows))))"

section \<open>Lemmas\<close>

lemma dump_row_length: "dump_row n e = Ok row \<Longrightarrow> length row = 8"
  by (auto simp: dump_row_def elim!: obind_OkE)

lemma dump_rows_shape:
  "dump_rows n es = Ok rows \<Longrightarrow> length rows = length es \<and> (\<forall>row\<in>set rows. length row = 8)"
  by (induction es arbitrary: rows) (auto elim!: obind_OkE dest: dump_row_length)

lemma dump_rows_ok: "\<forall>e\<in>set es. payload_ok e \<Longrightarrow> is_ok (dump_rows n es)"
proof (induction es)
  case (Cons e es)
  obtain s where "PayloadAsPrettyString e = Ok s"
    using PayloadAsPrettyString_ok [of e] Cons.prems by (auto simp: is_ok_iff)
  then obtain row where "dump_row n e = Ok row" by (simp add: dump_row_def)
  moreover obtain rows where "dump_rows n es = Ok rows" using Cons by (auto simp: is_ok_iff)
  ultimately show ?case by simp
qed simp

lemma updateMaxWidths_ok:
  "colIdx + length row \<le> length widths \<Longrightarrow>
   \<exists>w. updateMaxWidths colIdx widths row = Ok w \<and> length w = length widths"
proof (induction row arbitrary: colIdx widths)
  case (Cons c row)
  let ?ws = "if length c > widths ! colIdx then widths[colIdx := length c] else widths"
  have "Suc colIdx + length row \<le> length ?ws" using Cons.prems by simp
  with Cons.IH [of "Suc colIdx" ?ws] Cons.prems show ?case by auto
qed simp

lemma updateMaxWidths_fold_ok:
  "\<forall>row\<in>set rows. length row \<le> length widths \<Longrightarrow> \<exists>w. ofold (updateMaxWidths 0) widths rows = Ok w"
proof (induction rows arbitrary: widths)
  case (Cons row rows)
  then obtain w where "updateMaxWidths 0 widths row = Ok w" "length w = length widths"
    using updateMaxWidths_ok [of 0 row widths] by auto
  with Cons show ?case by auto
qed simp

lemma DumpIndexEntries_ok:
  assumes "\<forall>e\<in>set (IndexEntries h). payload_ok e" and "IndexEntries h \<noteq> []"
  shows "is_ok (DumpIndexEntries h n compact)"
proof -
  obtain rows where rows: "dump_rows n (IndexEntries h) = Ok rows"
    using dump_rows_ok [OF assms(1), of n] by (auto simp: is_ok_iff)
  from dump_rows_shape [OF rows] assms(2) obtain r rs where rr: "rows = r # rs" "length r = 8"
    by (cases rows) auto
  obtain w0 where w0: "updateMaxWidths 0 (replicate 8 0) columnNames = Ok w0" "length w0 = 8"
    using updateMaxWidths_ok [of 0 columnNames "replicate 8 0"] by (auto simp: columnNames_def)
  obtain w where "ofold (updateMaxWidths 0) w0 rows = Ok w"
    using updateMaxWidths_fold_ok [of rows w0] w0(2) dump_rows_shape [OF rows] by auto
  with rows rr w0(1) show ?thesis by (simp add: DumpIndexEntries_def Let_def)
qed

lemma DumpIndexEntries_empty:
  "IndexEntries h = [] \<Longrightarrow> DumpIndexEntries h n compact = Panic ''index out of range''"
  by (simp add: DumpIndexEntries_def columnNames_def slice_at_def)

end
