(* ===== verification/Rpm_File.thy ===== *)
theory Rpm_File
  imports Header_RoundTrip Header_Dump
begin

text \<open>
  The RPM file (\<^verbatim>\<open>common/rpmparser.go\<close>): the lead, versions and signature kinds, validation of
  the digests, writing and parsing the whole file. The hash functions are parameters: \<open>md5\<close>,
  \<open>sha1\<close>, \<open>sha256\<close> map the bytes written to a hash state to its sum.

  \<open>file_bytes\<close> is the specification of the file without its payload: lead, signature header,
  zero padding to a multiple of eight, main header.
\<close>

section \<open>Lead and file\<close>

record RpmLead =
  lead_Magic :: bytes
  lead_Major :: u8
  lead_Minor :: u8
  packageType :: u16
  ArchNum :: u16
  lead_name :: bytes
  OsNum :: u16
  SignatureType :: u16
  lead_Reserved :: bytes

record RpmFile =
  Lead :: RpmLead
  SignatureHeader :: RpmHeader
  MainHeader :: RpmHeader
  PayloadStartOffset :: u64
  CompressedPayloadSize :: u64

definition GetPackageType :: "RpmLead \<Rightarrow> PackageType outcome" where
  "GetPackageType lead =
     (if packageType lead = 0 then Ok PACKAGE_TYPE_BINARY
      else if packageType lead = 1 then Ok PACKAGE_TYPE_SOURCE
      else Panic ''RPM has unknown package type'')"

definition GetPackageName :: "RpmLead \<Rightarrow> string outcome" where
  "GetPackageName lead = slice_at (parseNullTerminatedStrings (lead_name lead)) 0"

definition RpmLead_write :: "RpmLead \<Rightarrow> wtr \<Rightarrow> wtr outcome" where
  "RpmLead_write lead destination =
     obind (writeBytes (lead_Magic lead) destination) (\<lambda>w1.
     obind (writeByte (lead_Major lead) w1) (\<lambda>w2.
     obind (writeByte (lead_Minor lead) w2) (\<lambda>w3.
     obind (writeShort (packageType lead) w3) (\<lambda>w4.
     obind (writeShort (ArchNum lead) w4) (\<lambda>w5.
     obind (writeBytes (lead_name lead) w5) (\<lambda>w6.
     obind (writeShort (OsNum lead) w6) (\<lambda>w7.
     obind (writeShort (SignatureType lead) w7) (\<lambda>w8.
     writeBytes (lead_Reserved lead) w8))))))))"

definition parseLead :: "rdr \<Rightarrow> (RpmLead \<times> rdr) outcome" where
  "parseLead s =
     obind (FillBuffer 4 s) (\<lambda>(magic, s1).
     if leadMagic \<noteq> magic then
       Err (Errorf (''invalid RPM file magic. expected '' @ hex_Dump leadMagic @ '' but got '' @ hex_Dump magic))
     else
       obind (readByte s1) (\<lambda>(major, s2).
       obind (readByte s2) (\<lambda>(minor, s3).
       obind (readShort s3) (\<lambda>(ptype, s4).
       obind (readShort s4) (\<lambda>(arch, s5).
       obind (FillBuffer 66 s5) (\<lambda>(nm, s6).
       obind (readShort s6) (\<lambda>(osnum, s7).
       obind (readShort s7) (\<lambda>(sigtype, s8).
       obind (FillBuffer 16 s8) (\<lambda>(resv, s9).
         Ok (\<lparr>lead_Magic = magic, lead_Major = major, lead_Minor = minor, packageType = ptype,
              ArchNum = arch, lead_name = nm, OsNum = osnum, SignatureType = sigtype,
              lead_Reserved = resv\<rparr>, s9))))))))))"

section \<open>Versions\<close>

definition GetRpmVersion :: "RpmFile \<Rightarrow> string outcome" where
  "GetRpmVersion f =
     (case FindIndexEntry (MainHeader f) TagRpmversion of
        None \<Rightarrow> Ok []
      | Some i \<Rightarrow> StringValue (IndexEntries (MainHeader f) ! i))"

definition GetFileFormatVersion :: "RpmFile \<Rightarrow> RpmFileFormatVersion outcome" where
  "GetFileFormatVersion f =
     (case FindIndexEntry (MainHeader f) TagRpmformat of
        Some i \<Rightarrow>
          obind (Int32Value (IndexEntries (MainHeader f) ! i)) (\<lambda>v.
            Ok \<lparr>ffv_Major = ucast v, ffv_Minor = 0\<rparr>)
      | None \<Rightarrow> Ok \<lparr>ffv_Major = lead_Major (Lead f), ffv_Minor = lead_Minor (Lead f)\<rparr>)"

definition has_tag :: "RpmHeader \<Rightarrow> TagValue \<Rightarrow> bool" where
  "has_tag h t \<longleftrightarrow> FindIndexEntry h t \<noteq> None"

definition GetSignatureVersions :: "RpmFile \<Rightarrow> SignatureVersion set" where
  "GetSignatureVersions f =
     (let h = SignatureHeader f;
          hasV3 = has_tag h SigTagPGP \<or> has_tag h SigTagGPG;
          hasV4 = has_tag h SigTagRSAHeader \<or> has_tag h SigTagDSAHeader;
          hasV6 = has_tag h SigTagOpenPGP;
          r0 = NewSet;
          r1 = (if hasV3 then snd (SetAdd r0 SIGNATURE_VERSION_V3) else r0);
          r2 = (if hasV4 then snd (SetAdd r1 SIGNATURE_VERSION_V4) else r1)
      in if hasV6 then snd (SetAdd r2 SIGNATURE_VERSION_V6) else r2)"

definition IsSigned :: "RpmFile \<Rightarrow> bool" where
  "IsSigned f \<longleftrightarrow> \<not> SetIsEmpty (GetSignatureVersions f)"

section \<open>Validation\<close>

text \<open>\<^verbatim>\<open>hex.DecodeString\<close>.\<close>

definition hex_value :: "char \<Rightarrow> u8 option" where
  "hex_value c =
     (let n = of_char c :: nat
      in if 48 \<le> n \<and> n \<le> 57 then Some (of_nat (n - 48))
         else if 97 \<le> n \<and> n \<le> 102 then Some (of_nat (n - 87))
         else if 65 \<le> n \<and> n \<le> 70 then Some (of_nat (n - 55))
         else None)"

fun hex_DecodeString :: "string \<Rightarrow> bytes option" where
  "hex_DecodeString [] = Some []"
| "hex_DecodeString [c] = None"
| "hex_DecodeString (c # d # s) =
     (case (hex_value c, hex_value d, hex_DecodeString s) of
        (Some a, Some b, Some bs) \<Rightarrow> Some ((push_bit 4 a OR b) # bs)
      | _ \<Rightarrow> None)"

text \<open>The payload and the decoded value of a hexadecimal digest tag, when the tag is there.\<close>

definition digest_tag :: "RpmHeader \<Rightarrow> TagValue \<Rightarrow> string \<Rightarrow> (bytes \<times> bytes) option outcome" where
  "digest_tag h t nm =
     (case FindIndexEntry h t of
        None \<Rightarrow> Ok None
      | Some i \<Rightarrow>
          obind (StringValue (IndexEntries h ! i)) (\<lambda>s.
            case hex_DecodeString s of
              None \<Rightarrow> Panic (''Failed to hex-decode '' @ nm @ '' hash?'')
            | Some bs \<Rightarrow> Ok (Some (payload (IndexEntries h ! i), bs))))"

record hashes =
  h_md5 :: "bytes \<Rightarrow> bytes"
  h_sha1 :: "bytes \<Rightarrow> bytes"
  h_sha256 :: "bytes \<Rightarrow> bytes"

definition GetMd5Digest :: "hashes \<Rightarrow> RpmHeader \<Rightarrow> bytes" where
  "GetMd5Digest H header = h_md5 H (Md5Digest header)"

definition GetSha1Digest :: "hashes \<Rightarrow> RpmHeader \<Rightarrow> bytes" where
  "GetSha1Digest H header = h_sha1 H (Sha1Digest header)"

definition GetSha256Digest :: "hashes \<Rightarrow> RpmHeader \<Rightarrow> bytes" where
  "GetSha256Digest H header = h_sha256 H (Sha256Digest header)"

definition check_md5 :: "hashes \<Rightarrow> RpmFile \<Rightarrow> nat option \<Rightarrow> bool \<Rightarrow> unit outcome" where
  "check_md5 H rpm md5Header payloadMd5HasBeenCalculated =
     (case md5Header of
        None \<Rightarrow> Ok ()
      | Some i \<Rightarrow>
          (let p = payload (IndexEntries (SignatureHeader rpm) ! i);
               actual = GetMd5Digest H (MainHeader rpm)
           in if payloadMd5HasBeenCalculated \<and> p \<noteq> actual then
                Panic (''MD5 checksum validation failed, expected '' @ hex_Dump p @ '' but got '' @ hex_Dump actual)
              else Ok ()))"

text \<open>The failure message shows the decoded value for SHA1 and the raw payload for SHA256.\<close>

definition check_digest ::
  "string \<Rightarrow> (bytes \<times> bytes \<Rightarrow> bytes) \<Rightarrow> (bytes \<times> bytes) option \<Rightarrow> bytes \<Rightarrow> unit outcome" where
  "check_digest nm shown expected actual =
     (case expected of
        None \<Rightarrow> Ok ()
      | Some e \<Rightarrow>
          (if snd e \<noteq> actual then
             Panic (nm @ '' checksum validation failed, expected '' @ hex_Dump (shown e) @ '' but got '' @ hex_Dump actual)
           else Ok ()))"

definition validateDigests :: "hashes \<Rightarrow> RpmFile \<Rightarrow> bool \<Rightarrow> unit outcome" where
  "validateDigests H rpm payloadMd5HasBeenCalculated =
     (let sig = SignatureHeader rpm
      in case signedRegion sig of
           None \<Rightarrow> Panic ''Signature header contained no signed/immutable region marker?''
         | Some sr \<Rightarrow>
             obind (GetFileFormatVersion rpm) (\<lambda>v.
             if ffv_Major v > 4 then
               Panic (''Sorry, RPM file format version '' @ RpmFileFormatVersion_String v @ '' is currently unsupported'')
             else if length (IndexEntries sig) \<noteq> unat (IndexEntryCount sr) then
               Panic (''RPM has been tampered with ? Signature covers '' @ fmt_d (unat (IndexEntryCount sr)) @
                 '' index entries but signature header has '' @ fmt_d (length (IndexEntries sig)))
             else
               (let md5Header = (case FindIndexEntry sig SigTagMD5 of
                                   Some i \<Rightarrow> Some i | None \<Rightarrow> FindIndexEntry sig SigTagSigMD5)
                in obind (digest_tag sig SigTagSHA1Header ''SHA1'') (\<lambda>sha1HashValue.
                   obind (digest_tag sig SigTagSHA256Header ''SHA256'') (\<lambda>sha256HashValue.
                   obind (check_md5 H rpm md5Header payloadMd5HasBeenCalculated) (\<lambda>u1.
                   obind (check_digest ''SHA1'' snd sha1HashValue (GetSha1Digest H (MainHeader rpm))) (\<lambda>u2.
                   obind (check_digest ''SHA256'' fst sha256HashValue (GetSha256Digest H (MainHeader rpm))) (\<lambda>u3.
                     if md5Header = None \<and> sha1HashValue = None \<and> sha256HashValue = None then
                       obind (DumpIndexEntries sig 25 True) (\<lambda>dump.
                         Panic (''failed to find any recognized digest (MD5 / SHA1 / SHA256) inside signature header:'' @
                           newline @ dump))
                     else Ok ()))))))))"

definition validate :: "hashes \<Rightarrow> RpmFile \<Rightarrow> bool \<Rightarrow> unit outcome" where
  "validate H rpm validatePayloadMd5 =
     obind (GetPackageType (Lead rpm)) (\<lambda>t. validateDigests H rpm validatePayloadMd5)"

section \<open>Parsing a file\<close>

text \<open>The index entry with the size of main header and payload: tag 257, else tag 1000.\<close>

definition sig_size_entry :: "RpmHeader \<Rightarrow> nat option" where
  "sig_size_entry sigHeader =
     (case FindIndexEntry sigHeader SigTagSigSize of
        Some i \<Rightarrow> Some i | None \<Rightarrow> FindIndexEntry sigHeader SigTagSize)"

definition ParseRPM :: "hashes \<Rightarrow> (nat \<Rightarrow> nat) \<Rightarrow> bool \<Rightarrow> rdr \<Rightarrow> (RpmFile \<times> rdr) outcome" where
  "ParseRPM H cap validatePayloadM5 r0 =
     obind (parseLead r0) (\<lambda>(lead, r1).
     obind (parseHeader cap False r1) (\<lambda>(sigHeader, r2).
     obind (parseHeader cap True r2) (\<lambda>(mainHeader, r3).
     case sig_size_entry sigHeader of
       None \<Rightarrow> Panic ''Failed to find SIG_SIZE entry''
     | Some i \<Rightarrow>
         obind (Int32Value (IndexEntries sigHeader ! i)) (\<lambda>sigSize.
         let mainHeaderSize = rd_offset r3 - headerStartOffset mainHeader;
             compressedPayloadSize = scast sigSize - mainHeaderSize;
             rpm = \<lparr>Lead = lead, SignatureHeader = sigHeader, MainHeader = mainHeader,
                    PayloadStartOffset = rd_offset r3, CompressedPayloadSize = compressedPayloadSize\<rparr>
         in if validatePayloadM5 then
              (case readAhead (ucast compressedPayloadSize) (NewDigestReaderImpl r3 (Md5Digest mainHeader)) of
                 Ok r4 \<Rightarrow>
                   (let rpm' = rpm\<lparr>MainHeader := mainHeader\<lparr>Md5Digest := GetDigest r4\<rparr>\<rparr>
                    in obind (validate H rpm' True) (\<lambda>u. Ok (rpm', GetDelegate r4)))
               | _ \<Rightarrow> Panic (''Compressed payload seems to be truncated, expected at least '' @
                        fmt_d (unat compressedPayloadSize) @ '' bytes of payload''))
            else obind (validate H rpm False) (\<lambda>u. Ok (rpm, r3))))))"

definition ParseRPMFromReader :: "hashes \<Rightarrow> (nat \<Rightarrow> nat) \<Rightarrow> rdr \<Rightarrow> bool \<Rightarrow> (RpmFile \<times> rdr) outcome" where
  "ParseRPMFromReader H cap r validatePayloadM5 = ParseRPM H cap validatePayloadM5 r"

section \<open>Writing a file\<close>

text \<open>\<^verbatim>\<open>io.Copy\<close>, with its buffer of 32 KiB.\<close>

function io_Copy :: "wtr \<Rightarrow> rdr \<Rightarrow> (wtr \<times> rdr) outcome" where
  "io_Copy dst src =
     (let (bs, er, src') = rd_read src 32768
      in if bs = [] then
           (case er of
              None \<Rightarrow> io_Copy dst src'
            | Some e \<Rightarrow> if e = EOF then Ok (dst, src') else Err e)
         else
           (let (nw, ew, dst') = w_write dst bs
            in case ew of
                 Some e \<Rightarrow> Err e
               | None \<Rightarrow>
                   if length bs \<noteq> nw then Err ErrShortWrite
                   else (case er of
                           None \<Rightarrow> io_Copy dst' src'
                         | Some e \<Rightarrow> if e = EOF then Ok (dst', src') else Err e)))"
  by pat_completeness auto
termination
proof (relation "measure (\<lambda>(dst, src). length (rest src) + budget src)", goal_cases)
  case 1
  show ?case by simp
next
  case (2 dst src x bs y er src')
  then have "rd_read src 32768 = ([], None, src')" by simp
  from rd_read_progress [OF this] rd_read_feeds [OF this] show ?case
    by (auto dest: feeds_rest)
next
  case (3 dst src x bs y er src' z nw u ew dst')
  then have rd: "rd_read src 32768 = (bs, None, src')" and bs: "bs \<noteq> []" by simp_all
  from rd_read_progress [OF rd] rd_read_feeds [OF rd] bs show ?case
    by (cases bs) (auto dest: feeds_rest)
qed

declare io_Copy.simps [simp del]

fun tracked :: "wtr \<Rightarrow> wtr" where
  "tracked (offsetTrackingWriter w n) = w"
| "tracked w = w"

definition RpmFile_Write :: "RpmFile \<Rightarrow> wtr \<Rightarrow> rdr \<Rightarrow> (wtr \<times> rdr) outcome" where
  "RpmFile_Write f destination payload' =
     obind (RpmLead_write (Lead f) (NewOffsetTrackingWriter destination)) (\<lambda>w1.
     obind (RpmHeader_Write (SignatureHeader f) False w1) (\<lambda>w2.
     obind (RpmHeader_Write (MainHeader f) True w2) (\<lambda>w3.
     io_Copy (tracked w3) payload')))"

end
