(* ===== verification/File_RoundTrip.thy ===== *)
theory File_RoundTrip
  imports Rpm_File
begin

text \<open>
  The round trip of a whole file. \<^verbatim>\<open>Write\<close> emits \<open>file_bytes\<close> followed by everything the
  payload reader delivers; parsing these bytes, however they are chunked, returns the lead and both
  headers and leaves the reader at the first payload byte. \<open>file_valid\<close> is what the parser's
  validation demands, read off the headers.
\<close>


section \<open>Specification\<close>

definition lead_bytes :: "RpmLead \<Rightarrow> bytes" where
  "lead_bytes l = lead_Magic l @ [lead_Major l] @ [lead_Minor l] @ be16 (packageType l) @ be16 (ArchNum l) @
     lead_name l @ be16 (OsNum l) @ be16 (SignatureType l) @ lead_Reserved l"

definition lead_wf :: "RpmLead \<Rightarrow> bool" where
  "lead_wf l \<longleftrightarrow> lead_Magic l = leadMagic \<and> length (lead_name l) = 66 \<and> length (lead_Reserved l) = 16"

definition front_bytes :: "RpmFile \<Rightarrow> bytes" where
  "front_bytes f = lead_bytes (Lead f) @ header_bytes (SignatureHeader f)"

definition file_bytes :: "RpmFile \<Rightarrow> bytes" where
  "file_bytes f = front_bytes f @ replicate (pad_to 8 (length (front_bytes f))) 0 @ header_bytes (MainHeader f)"

definition file_wf :: "RpmFile \<Rightarrow> bool" where
  "file_wf f \<longleftrightarrow>
     lead_wf (Lead f) \<and> consistent (SignatureHeader f) \<and> file_fields (SignatureHeader f) \<and>
     header_wf (MainHeader f) \<and> IsMainHeader (MainHeader f)"

definition digest_matches :: "RpmHeader \<Rightarrow> TagValue \<Rightarrow> string \<Rightarrow> bytes \<Rightarrow> bool" where
  "digest_matches h t nm actual \<longleftrightarrow>
     (case digest_tag h t nm of Ok None \<Rightarrow> True | Ok (Some d) \<Rightarrow> snd d = actual | _ \<Rightarrow> False)"

definition file_valid :: "hashes \<Rightarrow> RpmFile \<Rightarrow> bool" where
  "file_valid H f \<longleftrightarrow>
     (let sig = SignatureHeader f; m = header_bytes (MainHeader f)
      in is_ok (GetPackageType (Lead f)) \<and> has_tag sig SigTagHeaderSignatures \<and>
         (case GetFileFormatVersion f of Ok v \<Rightarrow> ffv_Major v \<le> 4 | _ \<Rightarrow> False) \<and>
         digest_matches sig SigTagSHA1Header ''SHA1'' (h_sha1 H m) \<and>
         digest_matches sig SigTagSHA256Header ''SHA256'' (h_sha256 H m) \<and>
         (has_tag sig SigTagMD5 \<or> has_tag sig SigTagSigMD5 \<or> has_tag sig SigTagSHA1Header \<or>
          has_tag sig SigTagSHA256Header) \<and>
         (case sig_size_entry sig of None \<Rightarrow> False | Some i \<Rightarrow> is_ok (Int32Value (IndexEntries sig ! i))))"

section \<open>The lead\<close>

lemma lead_length: "lead_wf l \<Longrightarrow> length (lead_bytes l) = 96"
  by (simp add: lead_wf_def lead_bytes_def short_codec.enc_width leadMagic_def)

lemma RpmLead_write_emits: "emits (RpmLead_write l) (lead_bytes l)"
  unfolding RpmLead_write_def [abs_def] lead_bytes_def
  by (intro emits_bind emits_writeBytes emits_writeByte short_codec.put_emits)

lemma parseLead_reads:
  assumes "lead_wf l"
  shows "reads parseLead l (lead_bytes l)"
proof -
  have m: "lead_Magic l = leadMagic" "length (lead_Magic l) = 4" "length (lead_name l) = 66" "length (lead_Reserved l) = 16"
    using assms by (auto simp: lead_wf_def leadMagic_def)
  let ?mk = "\<lambda>magic major minor ptype arch nm osnum sigtype resv. \<lparr>lead_Magic = magic, lead_Major = major,
    lead_Minor = minor, packageType = ptype, ArchNum = arch, lead_name = nm, OsNum = osnum,
    SignatureType = sigtype, lead_Reserved = resv\<rparr>"
  have body: "reads (\<lambda>s1. obind (readByte s1) (\<lambda>(major, s2).
       obind (readByte s2) (\<lambda>(minor, s3).
       obind (readShort s3) (\<lambda>(ptype, s4).
       obind (readShort s4) (\<lambda>(arch, s5).
       obind (FillBuffer 66 s5) (\<lambda>(nm, s6).
       obind (readShort s6) (\<lambda>(osnum, s7).
       obind (readShort s7) (\<lambda>(sigtype, s8).
       obind (FillBuffer 16 s8) (\<lambda>(resv, s9). Ok (?mk (lead_Magic l) major minor ptype arch nm osnum sigtype resv, s9))))))))))
     l ([lead_Major l] @ [lead_Minor l] @ be16 (packageType l) @ be16 (ArchNum l) @
     lead_name l @ be16 (OsNum l) @ be16 (SignatureType l) @ lead_Reserved l)"
    by (intro reads_bind [OF byte_codec.get_reads] reads_bind [OF short_codec.get_reads]
        reads_bind [OF reads_FillBuffer [OF m(3)]] reads_map [OF reads_FillBuffer [OF m(4)]]) simp
  have "reads (\<lambda>s. obind (FillBuffer 4 s) (\<lambda>(magic, s1).
     if leadMagic \<noteq> magic then
       Err (Errorf (''invalid RPM file magic. expected '' @ hex_Dump leadMagic @ '' but got '' @ hex_Dump magic))
     else obind (readByte s1) (\<lambda>(major, s2).
       obind (readByte s2) (\<lambda>(minor, s3).
       obind (readShort s3) (\<lambda>(ptype, s4).
       obind (readShort s4) (\<lambda>(arch, s5).
       obind (FillBuffer 66 s5) (\<lambda>(nm, s6).
       obind (readShort s6) (\<lambda>(osnum, s7).
       obind (readShort s7) (\<lambda>(sigtype, s8).
       obind (FillBuffer 16 s8) (\<lambda>(resv, s9). Ok (?mk magic major minor ptype arch nm osnum sigtype resv, s9)))))))))))
     l (lead_bytes l)"
    unfolding lead_bytes_def
    by (rule reads_bind [OF reads_FillBuffer [OF m(2)]]) (use body m(1) in simp)
  then show ?thesis by (simp add: parseLead_def [abs_def])
qed

section \<open>Writing\<close>

lemma io_Copy_ok:
  "end_error src = EOF \<Longrightarrow> unlimited dst \<Longrightarrow>
   \<exists>dst' src'. io_Copy dst src = Ok (dst', src') \<and> wrote dst (rest src) dst'"
proof (induction dst src rule: io_Copy.induct)
  case (1 dst src)
  obtain bs er src1 where rd: "rd_read src 32768 = (bs, er, src1)" by (cases "rd_read src 32768") auto
  have r: "rest src = bs @ rest src1" "end_error src1 = EOF"
    using rd_read_feeds [OF rd] feeds_rest feeds_end "1.prems"(1) by auto
  obtain dst1 where w: "w_write dst bs = (length bs, None, dst1)" "wrote dst bs dst1"
    using w_write_unlimited [OF "1.prems"(2)] by blast
  have u1: "unlimited dst1" using wrote_unlimited [OF w(2)] "1.prems"(2) by simp
  show ?case
  proof (cases er)
    case (Some e)
    then have e: "e = EOF" "rest src1 = []" using rd_read_error rd "1.prems"(1) by auto
    show ?thesis
    proof (cases "bs = []")
      case True
      with Some e rd r show ?thesis by (simp add: io_Copy.simps [of dst src] wrote_refl)
    next
      case False
      with Some e rd r w show ?thesis by (simp add: io_Copy.simps [of dst src])
    qed
  next
    case None
    show ?thesis
    proof (cases "bs = []")
      case True
      with "1.IH"(1) [OF rd [symmetric] refl refl True None] r(2) "1.prems"(2) rd r(1) None show ?thesis
        by (simp add: io_Copy.simps [of dst src])
    next
      case False
      from "1.IH"(2) [OF rd [symmetric] refl refl False w(1) [symmetric] refl refl refl _ None] r(2) u1
      obtain dst' src' where "io_Copy dst1 src1 = Ok (dst', src')" "wrote dst1 (rest src1) dst'" by auto
      with False None rd w wrote_trans [OF w(2), of "rest src1" dst'] r(1) show ?thesis
        by (simp add: io_Copy.simps [of dst src])
    qed
  qed
qed

lemma pad_to_8_mod: "pad_to 8 (n mod 18446744073709551616) = pad_to 8 n"
proof -
  have "n mod 18446744073709551616 mod 8 = n mod 8" by (rule mod_mod_cancel) simp
  then show ?thesis by (simp add: pad_to_def)
qed

lemma pad_to_8_u64: "pad_to 8 (unat (of_nat n :: u64)) = pad_to 8 n"
  using pad_to_8_mod [of n] by (simp add: unsigned_of_nat take_bit_eq_mod)

lemma writeAlignTo_ok:
  assumes "unlimited w"
  obtains w' where "writeAlignTo 8 w = Ok w'" and "wrote w (replicate (pad_to 8 (unat (w_offset w))) 0) w'"
proof -
  define q where "q = pad_to 8 (unat (w_offset w))"
  have q: "q \<le> 7" using pad_to_less [of 8 "unat (w_offset w)"] by (simp add: q_def)
  have c: "CalcAlignmentByteCount (w_offset w) 8 = Ok (of_nat q)"
    using CalcAlignmentByteCount_power [of 3 "w_offset w"] by (simp add: q_def)
  have uq: "unat (of_nat q :: u8) = q" using q by (simp add: unsigned_of_nat take_bit_nat_eq_self_iff)
  show thesis
  proof (cases "q = 0")
    case True
    have "writeAlignTo 8 w = Ok w" unfolding writeAlignTo_def c using True by simp
    moreover have "wrote w (replicate q 0) w" using True by (simp add: wrote_refl)
    ultimately show thesis using that unfolding q_def by blast
  next
    case False
    then have n0: "(of_nat q :: u8) \<noteq> 0" using uq by (metis unat_0)
    obtain w' where w': "w_write w (replicate q 0) = (length (replicate q (0 :: u8)), None, w')" "wrote w (replicate q 0) w'"
      using w_write_unlimited [OF assms] by blast
    have "writeAlignTo 8 w = Ok w'" unfolding writeAlignTo_def c using n0 w'(1) by (simp add: uq)
    with w'(2) that show thesis unfolding q_def by blast
  qed
qed

lemma RpmHeader_Write_main:
  assumes "storable (IndexEntries h)" and "unlimited w"
  obtains w' where "RpmHeader_Write h True w = Ok w'"
    and "wrote w (replicate (pad_to 8 (unat (w_offset w))) 0 @ header_bytes h) w'"
proof -
  obtain w1 where w1: "writeAlignTo 8 w = Ok w1" "wrote w (replicate (pad_to 8 (unat (w_offset w))) 0) w1"
    using writeAlignTo_ok [OF assms(2)] .
  have "unlimited w1" using wrote_unlimited [OF w1(2)] assms(2) by simp
  then obtain w2 where w2: "RpmHeader_Write h False w1 = Ok w2" "wrote w1 (header_bytes h) w2"
    by (rule emitsD [OF RpmHeader_Write_emits [OF assms(1)]])
  have "RpmHeader_Write h True w = RpmHeader_Write h False w1"
    using w1(1) by (simp add: RpmHeader_Write_def)
  with w2 wrote_trans [OF w1(2) w2(2)] that show thesis by simp
qed

lemma wrote_tracked:
  assumes "wrote (offsetTrackingWriter d n) bs w"
  obtains d' where "w = offsetTrackingWriter d' (n + of_nat (length bs))" and "wrote d bs d'"
  using assms by (cases w) auto

lemma RpmFile_Write_ok:
  assumes "storable (IndexEntries (SignatureHeader f))" and "storable (IndexEntries (MainHeader f))"
    and "unlimited d" and "end_error p = EOF"
  obtains d' p' where "RpmFile_Write f d p = Ok (d', p')" and "wrote d (file_bytes f @ rest p) d'"
proof -
  let ?w = "offsetTrackingWriter d 0"
  have u: "unlimited ?w" using assms(3) by simp
  obtain w1 where w1: "RpmLead_write (Lead f) ?w = Ok w1" "wrote ?w (lead_bytes (Lead f)) w1" "unlimited w1"
    by (rule emitsD [OF RpmLead_write_emits u])
  obtain w2 where w2: "RpmHeader_Write (SignatureHeader f) False w1 = Ok w2"
    "wrote w1 (header_bytes (SignatureHeader f)) w2" "unlimited w2"
    by (rule emitsD [OF RpmHeader_Write_emits [OF assms(1)] w1(3)])
  have f2: "wrote ?w (front_bytes f) w2" unfolding front_bytes_def by (rule wrote_trans [OF w1(2) w2(2)])
  obtain d2 where d2: "w2 = offsetTrackingWriter d2 (of_nat (length (front_bytes f)))"
    using wrote_tracked [OF f2] by auto
  then have off: "pad_to 8 (unat (w_offset w2)) = pad_to 8 (length (front_bytes f))" by (simp add: pad_to_8_u64)
  obtain w3 where w3: "RpmHeader_Write (MainHeader f) True w2 = Ok w3"
    "wrote w2 (replicate (pad_to 8 (length (front_bytes f))) 0 @ header_bytes (MainHeader f)) w3"
    using RpmHeader_Write_main [OF assms(2) w2(3)] off by metis
  have f3: "wrote ?w (file_bytes f) w3" unfolding file_bytes_def by (rule wrote_trans [OF f2 w3(2)])
  obtain d3 where d3: "w3 = offsetTrackingWriter d3 (of_nat (length (file_bytes f)))" "wrote d (file_bytes f) d3"
    using wrote_tracked [OF f3] by auto
  have "unlimited d3" using wrote_unlimited [OF d3(2)] assms(3) by simp
  then obtain d4 p' where d4: "io_Copy d3 p = Ok (d4, p')" "wrote d3 (rest p) d4"
    using io_Copy_ok [OF assms(4)] by blast
  show thesis
    by (rule that [of d4 p'])
      (use w1(1) w2(1) w3(1) d3 d4 wrote_trans [OF d3(2) d4(2)] in
        \<open>simp_all add: RpmFile_Write_def NewOffsetTrackingWriter_def\<close>)
qed

section \<open>Parsing\<close>

lemma FindIndexEntry_same: "IndexEntries h' = IndexEntries h \<Longrightarrow> FindIndexEntry h' t = FindIndexEntry h t"
  by (simp add: FindIndexEntry_def)

lemma digest_tag_same: "IndexEntries h' = IndexEntries h \<Longrightarrow> digest_tag h' t nm = digest_tag h t nm"
  by (simp only: digest_tag_def FindIndexEntry_def)

lemma check_digest_ok:
  assumes "digest_matches h t nm actual"
  obtains d where "digest_tag h t nm = Ok d" and "check_digest nm shown d actual = Ok ()"
    and "d = None \<longleftrightarrow> \<not> has_tag h t"
proof -
  obtain d where d: "digest_tag h t nm = Ok d"
    using assms by (cases "digest_tag h t nm") (auto simp: digest_matches_def)
  with assms have "check_digest nm shown d actual = Ok ()"
    by (auto simp: digest_matches_def check_digest_def split: option.splits)
  moreover have "d = None \<longleftrightarrow> \<not> has_tag h t"
    using d by (auto simp: digest_tag_def has_tag_def split: option.splits elim!: obind_OkE)
  ultimately show thesis using that d by blast
qed

lemma validate_ok:
  assumes v: "file_valid H f"
    and s: "IndexEntries (SignatureHeader g) = IndexEntries (SignatureHeader f)" "Lead g = Lead f"
      "IndexEntries (MainHeader g) = IndexEntries (MainHeader f)"
    and dig: "Sha1Digest (MainHeader g) = header_bytes (MainHeader f)" "Sha256Digest (MainHeader g) = header_bytes (MainHeader f)"
    and sr: "signedRegion (SignatureHeader g) = Some x" "unat (IndexEntryCount x) = length (IndexEntries (SignatureHeader f))"
  shows "validate H g False = Ok ()"
proof -
  let ?sig = "SignatureHeader g" and ?m = "header_bytes (MainHeader f)"
  have find: "FindIndexEntry (SignatureHeader g) t = FindIndexEntry (SignatureHeader f) t"
    "FindIndexEntry (MainHeader g) t = FindIndexEntry (MainHeader f) t" for t
    using s by (simp_all add: FindIndexEntry_def)
  have tag: "digest_tag ?sig t nm = digest_tag (SignatureHeader f) t nm" for t nm
    using digest_tag_same [OF s(1)] .
  have ffv: "GetFileFormatVersion g = GetFileFormatVersion f"
    by (simp only: GetFileFormatVersion_def find(2) s(2,3))
  obtain v where v4: "GetFileFormatVersion f = Ok v" "ffv_Major v \<le> 4"
    using v by (auto simp: file_valid_def Let_def split: outcome.splits)
  obtain pt where pt: "GetPackageType (Lead f) = Ok pt" using v by (auto simp: file_valid_def Let_def is_ok_iff)
  obtain d1 where d1: "digest_tag ?sig SigTagSHA1Header ''SHA1'' = Ok d1" "check_digest ''SHA1'' snd d1 (h_sha1 H ?m) = Ok ()"
    "d1 = None \<longleftrightarrow> \<not> has_tag (SignatureHeader f) SigTagSHA1Header"
    using check_digest_ok [of "SignatureHeader f" SigTagSHA1Header "''SHA1''" "h_sha1 H ?m" snd] v tag
    by (auto simp: file_valid_def Let_def)
  obtain d2 where d2: "digest_tag ?sig SigTagSHA256Header ''SHA256'' = Ok d2" "check_digest ''SHA256'' fst d2 (h_sha256 H ?m) = Ok ()"
    "d2 = None \<longleftrightarrow> \<not> has_tag (SignatureHeader f) SigTagSHA256Header"
    using check_digest_ok [of "SignatureHeader f" SigTagSHA256Header "''SHA256''" "h_sha256 H ?m" fst] v tag
    by (auto simp: file_valid_def Let_def)
  define md5H where "md5H = (case FindIndexEntry ?sig SigTagMD5 of Some i \<Rightarrow> Some i | None \<Rightarrow> FindIndexEntry ?sig SigTagSigMD5)"
  have some: "\<not> (md5H = None \<and> d1 = None \<and> d2 = None)"
    using v d1(3) d2(3) find(1) by (auto simp: md5H_def file_valid_def Let_def has_tag_def split: option.splits)
  have md5: "check_md5 H g md5H False = Ok ()" by (simp add: check_md5_def Let_def split: option.splits)
  have "validateDigests H g False = Ok ()"
    unfolding validateDigests_def md5H_def [symmetric]
    using sr s(1) ffv v4 d1(1,2) d2(1,2) md5 some dig
    by (auto simp: Let_def md5H_def [symmetric] GetSha1Digest_def GetSha256Digest_def)
  with pt s(2) show ?thesis by (simp add: validate_def)
qed

text \<open>The parser returns what the file was written from and stops at the first payload byte.\<close>

lemma ParseRPM_ok:
  assumes wf: "file_wf f" and v: "file_valid H f"
    and r: "end_error r = EOF" "rest r = file_bytes f @ left" "has_offset r" "rd_offset r = 0"
  obtains g r' where "ParseRPM H cap False r = Ok (g, r')" and "feeds r (file_bytes f) r'"
    and "Lead g = Lead f" and "same_file (SignatureHeader f) (SignatureHeader g)" and "good_sig (SignatureHeader g)"
    and "same_file (MainHeader f) (MainHeader g)" and "Sha256Digest (MainHeader g) = header_bytes (MainHeader f)"
    and "PayloadStartOffset g = of_nat (length (file_bytes f))"
proof -
  let ?sig = "SignatureHeader f" and ?main = "MainHeader f"
  define q where "q = pad_to 8 (length (front_bytes f))"
  have lw: "lead_wf (Lead f)" and sc: "consistent ?sig" "file_fields ?sig" and mw: "header_wf ?main" "IsMainHeader ?main"
    using wf by (auto simp: file_wf_def)
  have fb: "rest r = lead_bytes (Lead f) @ header_bytes ?sig @ replicate q 0 @ header_bytes ?main @ left"
    using r(2) by (simp add: file_bytes_def front_bytes_def q_def)
  obtain r1 where r1: "parseLead r = Ok (Lead f, r1)" "feeds r (lead_bytes (Lead f)) r1"
    "rest r1 = header_bytes ?sig @ replicate q 0 @ header_bytes ?main @ left" "end_error r1 = EOF"
    using readsD [OF parseLead_reads [OF lw] r(1) fb] by metis
  have o1: "rd_offset r1 = of_nat (length (lead_bytes (Lead f)))" "has_offset r1"
    using feeds_offset [OF r1(2) r(3)] r(4) by auto
  have p1: "pad_to 8 (unat (rd_offset r1 + of_nat (length (header_bytes ?sig)))) = q"
    using pad_to_8_u64 [of "length (front_bytes f)"] o1(1) by (simp add: q_def front_bytes_def)
  obtain sg r2 where r2: "parseHeader cap False r1 = Ok (sg, r2)" "feeds r1 (header_bytes ?sig @ replicate q 0) r2"
    "same_file ?sig sg" "good_sig sg"
    "\<And>e. e \<in> set (IndexEntries ?sig) \<Longrightarrow> tag e = ID SigTagHeaderSignatures \<Longrightarrow>
      \<exists>sr. signedRegion sg = Some sr \<and> unat (IndexEntryCount sr) = length (IndexEntries ?sig)"
    using parse_sig_header_ok [OF sc r1(4,3) o1(2), of cap] p1 by auto
  have e2: "end_error r2 = EOF" "rest r2 = header_bytes ?main @ left"
    using feeds_end [OF r2(2)] feeds_rest [OF r2(2)] r1(3,4) by auto
  obtain mg r3 where r3: "parseHeader cap True r2 = Ok (mg, r3)" "feeds r2 (header_bytes ?main) r3"
    "same_file ?main mg" "Sha256Digest mg = header_bytes ?main" "Sha1Digest mg = header_bytes ?main"
    using parse_main_header_ok [OF mw e2, of cap] by metis
  have fr: "feeds r (file_bytes f) r3"
    using feeds_trans [OF r1(2) feeds_trans [OF r2(2) r3(2)]] by (simp add: file_bytes_def front_bytes_def q_def)
  have es: "IndexEntries sg = IndexEntries ?sig" "IndexEntries mg = IndexEntries ?main"
    using r2(3) r3(3) by (simp_all add: same_file_def)
  obtain i where i: "sig_size_entry sg = Some i" "is_ok (Int32Value (IndexEntries sg ! i))"
    using v es(1) by (auto simp: file_valid_def Let_def sig_size_entry_def FindIndexEntry_def split: option.splits)
  then obtain sz where sz: "Int32Value (IndexEntries sg ! i) = Ok sz" by (auto simp: is_ok_iff)
  define g where "g = \<lparr>Lead = Lead f, SignatureHeader = sg, MainHeader = mg, PayloadStartOffset = rd_offset r3,
    CompressedPayloadSize = scast sz - (rd_offset r3 - headerStartOffset mg)\<rparr>"
  obtain t where "FindIndexEntry ?sig SigTagHeaderSignatures = Some t"
    using v by (auto simp: file_valid_def Let_def has_tag_def)
  from FindIndexEntry_Some [OF this] r2(5) obtain sr where
    "signedRegion sg = Some sr" "unat (IndexEntryCount sr) = length (IndexEntries ?sig)" by blast
  then have "validate H g False = Ok ()"
    using validate_ok [OF v, of g sr] es r3(4,5) by (simp add: g_def)
  then have p: "ParseRPM H cap False r = Ok (g, r3)"
    using r1(1) r2(1) r3(1) i(1) sz by (simp add: ParseRPM_def Let_def g_def)
  show thesis
    by (rule that [OF p fr]) (use r2(3,4) r3(3,4) feeds_offset [OF fr r(3)] r(4) in \<open>simp_all add: g_def\<close>)
qed
end
