(* ===== verification/Signing.thy ===== *)
theory Signing
  imports File_RoundTrip
begin

text \<open>
  Signing and verification (\<^verbatim>\<open>common/openpgp.go\<close>, \<^verbatim>\<open>common/signing.go\<close>). The OpenPGP
  library is a parameter, the record \<open>pgp\<close>: the algorithm numbers, signing a hash state,
  serializing a signature packet, preparing a hash, ASCII armor (the error of creating an encoder,
  and the armored text once it is closed), reading packets, decrypting a key, reading a key ring
  and checking a detached signature. \<^verbatim>\<open>sig.Sign\<close> writes a trailer into the
  hash state it is given, so it returns that state too. \<open>now\<close> is the current time.
\<close>

section \<open>The OpenPGP library as a parameter\<close>

record PrivateKey =
  PubKeyAlgo :: u8
  Encrypted :: bool
  key_Version :: nat
  KeyId :: u64
  key_material :: bytes

record Signature =
  sig_Version :: nat
  SigType :: u8
  sig_PubKeyAlgo :: u8
  sig_Hash :: nat
  CreationTime :: nat
  IssuerKeyId :: u64

datatype packet = PrivateKeyPacket PrivateKey | OtherPacket

record ('sg, 'ent) pgp =
  PubKeyAlgoRSA :: u8
  PubKeyAlgoRSASignOnly :: u8
  PubKeyAlgoRSAEncryptOnly :: u8
  PubKeyAlgoDSA :: u8
  SigTypeBinary :: u8
  default_Hash :: nat
  sig_Sign :: "Signature \<Rightarrow> bytes \<Rightarrow> PrivateKey \<Rightarrow> ('sg \<times> bytes) outcome"
  sig_Serialize :: "'sg \<Rightarrow> bytes outcome"
  sig_PrepareSign :: "Signature \<Rightarrow> bytes outcome"
  armor_Encode :: "goerror option"
  armor_Close :: "bytes \<Rightarrow> bytes outcome"
  armor_Decode :: "bytes \<Rightarrow> bytes option"
  read_packets :: "bytes \<Rightarrow> packet outcome list"
  Decrypt :: "PrivateKey \<Rightarrow> bytes \<Rightarrow> PrivateKey outcome"
  ReadArmoredKeyRing :: "bytes \<Rightarrow> 'ent list outcome"
  CheckDetachedSignature :: "'ent list \<Rightarrow> bytes \<Rightarrow> bytes \<Rightarrow> 'ent outcome"

section \<open>Keys\<close>

datatype KeyType = KEY_TYPE_RSA | KEY_TYPE_DSA | KEY_TYPE_OTHER

definition GetKeyType :: "('sg, 'ent) pgp \<Rightarrow> PrivateKey \<Rightarrow> KeyType" where
  "GetKeyType L privateKey =
     (if PubKeyAlgo privateKey = PubKeyAlgoRSA L \<or> PubKeyAlgo privateKey = PubKeyAlgoRSASignOnly L
         \<or> PubKeyAlgo privateKey = PubKeyAlgoRSAEncryptOnly L then KEY_TYPE_RSA
      else if PubKeyAlgo privateKey = PubKeyAlgoDSA L then KEY_TYPE_DSA
      else KEY_TYPE_OTHER)"

text \<open>The search for the first private key packet; the stream ends at \<^verbatim>\<open>io.EOF\<close>.\<close>

fun find_private_key :: "packet outcome list \<Rightarrow> PrivateKey option outcome" where
  "find_private_key [] = Ok None"
| "find_private_key (Ok (PrivateKeyPacket k) # ps) = Ok (Some k)"
| "find_private_key (Ok OtherPacket # ps) = find_private_key ps"
| "find_private_key (Err e # ps) =
     (if e = EOF then Ok None else Err (Errorf ''error reading packets''))"
| "find_private_key (Panic m # ps) = Panic m"

text \<open>\<open>data\<close> is the contents of the key file, \<open>seekError\<close> the outcome of seeking back to
  its start.\<close>

definition LoadPrivateKey ::
  "('sg, 'ent) pgp \<Rightarrow> bytes \<Rightarrow> goerror option \<Rightarrow> bytes \<Rightarrow> PrivateKey outcome" where
  "LoadPrivateKey L data seekError passphrase =
     obind (case armor_Decode L data of
              Some body \<Rightarrow> Ok body
            | None \<Rightarrow> (case seekError of
                         Some e \<Rightarrow> Err (Errorf ''failed to seek key file'')
                       | None \<Rightarrow> Ok data)) (\<lambda>packetData.
     obind (find_private_key (read_packets L packetData)) (\<lambda>privKey.
       case privKey of
         None \<Rightarrow> Err (Errorf ''no private key found'')
       | Some k \<Rightarrow>
           (if Encrypted k then
              (if length passphrase = 0 then
                 Err (Errorf ''private key is encrypted, but no passphrase was provided'')
               else
                 (case Decrypt L k passphrase of
                    Ok k' \<Rightarrow> Ok k'
                  | Err e \<Rightarrow> Err (Errorf ''failed to decrypt private key (wrong passphrase?)'')
                  | Panic m \<Rightarrow> Panic m))
            else Ok k)))"

definition LoadPublicKey :: "('sg, 'ent) pgp \<Rightarrow> bytes \<Rightarrow> 'ent list outcome" where
  "LoadPublicKey L data =
     (case ReadArmoredKeyRing L data of
        Ok ring \<Rightarrow> Ok ring
      | Err e \<Rightarrow> Err (Errorf ''failed to parse public key'')
      | Panic m \<Rightarrow> Panic m)"

text \<open>\<open>open_file\<close> is \<^verbatim>\<open>os.Open\<close> followed by reading the file.\<close>

fun LoadPublicKeys ::
  "('sg, 'ent) pgp \<Rightarrow> (string \<Rightarrow> bytes outcome) \<Rightarrow> string list \<Rightarrow> 'ent list outcome" where
  "LoadPublicKeys L open_file [] = Ok []"
| "LoadPublicKeys L open_file (keyFile # keyFiles) =
     obind (open_file keyFile) (\<lambda>data.
     obind (LoadPublicKey L data) (\<lambda>keys.
     obind (LoadPublicKeys L open_file keyFiles) (\<lambda>keyRing. Ok (keys @ keyRing))))"

section \<open>Signing a digest\<close>

definition CreateSignaturePacket :: "('sg, 'ent) pgp \<Rightarrow> nat \<Rightarrow> PrivateKey \<Rightarrow> Signature" where
  "CreateSignaturePacket L now privKey =
     \<lparr>sig_Version = key_Version privKey, SigType = SigTypeBinary L, sig_PubKeyAlgo = PubKeyAlgo privKey,
      sig_Hash = default_Hash L, CreationTime = now, IssuerKeyId = KeyId privKey\<rparr>"

definition SignDigest ::
  "('sg, 'ent) pgp \<Rightarrow> nat \<Rightarrow> bytes \<Rightarrow> PrivateKey \<Rightarrow> (bytes \<times> bytes) outcome" where
  "SignDigest L now digest privKey =
     (let keyType = GetKeyType L privKey
      in if keyType \<noteq> KEY_TYPE_RSA \<and> keyType \<noteq> KEY_TYPE_DSA then
           Err (Errorf (''signing requires an RSA or DSA key, got algorithm ID: '' @
             fmt_d (unat (PubKeyAlgo privKey))))
         else
           (case sig_Sign L (CreateSignaturePacket L now privKey) digest privKey of
              Ok (sig, digest') \<Rightarrow>
                (case sig_Serialize L sig of
                   Ok buf \<Rightarrow> Ok (buf, digest')
                 | Err e \<Rightarrow> Err (Errorf ''failed to serialize signature packet'')
                 | Panic m \<Rightarrow> Panic m)
            | Err e \<Rightarrow> Err (Errorf ''failed to sign header'')
            | Panic m \<Rightarrow> Panic m))"

text \<open>\<^verbatim>\<open>io.ReadAll\<close>; \<^verbatim>\<open>io.Copy\<close> into a hash is the same loop.\<close>

function io_ReadAll_loop :: "bytes \<Rightarrow> rdr \<Rightarrow> (bytes \<times> rdr) outcome" where
  "io_ReadAll_loop b r =
     (let (bs, e, r') = rd_read r 512
      in case e of
           None \<Rightarrow> io_ReadAll_loop (b @ bs) r'
         | Some err \<Rightarrow> if err = EOF then Ok (b @ bs, r') else Err err)"
  by pat_completeness auto
termination
proof (relation "measure (\<lambda>(b, r). length (rest r) + budget r)", goal_cases)
  case 1
  show ?case by simp
next
  case (2 b r x bs y e r')
  then have rd: "rd_read r 512 = (bs, None, r')" by simp
  from rd_read_progress [OF rd] rd_read_feeds [OF rd] show ?case
    by (cases bs) (auto dest: feeds_rest)
qed

declare io_ReadAll_loop.simps [simp del]

definition io_ReadAll :: "rdr \<Rightarrow> (bytes \<times> rdr) outcome" where
  "io_ReadAll r = io_ReadAll_loop [] r"

definition SignGeneric :: "('sg, 'ent) pgp \<Rightarrow> nat \<Rightarrow> rdr \<Rightarrow> PrivateKey \<Rightarrow> bytes outcome" where
  "SignGeneric L now dataToSign privKey =
     (if armor_Encode L \<noteq> None then Err (Errorf ''failed to create armor encoder'')
      else let sig = CreateSignaturePacket L now privKey
      in case sig_PrepareSign L sig of
           Err e \<Rightarrow> Err (Errorf ''failed to prepare signature'')
         | Panic m \<Rightarrow> Panic m
         | Ok hasher \<Rightarrow>
             (case io_ReadAll dataToSign of
                Err e \<Rightarrow> Err (Errorf ''failed to hash input data'')
              | Panic m \<Rightarrow> Panic m
              | Ok (data, r') \<Rightarrow>
                  (case sig_Sign L sig (hasher @ data) privKey of
                     Err e \<Rightarrow> Err (Errorf ''crypto signing failed'')
                   | Panic m \<Rightarrow> Panic m
                   | Ok (sg, digest') \<Rightarrow>
                       (case sig_Serialize L sg of
                          Err e \<Rightarrow> Err (Errorf ''failed to serialize signature'')
                        | Panic m \<Rightarrow> Panic m
                        | Ok buf \<Rightarrow>
                            (case armor_Close L buf of
                               Err e \<Rightarrow> Err (Errorf ''failed to close armor writer'')
                             | x \<Rightarrow> x)))))"

section \<open>Signing a file\<close>

definition edit_signature :: "(RpmHeader \<Rightarrow> RpmHeader outcome) \<Rightarrow> RpmFile \<Rightarrow> RpmFile outcome" where
  "edit_signature f rpmFile =
     obind (f (SignatureHeader rpmFile)) (\<lambda>h. Ok (rpmFile\<lparr>SignatureHeader := h\<rparr>))"

definition SignRpm ::
  "('sg, 'ent) pgp \<Rightarrow> (nat \<Rightarrow> nat) \<Rightarrow> nat \<Rightarrow> PrivateKey \<Rightarrow> RpmFile \<Rightarrow> RpmFile outcome option" where
  "SignRpm L grow now privateKey rpmFile =
     (let keyType = GetKeyType L privateKey
      in case SignDigest L now (Sha256Digest (MainHeader rpmFile)) privateKey of
           Err e \<Rightarrow> Some (Err (Errorf ''failed to load sign digest''))
         | Panic m \<Rightarrow> Some (Panic m)
         | Ok (openPgpPacketData, digest') \<Rightarrow>
             (let rpm1 = rpmFile\<lparr>MainHeader := (MainHeader rpmFile)\<lparr>Sha256Digest := digest'\<rparr>\<rparr>
              in case keyType of
                   KEY_TYPE_OTHER \<Rightarrow>
                     Some (Err (Errorf (''sor'' @ ''ry, only private keys of type RSA or DSA are supported for signing'')))
                 | _ \<Rightarrow>
                     (let newEntryTag = (if keyType = KEY_TYPE_RSA then SigTagRSAHeader else SigTagDSAHeader);
                          otherTag = (if keyType = KEY_TYPE_RSA then SigTagDSAHeader else SigTagRSAHeader);
                          newEntrySize = of_nat (length openPgpPacketData)
                      in case obind (edit_signature (DeleteIndexEntryIfExists otherTag) rpm1) (\<lambda>rpm2.
                              obind (edit_signature (DeleteIndexEntryIfExists SigTagPGP) rpm2) (\<lambda>rpm3.
                              obind (edit_signature (DeleteIndexEntryIfExists SigTagPGP5) rpm3) (\<lambda>rpm4.
                              edit_signature (DeleteIndexEntryIfExists SigTagGPG) rpm4))) of
                           Ok rpm5 \<Rightarrow>
                             (case SetOrAddIndexEntry grow newEntryTag FORMAT_TYPE_BINARY newEntrySize
                                     openPgpPacketData (SignatureHeader rpm5) of
                                None \<Rightarrow> None
                              | Some r \<Rightarrow> Some (obind r (\<lambda>h. Ok (rpm5\<lparr>SignatureHeader := h\<rparr>))))
                         | Err e \<Rightarrow> Some (Err e)
                         | Panic m \<Rightarrow> Some (Panic m))))"

definition SignRpmAndWrite ::
  "('sg, 'ent) pgp \<Rightarrow> (nat \<Rightarrow> nat) \<Rightarrow> nat \<Rightarrow> RpmFile \<Rightarrow> wtr \<Rightarrow> rdr \<Rightarrow> PrivateKey \<Rightarrow>
   (wtr \<times> rdr) outcome option" where
  "SignRpmAndWrite L grow now rpmFile w payloadReader privateKey =
     (case SignRpm L grow now privateKey rpmFile of
        None \<Rightarrow> None
      | Some r \<Rightarrow> Some (obind r (\<lambda>f. RpmFile_Write f w payloadReader)))"

section \<open>Verification\<close>

record 'ent SignatureVerifierImpl =
  rpmFile :: RpmFile
  mainHeaderData :: rdr
  payloadReader :: "rdr option"
  gpgPublicKeys :: "'ent list"

definition NewSignatureVerifier ::
  "RpmFile \<Rightarrow> rdr option \<Rightarrow> 'ent list \<Rightarrow> 'ent SignatureVerifierImpl outcome" where
  "NewSignatureVerifier f payload' keys =
     obind (GetData (MainHeader f)) (\<lambda>data.
       Ok \<lparr>rpmFile = f, mainHeaderData = NewArrayReader data, payloadReader = payload',
          gpgPublicKeys = keys\<rparr>)"

definition VerifySignature ::
  "('sg, 'ent) pgp \<Rightarrow> 'ent list \<Rightarrow> bytes \<Rightarrow> bytes \<Rightarrow> 'ent outcome" where
  "VerifySignature L pubKeyRing signedData signatureData =
     (case CheckDetachedSignature L pubKeyRing signedData signatureData of
        Ok e \<Rightarrow> Ok e
      | Err e \<Rightarrow> Err (Errorf ''RPM signature verification failed'')
      | Panic m \<Rightarrow> Panic m)"

definition sig_payload :: "'ent SignatureVerifierImpl \<Rightarrow> TagValue \<Rightarrow> bytes option" where
  "sig_payload v t =
     map_option (\<lambda>i. payload (IndexEntries (SignatureHeader (rpmFile v)) ! i))
       (FindIndexEntry (SignatureHeader (rpmFile v)) t)"

text \<open>Verifying a tag that may be absent; a failure becomes the error \<open>onFail\<close> picks.\<close>

definition verify_tag ::
  "('sg, 'ent) pgp \<Rightarrow> 'ent list \<Rightarrow> bytes \<Rightarrow> bytes option \<Rightarrow> (goerror \<Rightarrow> goerror) \<Rightarrow> unit outcome" where
  "verify_tag L keys data sig onFail =
     (case sig of
        None \<Rightarrow> Ok ()
      | Some p \<Rightarrow>
          (case VerifySignature L keys data p of
             Ok e \<Rightarrow> Ok ()
           | Err e \<Rightarrow> Err (onFail e)
           | Panic m \<Rightarrow> Panic m))"

definition VerifyV3Signature ::
  "('sg, 'ent) pgp \<Rightarrow> hashes \<Rightarrow> 'ent SignatureVerifierImpl \<Rightarrow> unit outcome" where
  "VerifyV3Signature L H v =
     (let pgpTag = sig_payload v SigTagPGP; dsaTag = sig_payload v SigTagGPG
      in if pgpTag = None \<and> dsaTag = None then
           Err (Errorf ''Signature header contains neither a RPMSIGTAG_PGP nor a RPMSIGTAG_GPG tag'')
         else
           (case sig_payload v SigTagMD5 of
              None \<Rightarrow> Err (Errorf ''Signature header does not contain a RPMSIGTAG_MD5 tag'')
            | Some md5Payload \<Rightarrow>
                obind (io_ReadAll (Rewind (mainHeaderData v))) (\<lambda>(headerData, r1).
                case payloadReader v of
                  None \<Rightarrow> Panic ''invalid memory address or nil pointer dereference''
                | Some pr \<Rightarrow>
                    obind (io_ReadAll pr) (\<lambda>(payloadData, r2).
                      let combined = headerData @ payloadData
                      in if h_md5 H combined \<noteq> md5Payload then Err (Errorf ''MD5 hash mismatch'')
                         else
                           obind (verify_tag L (gpgPublicKeys v) combined pgpTag
                                    (\<lambda>e. Errorf ''RPMSIGTAG_PGP verification failure'')) (\<lambda>u.
                           verify_tag L (gpgPublicKeys v) combined dsaTag
                             (\<lambda>e. Errorf ''RPMSIGTAG_GPG verification failure''))))))"

definition VerifyV4Signature ::
  "('sg, 'ent) pgp \<Rightarrow> 'ent SignatureVerifierImpl \<Rightarrow> unit outcome" where
  "VerifyV4Signature L v =
     (let rsaHeaderTag = sig_payload v SigTagRSAHeader; dsaHeaderTag = sig_payload v SigTagDSAHeader
      in if rsaHeaderTag = None \<and> dsaHeaderTag = None then
           Err (Errorf ''Signature header contains neither a SigTagRSAHeader nor a SigTagDSAHeader tag'')
         else
           obind (io_ReadAll (Rewind (mainHeaderData v))) (\<lambda>(headerData, r1).
           obind (verify_tag L (gpgPublicKeys v) headerData rsaHeaderTag (\<lambda>e. e)) (\<lambda>u.
           verify_tag L (gpgPublicKeys v) headerData dsaHeaderTag (\<lambda>e. e))))"

definition VerifyV6Signature :: "'ent SignatureVerifierImpl \<Rightarrow> unit outcome" where
  "VerifyV6Signature v = Err (Errorf ''implement me'')"

definition VerifySignatures ::
  "('sg, 'ent) pgp \<Rightarrow> hashes \<Rightarrow> SignatureVersion set \<Rightarrow> 'ent SignatureVerifierImpl \<Rightarrow> unit outcome" where
  "VerifySignatures L H toVerify v =
     (if SetIsEmpty toVerify then
        Err (Errorf ''signature version set cannot be empty, need at least one signature version to verify'')
      else
        obind (if SetContains toVerify SIGNATURE_VERSION_V3 then VerifyV3Signature L H v else Ok ()) (\<lambda>u1.
        obind (if SetContains toVerify SIGNATURE_VERSION_V4 then VerifyV4Signature L v else Ok ()) (\<lambda>u2.
        if SetContains toVerify SIGNATURE_VERSION_V6 then VerifyV6Signature v else Ok ())))"

end
