(* ===== verification/Signing_Proofs.thy ===== *)
theory Signing_Proofs
  imports Signing
begin

text \<open>
  What signing does to a file. The signature header is edited through the laws of
  \<open>tag_store\<close>: the tags of older signatures go, the new signature packet is set, everything
  else stays, so that a valid file stays valid and well formed. The library is trusted for one
  thing only, \<open>accepts_key\<close>: the signatures it makes are accepted for the data they were
  made over.
\<close>

section \<open>What signing does to the signature header\<close>

definition signature_tag :: "('sg, 'ent) pgp \<Rightarrow> PrivateKey \<Rightarrow> TagValue" where
  "signature_tag L key = (if GetKeyType L key = KEY_TYPE_RSA then SigTagRSAHeader else SigTagDSAHeader)"

definition other_signature_tag :: "('sg, 'ent) pgp \<Rightarrow> PrivateKey \<Rightarrow> TagValue" where
  "other_signature_tag L key = (if GetKeyType L key = KEY_TYPE_RSA then SigTagDSAHeader else SigTagRSAHeader)"

definition dropped_tags :: "('sg, 'ent) pgp \<Rightarrow> PrivateKey \<Rightarrow> TagValue list" where
  "dropped_tags L key = [other_signature_tag L key, SigTagPGP, SigTagPGP5, SigTagGPG]"

text \<open>The library accepts the key, and signs and serializes the digest.\<close>

definition can_sign :: "('sg, 'ent) pgp \<Rightarrow> nat \<Rightarrow> PrivateKey \<Rightarrow> RpmFile \<Rightarrow> bytes \<Rightarrow> bytes \<Rightarrow> bool" where
  "can_sign L now key f pkt digest' \<longleftrightarrow>
     SignDigest L now (Sha256Digest (MainHeader f)) key = Ok (pkt, digest')"

lemma SignDigest_key: "SignDigest L now d key = Ok x \<Longrightarrow> GetKeyType L key \<noteq> KEY_TYPE_OTHER"
  by (auto simp: SignDigest_def Let_def split: if_splits)

lemma obind_Ok_right [simp]: "obind m Ok = m"
  by (cases m) auto

lemma delete_chain:
  "obind (edit_signature (DeleteIndexEntryIfExists a) f) (\<lambda>rpm2.
   obind (edit_signature (DeleteIndexEntryIfExists b) rpm2) (\<lambda>rpm3.
   obind (edit_signature (DeleteIndexEntryIfExists c) rpm3) (\<lambda>rpm4.
   edit_signature (DeleteIndexEntryIfExists d) rpm4))) =
   obind (ofold (\<lambda>h t. DeleteIndexEntryIfExists t h) (SignatureHeader f) [a, b, c, d])
     (\<lambda>h. Ok (f\<lparr>SignatureHeader := h\<rparr>))"
  by (simp add: edit_signature_def obind_assoc)

lemma SignRpm_eq:
  assumes "can_sign L now key f pkt digest'"
  shows "SignRpm L grow now key f =
    (case obind (ofold (\<lambda>h t. DeleteIndexEntryIfExists t h) (SignatureHeader f) (dropped_tags L key))
       (\<lambda>h. Ok (f\<lparr>MainHeader := (MainHeader f)\<lparr>Sha256Digest := digest'\<rparr>, SignatureHeader := h\<rparr>)) of
       Ok rpm5 \<Rightarrow>
         (case SetOrAddIndexEntry grow (signature_tag L key) FORMAT_TYPE_BINARY (of_nat (length pkt)) pkt
                 (SignatureHeader rpm5) of
            None \<Rightarrow> None
          | Some r \<Rightarrow> Some (obind r (\<lambda>h. Ok (rpm5\<lparr>SignatureHeader := h\<rparr>))))
     | Err e \<Rightarrow> Some (Err e) | Panic m \<Rightarrow> Some (Panic m))"
proof (cases "GetKeyType L key")
  case KEY_TYPE_RSA
  then have tags: "signature_tag L key = SigTagRSAHeader"
    "dropped_tags L key = [SigTagDSAHeader, SigTagPGP, SigTagPGP5, SigTagGPG]"
    by (simp_all add: signature_tag_def dropped_tags_def other_signature_tag_def)
  from KEY_TYPE_RSA assms show ?thesis unfolding tags
    by (simp add: SignRpm_def can_sign_def Let_def delete_chain del: ofold.simps)
next
  case KEY_TYPE_DSA
  then have tags: "signature_tag L key = SigTagDSAHeader"
    "dropped_tags L key = [SigTagRSAHeader, SigTagPGP, SigTagPGP5, SigTagGPG]"
    by (simp_all add: signature_tag_def dropped_tags_def other_signature_tag_def)
  from KEY_TYPE_DSA assms show ?thesis unfolding tags
    by (simp add: SignRpm_def can_sign_def Let_def delete_chain del: ofold.simps)
next
  case KEY_TYPE_OTHER
  with SignDigest_key [OF assms [unfolded can_sign_def]] show ?thesis by simp
qed

lemma signature_tags_unmanaged:
  "unmanaged (signature_tag L key)" "\<forall>t\<in>set (dropped_tags L key). unmanaged t"
  by (simp_all add: unmanaged_def managed_tags_def signature_tag_def dropped_tags_def other_signature_tag_def SigTag_defs)

lemma SignRpm_ok:
  assumes "can_sign L now key f pkt digest'" and "good_sig (SignatureHeader f)"
    and "can_set (signature_tag L key) FORMAT_TYPE_BINARY (of_nat (length pkt)) pkt (SignatureHeader f)"
  obtains h where "SignRpm L grow now key f =
      Some (Ok (f\<lparr>MainHeader := (MainHeader f)\<lparr>Sha256Digest := digest'\<rparr>, SignatureHeader := h\<rparr>))"
    and "good_sig h"
    and "sig_view h = (sig_view (SignatureHeader f) |` (- ID ` set (dropped_tags L key)))
      (ID (signature_tag L key) \<mapsto> (FORMAT_TYPE_BINARY, of_nat (length pkt), pkt))"
    and "sig_frame h = sig_frame (SignatureHeader f)"
proof -
  from sig_store.delete_then_put [OF assms(2) signature_tags_unmanaged(2) assms(3), where grow = grow] obtain h1 h where
    "ofold (\<lambda>h t. DeleteIndexEntryIfExists t h) (SignatureHeader f) (dropped_tags L key) = Ok h1"
    "SetOrAddIndexEntry grow (signature_tag L key) FORMAT_TYPE_BINARY (of_nat (length pkt)) pkt h1 = Some (Ok h)"
    "good_sig h" "sig_view h = (sig_view (SignatureHeader f) |` (- ID ` set (dropped_tags L key)))
      (ID (signature_tag L key) \<mapsto> (FORMAT_TYPE_BINARY, of_nat (length pkt), pkt))"
    "sig_frame h = sig_frame (SignatureHeader f)" by blast
  with that show thesis by (simp add: SignRpm_eq [OF assms(1)])
qed

lemma SignRpm_rejects:
  "GetKeyType L key = KEY_TYPE_OTHER \<Longrightarrow> SignRpm L grow now key f = Some (Err (Errorf ''failed to load sign digest''))"
  by (simp add: SignRpm_def SignDigest_def Let_def)

section \<open>Lookups through the view\<close>

lemma sig_view_find:
  assumes "unmanaged t"
  shows "sig_view h (ID t) = map_option (\<lambda>i. entry_value (IndexEntries h ! i)) (FindIndexEntry h t)"
proof -
  have "entry_map es (ID t) = map_option (\<lambda>i. entry_value (es ! i)) (find_slot (\<lambda>e. tag e = ID t) es)" for es
    by (induction es) (auto simp: entry_map_def option.map_comp comp_def)
  then show ?thesis using assms by (simp add: sig_view_def unmanaged_def FindIndexEntry_def)
qed

lemma has_tag_view: "unmanaged t \<Longrightarrow> has_tag h t \<longleftrightarrow> sig_view h (ID t) \<noteq> None"
  by (simp add: has_tag_def sig_view_find)

lemma has_tag_region: "has_tag h SigTagHeaderSignatures \<longleftrightarrow> has_region h"
  by (simp add: has_tag_def has_region_def FindIndexEntry_None)

lemma StringValue_cong: "entry_value e = entry_value e' \<Longrightarrow> StringValue e = StringValue e'"
  by (simp add: entry_value_def StringValue_def)

lemma digest_tag_view:
  assumes "unmanaged t" and "sig_view h' (ID t) = sig_view h (ID t)"
  shows "digest_tag h' t nm = digest_tag h t nm"
proof (cases "FindIndexEntry h t")
  case None
  with assms have "FindIndexEntry h' t = None" by (simp add: sig_view_find)
  with None show ?thesis by (simp add: digest_tag_def)
next
  case (Some i)
  with assms obtain j where j: "FindIndexEntry h' t = Some j"
    "entry_value (IndexEntries h' ! j) = entry_value (IndexEntries h ! i)" by (auto simp: sig_view_find)
  from j(2) have "payload (IndexEntries h' ! j) = payload (IndexEntries h ! i)" by (simp add: entry_value_def)
  then show ?thesis by (simp only: digest_tag_def j(1) Some option.case StringValue_cong [OF j(2)])
qed

lemma Int32Value_cong: "entry_value e = entry_value e' \<Longrightarrow> is_ok (Int32Value e) = is_ok (Int32Value e')"
  by (simp add: entry_value_def Int32Value_def split: outcome.splits prod.splits)

text \<open>The size entry is found, and readable, depending on the view only.\<close>

definition size_readable :: "RpmHeader \<Rightarrow> bool" where
  "size_readable h \<longleftrightarrow>
     (case sig_size_entry h of None \<Rightarrow> False | Some i \<Rightarrow> is_ok (Int32Value (IndexEntries h ! i)))"

definition readable_tag :: "RpmHeader \<Rightarrow> TagValue \<Rightarrow> bool option" where
  "readable_tag h t = map_option (\<lambda>i. is_ok (Int32Value (IndexEntries h ! i))) (FindIndexEntry h t)"

lemma readable_tag_view:
  assumes "unmanaged t" and "sig_view h' (ID t) = sig_view h (ID t)"
  shows "readable_tag h' t = readable_tag h t"
proof (cases "FindIndexEntry h t")
  case None
  with assms have "FindIndexEntry h' t = None" by (simp add: sig_view_find)
  with None show ?thesis by (simp add: readable_tag_def)
next
  case (Some i)
  with assms obtain j where j: "FindIndexEntry h' t = Some j"
    "entry_value (IndexEntries h' ! j) = entry_value (IndexEntries h ! i)" by (auto simp: sig_view_find)
  show ?thesis by (simp only: readable_tag_def j(1) Some option.map Int32Value_cong [OF j(2)])
qed

lemma size_readable_tags:
  "size_readable h \<longleftrightarrow>
     (case readable_tag h SigTagSigSize of Some b \<Rightarrow> b | None \<Rightarrow> readable_tag h SigTagSize = Some True)"
  by (simp add: size_readable_def sig_size_entry_def readable_tag_def split: option.splits)

section \<open>A signed file\<close>

definition signed_file :: "RpmFile \<Rightarrow> bytes \<Rightarrow> RpmHeader \<Rightarrow> RpmFile" where
  "signed_file f digest' h = f\<lparr>MainHeader := (MainHeader f)\<lparr>Sha256Digest := digest'\<rparr>, SignatureHeader := h\<rparr>"

definition signed_view :: "('sg, 'ent) pgp \<Rightarrow> PrivateKey \<Rightarrow> bytes \<Rightarrow> (u32 \<rightharpoonup> entry_data) \<Rightarrow> u32 \<rightharpoonup> entry_data" where
  "signed_view L key pkt v = (v |` (- ID ` set (dropped_tags L key)))
     (ID (signature_tag L key) \<mapsto> (FORMAT_TYPE_BINARY, of_nat (length pkt), pkt))"

definition signature_ids :: "u32 set" where
  "signature_ids = ID ` {SigTagRSAHeader, SigTagDSAHeader, SigTagPGP, SigTagPGP5, SigTagGPG}"

lemma signed_view_other: "k \<notin> signature_ids \<Longrightarrow> signed_view L key pkt v k = v k"
  by (auto simp: signed_view_def signature_ids_def dropped_tags_def signature_tag_def other_signature_tag_def
      restrict_map_def)

lemma digest_tags_kept:
  "ID SigTagMD5 \<notin> signature_ids" "ID SigTagSigMD5 \<notin> signature_ids" "ID SigTagSHA1Header \<notin> signature_ids"
  "ID SigTagSHA256Header \<notin> signature_ids" "ID SigTagSigSize \<notin> signature_ids" "ID SigTagSize \<notin> signature_ids"
  "ID SigTagOpenPGP \<notin> signature_ids"
  by (simp_all add: signature_ids_def SigTag_defs)

lemma digest_tags_unmanaged:
  "unmanaged SigTagMD5" "unmanaged SigTagSigMD5" "unmanaged SigTagSHA1Header" "unmanaged SigTagSHA256Header"
  "unmanaged SigTagSigSize" "unmanaged SigTagSize" "unmanaged SigTagOpenPGP" "unmanaged SigTagRSAHeader"
  "unmanaged SigTagDSAHeader" "unmanaged SigTagPGP" "unmanaged SigTagGPG" "unmanaged SigTagPGP5"
  by (simp_all add: unmanaged_def managed_tags_def SigTag_defs)

lemma file_valid_signed:
  assumes v: "file_valid H f" and view: "sig_view h = signed_view L key pkt (sig_view (SignatureHeader f))"
    and frame: "sig_frame h = sig_frame (SignatureHeader f)"
  shows "file_valid H (signed_file f digest' h)"
proof -
  let ?s = "SignatureHeader f"
  have same: "sig_view h k = sig_view ?s k" if "k \<notin> signature_ids" for k
    using view signed_view_other [OF that] by metis
  have ht: "has_tag h t = has_tag ?s t" if "unmanaged t" "ID t \<notin> signature_ids" for t
    using has_tag_view [OF that(1)] same [OF that(2)] by metis
  have dt: "digest_tag h t nm = digest_tag ?s t nm" if "unmanaged t" "ID t \<notin> signature_ids" for t nm
    using digest_tag_view [OF that(1) same [OF that(2)]] .
  have rg: "has_tag h SigTagHeaderSignatures = has_tag ?s SigTagHeaderSignatures"
    using frame by (simp add: has_tag_region sig_frame_def)
  have sz: "size_readable h = size_readable ?s"
    unfolding size_readable_tags
    using readable_tag_view [OF _ same, of SigTagSigSize] readable_tag_view [OF _ same, of SigTagSize]
      digest_tags_kept digest_tags_unmanaged by metis
  have m: "header_bytes ((MainHeader f)\<lparr>Sha256Digest := digest'\<rparr>) = header_bytes (MainHeader f)"
    by (simp add: header_bytes_def preamble_bytes_def)
  have ffv: "GetFileFormatVersion (signed_file f digest' h) = GetFileFormatVersion f"
  proof -
    have "Lead (signed_file f digest' h) = Lead f"
      "IndexEntries (MainHeader (signed_file f digest' h)) = IndexEntries (MainHeader f)"
      by (simp_all add: signed_file_def)
    then show ?thesis by (simp only: GetFileFormatVersion_def FindIndexEntry_def)
  qed
  have dm: "digest_matches h t nm a = digest_matches ?s t nm a" if "unmanaged t" "ID t \<notin> signature_ids" for t nm a
    by (simp only: digest_matches_def dt [OF that])
  show ?thesis
    using v unfolding file_valid_def Let_def ffv size_readable_def [symmetric]
    by (simp add: signed_file_def m rg sz ht dm digest_tags_kept digest_tags_unmanaged)
qed

lemma file_wf_signed:
  assumes "file_wf f" and "good_sig h" and "sig_frame h = sig_frame (SignatureHeader f)"
  shows "file_wf (signed_file f digest' h)"
proof -
  have m: "meta h = meta (SignatureHeader f)" using assms(3) by (simp add: sig_frame_def)
  have "Magic (meta h) = Magic h" "reserved (meta h) = reserved h" for h by (simp_all add: meta_def)
  with m have "Magic h = Magic (SignatureHeader f)" "reserved h = reserved (SignatureHeader f)" by metis+
  with assms(1,2) show ?thesis
    by (auto simp: file_wf_def signed_file_def good_sig_def file_fields_def header_wf_def)
qed

section \<open>Reading everything\<close>

lemma io_ReadAll_loop_ok:
  "end_error r = EOF \<Longrightarrow> \<exists>r'. io_ReadAll_loop b r = Ok (b @ rest r, r')"
proof (induction b r rule: io_ReadAll_loop.induct)
  case (1 b r)
  obtain bs er r1 where rd: "rd_read r 512 = (bs, er, r1)" by (cases "rd_read r 512") auto
  have r: "rest r = bs @ rest r1" "end_error r1 = EOF"
    using rd_read_feeds [OF rd] feeds_rest feeds_end "1.prems" by auto
  show ?case
  proof (cases er)
    case None
    with "1.IH" [OF rd [symmetric] refl refl None r(2)] rd r show ?thesis by (simp add: io_ReadAll_loop.simps [of b r])
  next
    case (Some e)
    then have "e = EOF" "rest r1 = []" using rd_read_error rd "1.prems" by auto
    with Some rd r show ?thesis by (simp add: io_ReadAll_loop.simps [of b r])
  qed
qed

lemma io_ReadAll_ok:
  assumes "end_error r = EOF"
  obtains r' where "io_ReadAll r = Ok (rest r, r')"
  using io_ReadAll_loop_ok [OF assms, of "[]"] by (auto simp: io_ReadAll_def)


section \<open>Verifying a signature\<close>

text \<open>What is relied on of the library: a serialized signature over some data, made with a
  private key, is accepted for these data by the key ring of its public key.\<close>

definition accepts_key :: "('sg, 'ent) pgp \<Rightarrow> 'ent list \<Rightarrow> PrivateKey \<Rightarrow> bool" where
  "accepts_key L ring key \<longleftrightarrow>
     (\<forall>s data sg d' buf. sig_Sign L s data key = Ok (sg, d') \<longrightarrow> sig_Serialize L sg = Ok buf \<longrightarrow>
        is_ok (CheckDetachedSignature L ring data buf))"

lemma SignDigest_accepted:
  assumes "accepts_key L ring key" and "SignDigest L now d key = Ok (pkt, d')"
  obtains ent where "VerifySignature L ring d pkt = Ok ent"
proof -
  from assms(2) obtain sg where "sig_Sign L (CreateSignaturePacket L now key) d key = Ok (sg, d')"
    "sig_Serialize L sg = Ok pkt"
    by (auto simp: SignDigest_def Let_def split: if_splits outcome.splits)
  with assms(1) have "is_ok (CheckDetachedSignature L ring d pkt)" unfolding accepts_key_def by blast
  with that show thesis by (auto simp: is_ok_iff VerifySignature_def)
qed

lemma NewSignatureVerifier_ok:
  "storable (IndexEntries (MainHeader g)) \<Longrightarrow>
   NewSignatureVerifier g p keys = Ok \<lparr>rpmFile = g,
     mainHeaderData = NewArrayReader (header_bytes (MainHeader g)), payloadReader = p, gpgPublicKeys = keys\<rparr>"
  by (simp add: NewSignatureVerifier_def GetData_ok)

lemma sig_payload_view:
  "unmanaged t \<Longrightarrow> sig_payload v t =
     map_option (\<lambda>(f, n, p). p) (sig_view (SignatureHeader (rpmFile v)) (ID t))"
  by (simp add: sig_payload_def sig_view_find option.map_comp comp_def entry_value_def)

lemma VerifyV4_signed:
  assumes "sig_view (SignatureHeader (rpmFile v)) = signed_view L key pkt vw"
    and "mainHeaderData v = NewArrayReader data"
    and "VerifySignature L (gpgPublicKeys v) data pkt = Ok ent"
  shows "VerifyV4Signature L v = Ok ()"
proof -
  let ?t = "signature_tag L key" and ?o = "other_signature_tag L key"
  have um: "unmanaged ?t" "unmanaged ?o"
    using signature_tags_unmanaged by (auto simp: dropped_tags_def)
  have ne: "ID ?o \<noteq> ID ?t" by (simp add: signature_tag_def other_signature_tag_def SigTag_defs)
  have p: "sig_payload v ?t = Some pkt" "sig_payload v ?o = None"
    using sig_payload_view [OF um(1), of v] sig_payload_view [OF um(2), of v] assms(1) ne
    by (auto simp: signed_view_def dropped_tags_def)
  obtain r' where r': "io_ReadAll (Rewind (NewArrayReader data)) = Ok (data, r')"
    using io_ReadAll_ok [of "Rewind (NewArrayReader data)"]
    by (auto simp: Rewind_def NewArrayReader_def)
  have ok: "verify_tag L (gpgPublicKeys v) data (Some pkt) f = Ok ()"
    "verify_tag L (gpgPublicKeys v) data None f = Ok ()" for f
    using assms(3) by (simp_all add: verify_tag_def)
  show ?thesis
  proof (cases "GetKeyType L key = KEY_TYPE_RSA")
    case True
    then have "sig_payload v SigTagRSAHeader = Some pkt" "sig_payload v SigTagDSAHeader = None"
      using p by (simp_all add: signature_tag_def other_signature_tag_def)
    with r' ok assms(2) show ?thesis by (simp add: VerifyV4Signature_def Let_def)
  next
    case False
    then have "sig_payload v SigTagDSAHeader = Some pkt" "sig_payload v SigTagRSAHeader = None"
      using p by (simp_all add: signature_tag_def other_signature_tag_def)
    with r' ok assms(2) show ?thesis by (simp add: VerifyV4Signature_def Let_def)
  qed
qed

section \<open>Which versions a signed file has\<close>

lemma GetSignatureVersions_signed:
  assumes "sig_view (SignatureHeader g) = signed_view L key pkt vw"
  shows "SIGNATURE_VERSION_V4 \<in> GetSignatureVersions g" and "SIGNATURE_VERSION_V3 \<notin> GetSignatureVersions g"
proof -
  let ?h = "SignatureHeader g"
  have ht: "has_tag ?h t = (signed_view L key pkt vw (ID t) \<noteq> None)" if "unmanaged t" for t
    using has_tag_view [OF that, of ?h] assms by simp
  have v4: "has_tag ?h SigTagRSAHeader \<or> has_tag ?h SigTagDSAHeader"
    using ht [OF digest_tags_unmanaged(8)] ht [OF digest_tags_unmanaged(9)]
    by (auto simp: signed_view_def signature_tag_def)
  have v3: "\<not> has_tag ?h SigTagPGP" "\<not> has_tag ?h SigTagGPG"
    using ht [OF digest_tags_unmanaged(10)] ht [OF digest_tags_unmanaged(11)]
    by (auto simp: signed_view_def signature_tag_def dropped_tags_def SigTag_defs split: if_splits)
  have "SIGNATURE_VERSION_V6 \<noteq> SIGNATURE_VERSION_V3" "SIGNATURE_VERSION_V4 \<noteq> SIGNATURE_VERSION_V3"
    by (simp_all add: SIGNATURE_VERSION_V3_def SIGNATURE_VERSION_V4_def SIGNATURE_VERSION_V6_def)
  with v4 v3 show "SIGNATURE_VERSION_V4 \<in> GetSignatureVersions g" "SIGNATURE_VERSION_V3 \<notin> GetSignatureVersions g"
    by (auto simp: GetSignatureVersions_def Let_def SetAdd_def SetContains_def NewSet_def)
qed

section \<open>From a file to its signed copy\<close>

lemma SignRpm_signed_file:
  assumes "can_sign L now key f pkt digest'" and "good_sig (SignatureHeader f)"
    and "can_set (signature_tag L key) FORMAT_TYPE_BINARY (of_nat (length pkt)) pkt (SignatureHeader f)"
    and "file_wf f" and "file_valid H f"
  obtains h where "SignRpm L grow now key f = Some (Ok (signed_file f digest' h))"
    and "sig_view h = signed_view L key pkt (sig_view (SignatureHeader f))"
    and "file_wf (signed_file f digest' h)" and "file_valid H (signed_file f digest' h)"
proof -
  obtain h where h: "SignRpm L grow now key f = Some (Ok (signed_file f digest' h))" "good_sig h"
    "sig_view h = signed_view L key pkt (sig_view (SignatureHeader f))" "sig_frame h = sig_frame (SignatureHeader f)"
    using SignRpm_ok [OF assms(1-3), of grow] unfolding signed_file_def signed_view_def by metis
  with file_wf_signed [OF assms(4) h(2,4)] file_valid_signed [OF assms(5) h(3,4)] that show thesis by blast
qed

lemma sign_write_ok:
  assumes "SignRpm L grow now key f = Some (Ok g)" and "file_wf g" and "unlimited d" and "end_error p = EOF"
  obtains d' p' where "SignRpmAndWrite L grow now f d p key = Some (Ok (d', p'))"
    and "contents d' = contents d @ file_bytes g @ rest p"
proof -
  have "storable (IndexEntries (SignatureHeader g))" "storable (IndexEntries (MainHeader g))"
    using assms(2) consistent_storable by (auto simp: file_wf_def header_wf_def)
  from RpmFile_Write_ok [OF this assms(3,4)] obtain d' p' where
    "RpmFile_Write g d p = Ok (d', p')" "wrote d (file_bytes g @ rest p) d'" by metis
  with that [of d' p'] wrote_contents [of d "file_bytes g @ rest p" d'] assms(1) show thesis
    by (simp add: SignRpmAndWrite_def)
qed
end
