(* ===== verification/Header_Properties.thy ===== *)
theory Header_Properties
  imports Header_RoundTrip Header_Dump
begin

text \<open>
  The properties of headers, with example headers that witness them: layout of the data store,
  editing as updates of a finite map, writing and parsing, printing.
\<close>

section \<open>Example headers\<close>

text \<open>A signature header with the region trailer (tag 62), a SHA256 digest (tag 273), the size
  (tag 1000) and an MD5 digest (tag 1004), as it stands in a file, and a main header with a name.\<close>

definition region_entry :: IndexEntry where
  "region_entry = \<lparr>isMainHeaderEntry = False, tag = 62, formatType = 7, offset = 24, dataItemCnt = 16,
     payload = [0, 0, 0, 0x3e, 0, 0, 0, 7, 0xff, 0xff, 0xff, 0xc0, 0, 0, 0, 16]\<rparr>"

definition digest_entry :: IndexEntry where
  "digest_entry = \<lparr>isMainHeaderEntry = False, tag = 273, formatType = 6, offset = 0, dataItemCnt = 1,
     payload = [0x61, 0x62, 0]\<rparr>"

definition size_entry :: IndexEntry where
  "size_entry = \<lparr>isMainHeaderEntry = False, tag = 1000, formatType = 4, offset = 4, dataItemCnt = 1,
     payload = [0, 0, 0, 50]\<rparr>"

definition md5_entry :: IndexEntry where
  "md5_entry = \<lparr>isMainHeaderEntry = False, tag = 1004, formatType = 7, offset = 8, dataItemCnt = 16,
     payload = replicate 16 1\<rparr>"

definition sig_example :: RpmHeader where
  "sig_example = \<lparr>Magic = headerMagic, version = 1, reserved = [0, 0, 0, 0], indexEntryCount = 4,
     storeSizeInBytes = 40, IsMainHeader = False,
     IndexEntries = [region_entry, digest_entry, size_entry, md5_entry],
     entries_cap = 4, entries_array = 0, headerStartOffset = 96, IndicesStartOffset = 112,
     DataStoreStartOffset = 176,
     signedRegion = Some \<lparr>IndexEntriesStartOffset = 112, IndexEntryCount = 4, sr_Length = 104\<rparr>,
     Md5Digest = [], Sha1Digest = [], Sha256Digest = []\<rparr>"

definition main_example :: RpmHeader where
  "main_example = \<lparr>Magic = headerMagic, version = 1, reserved = [0, 0, 0, 0], indexEntryCount = 1,
     storeSizeInBytes = 2, IsMainHeader = True,
     IndexEntries = [\<lparr>isMainHeaderEntry = True, tag = 1000, formatType = 6, offset = 0, dataItemCnt = 1,
       payload = [0x78, 0]\<rparr>],
     entries_cap = 1, entries_array = 0, headerStartOffset = 216, IndicesStartOffset = 232,
     DataStoreStartOffset = 248, signedRegion = None,
     Md5Digest = [], Sha1Digest = [], Sha256Digest = []\<rparr>"

lemmas example_defs = region_entry_def digest_entry_def size_entry_def md5_entry_def
  sig_example_def main_example_def

lemma sig_example_slots:
  "regionTrailerEntry sig_example = Some 0" "candidates sig_example = [digest_entry, size_entry, md5_entry]"
  "FindIndexEntry sig_example SigTagReservedSpace = None"
  by (simp_all add: candidates_def regionTrailerEntry_def FindIndexEntry_def example_defs SigTag_defs)

lemma example_payloads: "payload_ok region_entry" "payload_ok digest_entry" "payload_ok size_entry" "payload_ok md5_entry"
  by (simp_all add: payload_ok_def example_defs terminated_def)

lemma sig_example_consistent: "consistent sig_example"
proof -
  have "entries_ok (IndexEntries sig_example)"
    using example_payloads
    by (simp add: entries_ok_def sig_example_def)
      (simp add: example_defs SigTag_defs weight_def trailer_record_def be32_def be16_def)
  moreover have "counted sig_example"
    by (simp add: counted_def example_defs SigTag_defs be32_def be16_def)
  moreover have "packed 0 (data_order sig_example) (unat (storeSizeInBytes sig_example))"
    by (simp add: data_order_def sig_example_slots)
      (simp add: example_defs align_of_def pad_to_def)
  ultimately show ?thesis by (simp add: consistent_def sig_shape_def sig_example_def)
qed

lemma sig_example_good: "good_sig sig_example"
  using sig_example_consistent by (simp add: good_sig_def sig_example_def)

lemma sig_example_fields: "file_fields sig_example"
  by (simp add: file_fields_def sig_example_def)

lemma main_example_wf: "header_wf main_example"
  by (simp add: header_wf_def main_example_def storable_def payload_ok_def terminated_def region_readable_def
      align_of_def apart_def)

lemma sig_example_weight: "weight (IndexEntries sig_example) = 103"
  by (simp add: weight_def example_defs)

lemma sig_example_absent: "k \<notin> {62, 273, 1000, 1004} \<Longrightarrow> sig_view sig_example k = None"
  by (auto simp: sig_view_def entry_map_def example_defs restrict_map_def)

section \<open>Layout of the data store\<close>

text \<open>C11: laying out the data store gives every payload its alignment and a place of its own, in the
  order of the index with the region trailer last, without gaps beyond the padding; nothing but
  offsets and the store size changes, and a second layout changes nothing.\<close>

theorem syncDataStoreLayout_packs:
  assumes "layoutable h"
  shows "\<exists>h'. syncDataStoreLayout h = Ok h' \<and> packed 0 (data_order h') (unat (storeSizeInBytes h')) \<and>
    (\<forall>e\<in>set (IndexEntries h'). unat (offset e) mod align_of (formatType e) = 0 \<and>
       unat (offset e) + length (payload e) \<le> unat (storeSizeInBytes h')) \<and>
    sorted_wrt (\<lambda>e f. unat (offset e) + length (payload e) \<le> unat (offset f)) (data_order h') \<and>
    map core (IndexEntries h') = map core (IndexEntries h) \<and>
    h' = h\<lparr>IndexEntries := IndexEntries h', storeSizeInBytes := storeSizeInBytes h'\<rparr> \<and>
    syncDataStoreLayout h' = Ok h'"
proof -
  obtain h' where h': "syncDataStoreLayout h = Ok h'" "packed 0 (data_order h') (unat (storeSizeInBytes h'))"
    "map core (IndexEntries h') = map core (IndexEntries h)"
    "h' = h\<lparr>IndexEntries := IndexEntries h', storeSizeInBytes := storeSizeInBytes h'\<rparr>"
    using syncDataStoreLayout_ok [OF assms] by metis
  have "map formatType (IndexEntries h') = map formatType (IndexEntries h)"
    by (rule map_core_map [OF h'(3)]) (simp add: core_def)
  from arg_cong [OF this, of set] have "formatType ` set (IndexEntries h') = formatType ` set (IndexEntries h)" by simp
  moreover have "layoutable x \<longleftrightarrow> (\<forall>f\<in>formatType ` set (IndexEntries x). valid_format f) \<and> weight (IndexEntries x) < 4294967296"
    for x by (simp add: layoutable_def)
  ultimately have "layoutable h'" using assms map_core_weight [OF h'(3)] by metis
  from syncDataStoreLayout_fixed [OF this h'(2)] have again: "syncDataStoreLayout h' = Ok h'" .
  have "unat (offset e) mod align_of (formatType e) = 0 \<and> unat (offset e) + length (payload e) \<le> unat (storeSizeInBytes h')"
    if "e \<in> set (IndexEntries h')" for e
    using packed_bounds [OF h'(2), of e] packed_aligned [OF h'(2), of e] that unfolding set_data_order by blast
  with h' again packed_ordered [OF h'(2)] show ?thesis by blast
qed

theorem syncDataStoreLayout_packs_witness:
  "\<exists>h'. syncDataStoreLayout sig_example = Ok h' \<and> map core (IndexEntries h') = map core (IndexEntries sig_example) \<and>
    syncDataStoreLayout h' = Ok h'"
proof -
  have "layoutable sig_example"
    by (simp add: layoutable_def sig_example_weight) (simp add: example_defs valid_format_def)
  from syncDataStoreLayout_packs [OF this] show ?thesis by blast
qed

lemma place_cases:
  "\<not> valid_format (formatType e) \<Longrightarrow> \<exists>m. place n e = Panic m"
  "place n e \<noteq> Err err"
proof -
  show "\<not> valid_format (formatType e) \<Longrightarrow> \<exists>m. place n e = Panic m"
    using GetRequiredAlignment_panics_iff [of "formatType e"] by (auto simp: place_def)
  have ga: "GetRequiredAlignment f \<noteq> Err x" for f x by (simp add: GetRequiredAlignment_def)
  have ca: "CalcAlignmentByteCount a b \<noteq> Err x" for a b x by (simp add: CalcAlignmentByteCount_def Let_def)
  show "place n e \<noteq> Err err"
  proof (cases "GetRequiredAlignment (formatType e)")
    case (Ok al)
    with ca show ?thesis by (cases "CalcAlignmentByteCount (ucast n) al") (auto simp: place_def Let_def)
  qed (use ga in \<open>auto simp: place_def\<close>)
qed

lemma place_all_no_error: "place_all t i n es \<noteq> Err err"
proof (induction es arbitrary: i n)
  case (Cons e es)
  show ?case
  proof (cases "place n e")
    case (Ok x)
    with Cons show ?thesis by (cases "place_all t (Suc i) n es"; cases "place_all t (Suc i) (snd x) es") (auto split: prod.splits)
  next
    case (Panic m)
    with Cons show ?thesis by (cases "place_all t (Suc i) n es") auto
  qed (use place_cases(2) in auto)
qed simp

lemma place_all_panics:
  "e \<in> set (others t i es) \<Longrightarrow> \<not> valid_format (formatType e) \<Longrightarrow> \<exists>m. place_all t i n es = Panic m"
proof (induction es arbitrary: i n)
  case (Cons x es)
  show ?case
  proof (cases "Some i = t")
    case True
    with Cons.prems have "e \<in> set (others t (Suc i) es)" by auto
    from Cons.IH [OF this Cons.prems(2), of n] True show ?thesis by auto
  next
    case False
    show ?thesis
    proof (cases "place n x")
      case (Ok y)
      then have "valid_format (formatType x)" using place_cases(1) [of x n] by auto
      with Cons.prems False have "e \<in> set (others t (Suc i) es)" by auto
      from Cons.IH [OF this Cons.prems(2), of "snd y"] Ok False show ?thesis by (cases y) auto
    qed (use False place_cases(2) in auto)
  qed
qed simp

lemma place_all_trailer:
  "place_all (Some t) i n es = Ok (es', n') \<Longrightarrow> i \<le> t \<Longrightarrow> t - i < length es \<Longrightarrow>
   length es' = length es \<and> es' ! (t - i) = es ! (t - i)"
proof (induction es arbitrary: i n es' n')
  case (Cons x es)
  show ?case
  proof (cases "i = t")
    case True
    have len: "length b = length a" if "place_all (Some t) j m a = Ok (b, k)" for j m a b k
      using that by (induction a arbitrary: j m b k) (auto elim!: obind_OkE split: if_splits)
    from True Cons.prems show ?thesis by (auto elim!: obind_OkE dest: len)
  next
    case False
    with Cons.prems obtain y m es1 where "place_all (Some t) (Suc i) m es = Ok (es1, n')" "es' = y # es1"
      by (auto elim!: obind_OkE)
    with Cons.IH [of "Suc i" m es1 n'] Cons.prems False show ?thesis by (auto simp: nth_Cons')
  qed
qed simp

text \<open>An entry whose format has no alignment, the null format included, makes the layout
  panic.\<close>

theorem syncDataStoreLayout_unknown_format:
  assumes "e \<in> set (IndexEntries h)" and "\<not> valid_format (formatType e)"
  shows "\<exists>m. syncDataStoreLayout h = Panic m"
proof (cases "place_all (regionTrailerEntry h) 0 0 (IndexEntries h)")
  case (Ok y)
  then obtain es' n where y: "place_all (regionTrailerEntry h) 0 0 (IndexEntries h) = Ok (es', n)" by (cases y) auto
  have no: "e \<notin> set (candidates h)"
    using place_all_panics [OF _ assms(2), of "regionTrailerEntry h" 0 "IndexEntries h" 0] y
    by (auto simp: candidates_def)
  with assms(1) obtain t where t: "regionTrailerEntry h = Some t" by (cases "regionTrailerEntry h") (auto simp: candidates_def)
  have "t < length (IndexEntries h)" using regionTrailer_bound [OF t] .
  with no assms(1) t have "e = IndexEntries h ! t"
    using set_others_Some [of 0 t "IndexEntries h"] by (auto simp: candidates_def)
  with place_all_trailer [of t 0 0 "IndexEntries h" es' n] y t \<open>t < length (IndexEntries h)\<close>
  have "es' ! t = e" by simp
  with place_cases(1) [OF assms(2), of n] y t show ?thesis by (auto simp: syncDataStoreLayout_def)
qed (use place_all_no_error in \<open>auto simp: syncDataStoreLayout_def\<close>)

theorem syncDataStoreLayout_unknown_format_witness:
  "\<exists>m. syncDataStoreLayout (sig_example\<lparr>IndexEntries := [digest_entry, size_entry\<lparr>formatType := 0\<rparr>]\<rparr>) = Panic m"
  by (rule syncDataStoreLayout_unknown_format [of "size_entry\<lparr>formatType := 0\<rparr>"]) (simp_all add: valid_format_def)

section \<open>Editing\<close>

text \<open>C12: deleting a tag from a consistent signature header removes exactly this tag, keeps the
  header consistent (sorted index, counters, region trailer, packed store) and touches nothing
  else.\<close>

theorem DeleteIndexEntryIfExists_refines:
  assumes "consistent h"
  shows "\<exists>h'. DeleteIndexEntryIfExists t h = Ok h' \<and> consistent h' \<and> full_view h' = (full_view h)(ID t := None) \<and>
    meta h' = meta h \<and> set (map tag (IndexEntries h')) = set (map tag (IndexEntries h)) - {ID t}"
  using DeleteIndexEntryIfExists_ok [OF assms, of t] by metis

theorem DeleteIndexEntryIfExists_refines_witness:
  "\<exists>h'. DeleteIndexEntryIfExists SigTagMD5 sig_example = Ok h' \<and> consistent h' \<and>
     set (map tag (IndexEntries h')) = {62, 273, 1000}"
proof -
  from DeleteIndexEntryIfExists_refines [OF sig_example_consistent, of SigTagMD5] obtain h' where
    "DeleteIndexEntryIfExists SigTagMD5 sig_example = Ok h'" "consistent h'"
    "set (map tag (IndexEntries h')) = set (map tag (IndexEntries sig_example)) - {ID SigTagMD5}" by blast
  moreover have "set (map tag (IndexEntries sig_example)) - {ID SigTagMD5} = {62, 273, 1000}"
    by (simp add: example_defs SigTagMD5_def insert_Diff_if)
  ultimately show ?thesis by metis
qed


lemma can_set_example:
  "ID t \<notin> {62, 273, 1000, 1004, 1008} \<Longrightarrow> length p < 1000 \<Longrightarrow> p \<noteq> [] \<Longrightarrow>
   can_set t 7 (of_nat (length p)) p sig_example"
  by (auto simp: can_set_def unmanaged_def managed_tags_def SigTag_defs payload_ok_def new_entry_def
      sig_example_absent sig_example_weight unat_of_nat_u32)


text \<open>C13: the allocator of the data store always returns: the recursion that enlarges or creates
  the reserved space ends, keeps the shape and counters of the header and all tags but the
  reserved space.\<close>

theorem allocateSpaceInDatastore_returns:
  assumes "consistent h" and "valid_format f" and "weight (IndexEntries h) + 2 * unat req + 16384 < 4294967296"
  shows "\<exists>a h'. allocateSpaceInDatastore grow req f h = Some (Ok (a, h')) \<and> sig_shape h' \<and> counted h' \<and>
    sig_view h' = sig_view h \<and> ID SigTagReservedSpace \<in> set (map tag (IndexEntries h'))"
proof -
  obtain a h' where "allocateSpaceInDatastore grow req f h = Some (Ok (a, h'))" "allocated h (unat req) h'"
    using allocateSpaceInDatastore_ok [OF assms, of grow] by metis
  then show ?thesis unfolding allocated_def by (intro exI [of _ a] exI [of _ h']) (metis insertI1)
qed

theorem allocateSpaceInDatastore_returns_witness:
  "\<exists>a h'. allocateSpaceInDatastore (\<lambda>n. n) 300 7 sig_example = Some (Ok (a, h')) \<and> sig_view h' = sig_view sig_example"
  using allocateSpaceInDatastore_returns [OF sig_example_consistent, of 7 300 "\<lambda>n. n"]
  by (auto simp: valid_format_def sig_example_weight)

lemma updateSignedRegionTrailer_array:
  "updateSignedRegionTrailer h = Ok h' \<Longrightarrow> entries_array h' = entries_array h"
  by (auto simp: updateSignedRegionTrailer_def Let_def at_slot_def split: if_splits option.splits)

lemma syncDataStoreLayout_array: "syncDataStoreLayout h = Ok h' \<Longrightarrow> entries_array h' = entries_array h"
  by (auto simp: syncDataStoreLayout_def Let_def split: option.splits elim!: obind_OkE)

lemma insertIndexEntry_array:
  assumes "insertIndexEntry grow e h = Ok h'"
  shows "entries_array h' = entries_array h + (if length (IndexEntries h) < entries_cap h then 0 else 1)"
  using assms
  by (auto simp: insertIndexEntry_def Let_def slices_Insert_def elim!: obind_OkE split: if_splits
      dest!: updateSignedRegionTrailer_array syncDataStoreLayout_array)

lemma allocate_step_array:
  assumes "allocate_step grow req f h = Ok r"
  shows "case r of Inl h' \<Rightarrow> entries_array h \<le> entries_array h' \<and>
      (FindIndexEntry h SigTagReservedSpace = None \<longrightarrow> length (IndexEntries h) = entries_cap h \<longrightarrow>
        entries_array h' = entries_array h + 1)
    | Inr (a, h') \<Rightarrow> entries_array h \<le> entries_array h' \<and> FindIndexEntry h SigTagReservedSpace \<noteq> None"
  using assms
  by (auto simp: allocate_step_def allocate_from_def create_reserved_def Let_def at_slot_def
      elim!: obind_OkE split: if_splits option.splits dest!: insertIndexEntry_array)

lemma allocate_array_mono:
  assumes "allocateSpaceInDatastore grow req f h = Some (Ok (a, h'))"
  shows "entries_array h \<le> entries_array h'"
proof -
  have "case Ok (a, h') of Ok (a, h') \<Rightarrow> entries_array h \<le> entries_array h' | _ \<Rightarrow> True"
  proof (rule allocateSpaceInDatastore.raw_induct [OF _ assms,
      where P = "\<lambda>grow req f h r. case r of Ok (a, h') \<Rightarrow> entries_array h \<le> entries_array h' | _ \<Rightarrow> True"])
    fix alloc grow req f h r
    assume IH: "\<And>grow req f h r. alloc grow req f h = Some r \<Longrightarrow>
        (case r of Ok (a, h') \<Rightarrow> entries_array h \<le> entries_array h' | _ \<Rightarrow> True)"
      and eq: "(case allocate_step grow req f h of Ok s \<Rightarrow> (case s of Inl h \<Rightarrow> alloc grow req f h | Inr res \<Rightarrow> Some (Ok res))
        | Err e \<Rightarrow> Some (Err e) | Panic m \<Rightarrow> Some (Panic m)) = Some r"
    show "case r of Ok (a, h') \<Rightarrow> entries_array h \<le> entries_array h' | _ \<Rightarrow> True"
    proof (cases "allocate_step grow req f h")
      case (Ok s)
      show ?thesis
      proof (cases s)
        case (Inl h1)
        with Ok eq have "alloc grow req f h1 = Some r" by simp
        from IH [OF this] allocate_step_array [OF Ok] Inl show ?thesis by (auto split: outcome.splits)
      next
        case (Inr x)
        with Ok eq allocate_step_array [OF Ok] show ?thesis by (auto split: prod.splits)
      qed
    qed (use eq in auto)
  qed
  then show ?thesis by simp
qed

text \<open>C34: replacing an existing payload by a longer one can lose the new payload. When the reserved
  space has to be created and the index array is full, the entry that was looked up before still
  points into the old array: the call succeeds and the header keeps the old payload.\<close>

theorem SetOrAddIndexEntry_loses_payload:
  assumes con: "consistent h" and i: "FindIndexEntry h t = Some i" "formatType (IndexEntries h ! i) = f"
    and longer: "length (payload (IndexEntries h ! i)) < length p"
    and inner: "isAtEndOfDataStore h (IndexEntries h ! i) = Ok False"
    and full: "FindIndexEntry h SigTagReservedSpace = None" "length (IndexEntries h) = entries_cap h"
    and bound: "weight (IndexEntries h) + 2 * length p + 16384 < 4294967296"
  shows "\<exists>h'. SetOrAddIndexEntry grow t f n p h = Some (Ok h') \<and> consistent h' \<and> sig_view h' = sig_view h"
proof -
  have len: "unat (of_nat (length p) :: u32) = length p" using bound by (simp add: unat_of_nat_u32)
  have "valid_format f"
    using con FindIndexEntry_Some(3) [OF i(1)] i(2) payload_ok_valid
    by (auto simp: consistent_def sig_shape_def entries_ok_def)
  then obtain a h1 where al: "allocateSpaceInDatastore grow (of_nat (length p)) f h = Some (Ok (a, h1))"
    "allocated h (length p) h1"
    using allocateSpaceInDatastore_ok [OF con, of f "of_nat (length p)" grow] bound len by metis
  obtain h0 where h0: "allocate_step grow (of_nat (length p)) f h = Ok (Inl h0)"
    using al(1) allocate_step_array [of grow "of_nat (length p)" f h] full(1)
    by (subst (asm) allocateSpaceInDatastore.simps) (auto split: outcome.splits sum.splits)
  then have "allocateSpaceInDatastore grow (of_nat (length p)) f h0 = Some (Ok (a, h1))"
    using al(1) by (subst (asm) allocateSpaceInDatastore.simps) simp
  from allocate_array_mono [OF this] allocate_step_array [OF h0] full
  have stale: "write_existing (entries_array h) i a n p h1 = h1" by (simp add: write_existing_def)
  have "sig_shape h1" "counted h1" "sig_view h1 = sig_view h" using al(2) by (simp_all add: allocated_def)
  then obtain h' where "syncDataStoreLayout h1 = Ok h'" "consistent h'" "sig_view h' = sig_view h"
    using syncDataStoreLayout_consistent [of h1] by (metis sig_view_full)
  with i longer inner al(1) stale show ?thesis by (simp add: SetOrAddIndexEntry_def Let_def)
qed

theorem SetOrAddIndexEntry_loses_payload_witness:
  "\<exists>h'. SetOrAddIndexEntry (\<lambda>n. 2 * n) SigTagSHA256Header FORMAT_TYPE_STRING 1 [0x61, 0x62, 0x63, 0x64, 0] sig_example
     = Some (Ok h') \<and> sig_view h' 273 = Some (FORMAT_TYPE_STRING, 1, [0x61, 0x62, 0])"
proof -
  have f: "FindIndexEntry sig_example SigTagSHA256Header = Some 1"
    by (simp add: FindIndexEntry_def example_defs SigTag_defs)
  have e: "isAtEndOfDataStore sig_example (IndexEntries sig_example ! 1) = Ok False"
    by (simp add: isAtEndOfDataStore_def sig_example_slots) (simp add: example_defs endOffset_def)
  have v: "sig_view sig_example 273 = Some (FORMAT_TYPE_STRING, 1, [0x61, 0x62, 0])"
    by (simp add: sig_view_def entry_map_def example_defs entry_value_def managed_tags_def SigTag_defs restrict_map_def)
  have "formatType (IndexEntries sig_example ! 1) = FORMAT_TYPE_STRING"
    "length (payload (IndexEntries sig_example ! 1)) < length [0x61, 0x62, 0x63, 0x64, 0 :: u8]"
    "length (IndexEntries sig_example) = entries_cap sig_example"
    "weight (IndexEntries sig_example) + 2 * length [0x61, 0x62, 0x63, 0x64, 0 :: u8] + 16384 < 4294967296"
    by (simp_all add: sig_example_weight) (simp_all add: example_defs)
  from SetOrAddIndexEntry_loses_payload [OF sig_example_consistent f this(1,2) e sig_example_slots(3) this(3,4),
    of "\<lambda>n. 2 * n" 1] v show ?thesis by metis
qed

section \<open>Writing and parsing\<close>

text \<open>C31: a header whose payloads are well formed, aligned and disjoint is written as exactly the
  preamble, the index records in order, and a data store in which every payload stands at its
  offset and every other byte is zero.\<close>

theorem RpmHeader_Write_bytes:
  assumes "storable (IndexEntries h)" and "unlimited w"
  shows "\<exists>w' store. RpmHeader_Write h False w = Ok w' \<and>
    contents w' = contents w @ preamble_bytes h @ concat (map entry_bytes (IndexEntries h)) @ store \<and>
    length store = store_end (IndexEntries h) \<and>
    (\<forall>e\<in>set (IndexEntries h). take (length (payload e)) (drop (unat (offset e)) store) = payload e) \<and>
    (\<forall>k<length store. \<not> (\<exists>e\<in>set (IndexEntries h). covers e k) \<longrightarrow> store ! k = 0)"
proof -
  let ?es = "IndexEntries h"
  obtain w' where "RpmHeader_Write h False w = Ok w'" "contents w' = contents w @ header_bytes h"
    by (rule emitsD [OF RpmHeader_Write_emits [OF assms(1)] assms(2)])
  moreover have "take (length (payload e)) (drop (unat (offset e)) (store_bytes ?es)) = payload e" if "e \<in> set ?es" for e
    using store_bytes_payload [of ?es e] assms(1) that by (simp add: storable_def)
  moreover have "store_bytes ?es ! k = 0" if "k < store_end ?es" "\<not> (\<exists>e\<in>set ?es. covers e k)" for k
    using that store_byte_default by (simp add: store_bytes_def)
  ultimately show ?thesis
    by (intro exI [of _ w'] exI [of _ "store_bytes ?es"]) (simp add: header_bytes_def)
qed

theorem RpmHeader_Write_bytes_witness:
  "\<exists>w' store. RpmHeader_Write main_example False NewArrayWriter = Ok w' \<and>
     contents w' = [0x8e, 0xad, 0xe8, 1, 0, 0, 0, 0, 0, 0, 0, 1, 0, 0, 0, 2,
       0, 0, 3, 0xe8, 0, 0, 0, 6, 0, 0, 0, 0, 0, 0, 0, 1] @ store \<and> length store = 2"
proof -
  have "storable (IndexEntries main_example)" using main_example_wf by (simp add: header_wf_def)
  from RpmHeader_Write_bytes [OF this, of NewArrayWriter] obtain w' store where
    "RpmHeader_Write main_example False NewArrayWriter = Ok w'"
    "contents w' = contents NewArrayWriter @ preamble_bytes main_example @ concat (map entry_bytes (IndexEntries main_example)) @ store"
    "length store = store_end (IndexEntries main_example)" by (auto simp: NewArrayWriter_def)
  then show ?thesis
    by (intro exI [of _ w'] exI [of _ store])
      (simp add: main_example_def NewArrayWriter_def preamble_bytes_def entry_bytes_def be32_def be16_def headerMagic_def)
qed

text \<open>The same header with overlapping payloads is not written.\<close>

lemma overlap_of_not_apart:
  "\<not> apart e f \<Longrightarrow> payload e \<noteq> [] \<Longrightarrow> payload f \<noteq> [] \<Longrightarrow> data_range e \<inter> data_range f \<noteq> {}"
proof -
  assume "\<not> apart e f" "payload e \<noteq> []" "payload f \<noteq> []"
  then have "max (unat (offset e)) (unat (offset f)) \<in> data_range e \<inter> data_range f"
    by (auto simp: apart_def data_range_def max_def)
  then show ?thesis by blast
qed

lemma write_entry_overlap:
  assumes "payload_ok e" and "unat (offset e) mod align_of (formatType e) = 0"
    and "da_ok da" and "data_range e \<inter> bits_of (bitmap da) \<noteq> {}"
    and "unat (offset e) + length (payload e) < 4294967295" and "unlimited w"
  shows "\<exists>m. write_entry (da, w) e = Panic m"
proof -
  obtain a where a: "GetRequiredAlignment (formatType e) = Ok a" "offset e mod ucast a = 0"
    using alignment_check [OF _ assms(2)] payload_ok_valid [OF assms(1)] by blast
  obtain w1 where w1: "writeWord (tag e) w = Ok w1" "unlimited w1"
    by (rule emitsD [OF word_codec.put_emits assms(6)])
  obtain w2 where w2: "writeWord (formatType e) w1 = Ok w2" "unlimited w2"
    by (rule emitsD [OF word_codec.put_emits w1(2)])
  obtain w3 where w3: "writeWord (offset e) w2 = Ok w3" "unlimited w3"
    by (rule emitsD [OF word_codec.put_emits w2(2)])
  obtain w4 where w4: "writeWord (dataItemCnt e) w3 = Ok w4"
    by (rule emitsD [OF word_codec.put_emits w3(2)])
  obtain da' where "DynamicArray_Write da (payload e) (offset e) = Ok (Some (Errorf ''write to overlapping range''), da')"
    using Write_overlap [OF assms(3,5)] assms(4) unfolding data_range_def by blast
  with a w1 w2 w3 w4 show ?thesis by (simp add: write_entry_def)
qed

lemma write_entries_overlap:
  assumes "\<forall>e\<in>set es. payload_ok e \<and> unat (offset e) mod align_of (formatType e) = 0"
    and "store_end es < 4294967295" and "da_ok da" and "unlimited w"
    and "\<not> sorted_wrt apart es \<or> (\<exists>e\<in>set es. data_range e \<inter> bits_of (bitmap da) \<noteq> {})"
  shows "\<exists>m. ofold write_entry (da, w) es = Panic m"
  using assms
proof (induction es arbitrary: da w)
  case (Cons e es)
  have e: "payload_ok e" "unat (offset e) mod align_of (formatType e) = 0"
    "unat (offset e) + length (payload e) < 4294967295" using Cons.prems(1,2) by simp_all
  show ?case
  proof (cases "data_range e \<inter> bits_of (bitmap da) = {}")
    case False
    with write_entry_overlap [OF e(1,2) Cons.prems(3) _ e(3) Cons.prems(4)] show ?thesis by auto
  next
    case True
    obtain da1 w1 where s1: "write_entry (da, w) e = Ok (da1, w1)" "wrote w (entry_bytes e) w1" "da_ok da1"
      "bits_of (bitmap da1) = bits_of (bitmap da) \<union> data_range e"
      using write_entry_ok [OF e(1,2) Cons.prems(3) True e(3) Cons.prems(4)] by metis
    have "\<not> sorted_wrt apart es \<or> (\<exists>x\<in>set es. data_range x \<inter> bits_of (bitmap da1) \<noteq> {})"
    proof (cases "\<forall>x\<in>set es. apart e x")
      case False
      then obtain x where x: "x \<in> set es" "\<not> apart e x" by blast
      then have "data_range e \<inter> data_range x \<noteq> {}"
        using Cons.prems(1) e(1) payload_ok_valid by (intro overlap_of_not_apart) auto
      with x(1) s1(4) show ?thesis by blast
    next
      case ap: True
      with Cons.prems(5) True s1(4) show ?thesis by auto
    qed
    moreover have "unlimited w1" using wrote_unlimited [OF s1(2)] Cons.prems(4) by simp
    ultimately show ?thesis using Cons.IH [of da1 w1] Cons.prems(1,2) s1(1,3) by auto
  qed
qed simp

text \<open>C35: a header with overlapping payloads is never written as a file: writing panics.\<close>

theorem RpmHeader_Write_overlap:
  assumes "\<forall>e\<in>set (IndexEntries h). payload_ok e \<and> unat (offset e) mod align_of (formatType e) = 0"
    and "store_end (IndexEntries h) < 4294967295" and "unlimited w"
    and "\<not> sorted_wrt apart (IndexEntries h)"
  shows "\<exists>m. RpmHeader_Write h False w = Panic m"
proof -
  have "emits (\<lambda>w. obind (writeBytes (Magic h) w) (\<lambda>w1. obind (writeByte (version h) w1) (\<lambda>w2.
     obind (writeBytes (reserved h) w2) (\<lambda>w3. obind (writeWord (indexEntryCount h) w3) (\<lambda>w4.
     writeWord (storeSizeInBytes h) w4)))))
     (Magic h @ [version h] @ reserved h @ be32 (indexEntryCount h) @ be32 (storeSizeInBytes h))"
    by (intro emits_bind emits_writeBytes emits_writeByte word_codec.put_emits)
  from emitsD [OF this assms(3)] obtain w5 where w5: "obind (writeBytes (Magic h) w) (\<lambda>w1. obind (writeByte (version h) w1) (\<lambda>w2.
     obind (writeBytes (reserved h) w2) (\<lambda>w3. obind (writeWord (indexEntryCount h) w3) (\<lambda>w4.
     writeWord (storeSizeInBytes h) w4)))) = Ok w5" "unlimited w5" by metis
  obtain m where "ofold write_entry (NewDynamicArray, w5) (IndexEntries h) = Panic m"
    using write_entries_overlap [OF assms(1,2) da_ok_new w5(2)] assms(4) by blast
  with w5(1) show ?thesis
    by (auto simp: RpmHeader_Write_def elim!: obind_OkE)
qed

theorem RpmHeader_Write_overlap_witness:
  "\<exists>m. RpmHeader_Write (sig_example\<lparr>IndexEntries := [digest_entry, size_entry\<lparr>offset := 0\<rparr>]\<rparr>) False NewArrayWriter = Panic m"
proof (rule RpmHeader_Write_overlap)
  have "payload_ok (size_entry\<lparr>offset := 0\<rparr>)" by (simp add: payload_ok_def size_entry_def)
  with example_payloads(2) show "\<forall>e\<in>set (IndexEntries (sig_example\<lparr>IndexEntries := [digest_entry, size_entry\<lparr>offset := 0\<rparr>]\<rparr>)).
      payload_ok e \<and> unat (offset e) mod align_of (formatType e) = 0"
    by simp (simp add: example_defs align_of_def)
qed (simp_all add: example_defs NewArrayWriter_def apart_def)

text \<open>C14: parsing a written main header returns the header, consumes exactly its bytes, and the three
  digest readers have seen exactly these bytes, for every chunking of the input.\<close>

theorem main_header_round_trip:
  assumes "header_wf h" and "IsMainHeader h" and "end_error r = EOF" and "rest r = header_bytes h @ left"
  shows "\<exists>h' r'. parseHeader cap True r = Ok (h', r') \<and> rest r' = left \<and> same_file h h' \<and>
    Md5Digest h' = header_bytes h \<and> Sha1Digest h' = header_bytes h \<and> Sha256Digest h' = header_bytes h"
proof -
  obtain h' r' where "parseHeader cap True r = Ok (h', r')" "feeds r (header_bytes h) r'" "same_file h h'"
    "Sha256Digest h' = header_bytes h" "Sha1Digest h' = header_bytes h" "Md5Digest h' = header_bytes h"
    using parse_main_header_ok [OF assms, of cap] by metis
  moreover from feeds_rest [OF this(2)] assms(4) have "rest r' = left" by simp
  ultimately show ?thesis by blast
qed

theorem main_header_round_trip_witness:
  "\<exists>h' r'. parseHeader id True (NewIOReaderWithOffset (NewArrayReader (header_bytes main_example @ [7]))) = Ok (h', r') \<and>
     rest r' = [7] \<and> IndexEntries h' = IndexEntries main_example"
proof -
  have "IsMainHeader main_example" by (simp add: main_example_def)
  from main_header_round_trip [OF main_example_wf this, of "NewIOReaderWithOffset (NewArrayReader (header_bytes main_example @ [7]))" "[7]" id]
  show ?thesis by (auto simp: same_file_def NewIOReaderWithOffset_def NewArrayReader_def)
qed

text \<open>C15: parsing a written signature header returns the header in a state that can be edited, with
  the signed region read from its trailer, and skips the padding to the next multiple of eight.\<close>

theorem signature_header_round_trip:
  assumes "consistent h" and "file_fields h" and "end_error r = EOF" and "has_offset r"
    and "rest r = header_bytes h @ replicate (pad_to 8 (unat (rd_offset r + of_nat (length (header_bytes h))))) 0 @ left"
  shows "\<exists>h' r'. parseHeader cap False r = Ok (h', r') \<and> rest r' = left \<and> same_file h h' \<and> good_sig h' \<and>
    (has_region h \<longrightarrow> (\<exists>sr. signedRegion h' = Some sr \<and> unat (IndexEntryCount sr) = length (IndexEntries h)))"
proof -
  let ?q = "pad_to 8 (unat (rd_offset r + of_nat (length (header_bytes h))))"
  have le: "?q \<le> length (replicate ?q (0 :: u8) @ left)" by simp
  obtain h' r' where p: "parseHeader cap False r = Ok (h', r')"
    "feeds r (header_bytes h @ take ?q (replicate ?q 0 @ left)) r'" "same_file h h'" "good_sig h'"
    and sr: "\<And>e. e \<in> set (IndexEntries h) \<Longrightarrow> tag e = ID SigTagHeaderSignatures \<Longrightarrow>
      \<exists>sr. signedRegion h' = Some sr \<and> unat (IndexEntryCount sr) = length (IndexEntries h)"
    using parse_sig_header_ok [OF assms(1-3,5,4) le, of cap] by metis
  have "rest r' = left" using feeds_rest [OF p(2)] assms(5) by simp
  moreover have "\<exists>sr. signedRegion h' = Some sr \<and> unat (IndexEntryCount sr) = length (IndexEntries h)" if "has_region h"
    using that sr by (auto simp: has_region_def)
  ultimately show ?thesis using p by blast
qed

theorem signature_header_round_trip_witness:
  "\<exists>h' r'. parseHeader id False (NewArrayReader (header_bytes sig_example @ [])) = Ok (h', r') \<and>
     rest r' = [] \<and> IndexEntries h' = IndexEntries sig_example"
proof -
  have "length (header_bytes sig_example) = 120"
    by (simp add: header_bytes_def preamble_bytes_def entry_bytes_def be32_def be16_def example_defs headerMagic_def)
  then have "pad_to 8 (unat (rd_offset (NewArrayReader (header_bytes sig_example @ [])) + of_nat (length (header_bytes sig_example)))) = 0"
    by (simp add: NewArrayReader_def pad_to_def)
  with signature_header_round_trip [OF sig_example_consistent sig_example_fields,
    of "NewArrayReader (header_bytes sig_example @ [])" "[]" id] show ?thesis
    by (auto simp: same_file_def NewArrayReader_def)
qed

section \<open>Printing\<close>

text \<open>Dumping a header with at least one entry, all of them well formed, never panics.\<close>

theorem DumpIndexEntries_total:
  assumes "\<forall>e\<in>set (IndexEntries h). payload_ok e" and "IndexEntries h \<noteq> []"
  shows "is_ok (DumpIndexEntries h n compact)"
  using DumpIndexEntries_ok [OF assms] .

theorem DumpIndexEntries_total_witness: "is_ok (DumpIndexEntries sig_example 25 True)"
  by (rule DumpIndexEntries_total) (use example_payloads in \<open>auto simp: sig_example_def\<close>)

text \<open>Dumping a header without entries panics, since the first row is addressed without a check.\<close>

theorem DumpIndexEntries_no_entries:
  assumes "IndexEntries h = []"
  shows "DumpIndexEntries h n compact = Panic ''index out of range''"
  using DumpIndexEntries_empty [OF assms] .

theorem DumpIndexEntries_no_entries_witness:
  "DumpIndexEntries (sig_example\<lparr>IndexEntries := []\<rparr>) 25 True = Panic ''index out of range''"
  by (rule DumpIndexEntries_no_entries) simp

end
