(* ===== verification/File_Properties.thy ===== *)
theory File_Properties
  imports Signing_Proofs Header_Properties
begin

text \<open>
  The properties of whole files: reading and writing, validation, signing and verification, with an
  example file and an example library that witness them.
\<close>

section \<open>An example file and library\<close>

definition lead_example :: RpmLead where
  "lead_example = \<lparr>lead_Magic = leadMagic, lead_Major = 3, lead_Minor = 0, packageType = 0, ArchNum = 1,
     lead_name = replicate 66 0, OsNum = 1, SignatureType = 5, lead_Reserved = replicate 16 0\<rparr>"

definition file_example :: RpmFile where
  "file_example = \<lparr>Lead = lead_example, SignatureHeader = sig_example,
     MainHeader = main_example\<lparr>Sha256Digest := header_bytes main_example\<rparr>,
     PayloadStartOffset = 250, CompressedPayloadSize = 16\<rparr>"

definition hash_example :: hashes where
  "hash_example = \<lparr>h_md5 = (\<lambda>d. []), h_sha1 = (\<lambda>d. []), h_sha256 = (\<lambda>d. [0xab])\<rparr>"

definition pgp_example :: "(bytes, unit) pgp" where
  "pgp_example = \<lparr>PubKeyAlgoRSA = 1, PubKeyAlgoRSASignOnly = 3, PubKeyAlgoRSAEncryptOnly = 2, PubKeyAlgoDSA = 17,
     SigTypeBinary = 0, default_Hash = 5,
     sig_Sign = (\<lambda>s d k. Ok (d, d @ [4, 0xff])), sig_Serialize = (\<lambda>sg. Ok (0xc2 # sg)),
     sig_PrepareSign = (\<lambda>s. Ok []), armor_Encode = None, armor_Close = Ok, armor_Decode = (\<lambda>d. None),
     read_packets = (\<lambda>d. []), Decrypt = (\<lambda>k p. Ok k), ReadArmoredKeyRing = (\<lambda>d. Ok [()]),
     CheckDetachedSignature = (\<lambda>ring d s. if s = 0xc2 # d then Ok () else Err EOF)\<rparr>"

definition key_example :: PrivateKey where
  "key_example = \<lparr>PubKeyAlgo = 1, Encrypted = False, key_Version = 4, KeyId = 77, key_material = [1, 2, 3]\<rparr>"

lemma file_example_simps [simp]:
  "Lead file_example = lead_example" "SignatureHeader file_example = sig_example"
  "IndexEntries (MainHeader file_example) = IndexEntries main_example"
  "Sha256Digest (MainHeader file_example) = header_bytes main_example"
  by (simp_all add: file_example_def)

lemma file_example_wf: "file_wf file_example"
proof -
  have "header_wf (main_example\<lparr>Sha256Digest := d\<rparr>)" for d using main_example_wf by (simp add: header_wf_def)
  then show ?thesis using sig_example_consistent sig_example_fields
    by (simp add: file_wf_def) (simp add: file_example_def lead_wf_def lead_example_def leadMagic_def main_example_def)
qed

lemma sig_example_tags:
  "FindIndexEntry sig_example SigTagSHA256Header = Some 1" "FindIndexEntry sig_example SigTagSize = Some 2"
  "FindIndexEntry sig_example SigTagSHA1Header = None" "FindIndexEntry sig_example SigTagSigSize = None"
  "FindIndexEntry sig_example SigTagHeaderSignatures = Some 0"
  by (simp_all add: FindIndexEntry_def example_defs SigTag_defs)

lemma file_example_valid: "file_valid hash_example file_example"
proof -
  have "digest_tag sig_example SigTagSHA256Header nm = Ok (Some ([0x61, 0x62, 0], [0xab]))" for nm
    by (simp add: digest_tag_def sig_example_tags)
      (simp add: example_defs StringValue_def parseNullTerminatedStrings_def char_of_byte_def hex_value_def Let_def)
  then have "digest_matches sig_example SigTagSHA256Header nm [0xab]" for nm by (simp add: digest_matches_def)
  moreover have "digest_matches sig_example SigTagSHA1Header nm []" for nm
    by (simp add: digest_matches_def digest_tag_def sig_example_tags)
  moreover have "is_ok (Int32Value (IndexEntries sig_example ! 2))"
  proof -
    have "rest (NewArrayReader [0, 0, 0, 50]) = be32 50 @ []" "end_error (NewArrayReader [0, 0, 0, 50]) = EOF"
      by (simp_all add: NewArrayReader_def be32_def be16_def)
    from readsD [OF word_codec.get_reads this(2,1)] obtain r' where
      "readWord (NewArrayReader [0, 0, 0, 50]) = Ok (50, r')" by metis
    moreover have "payload (IndexEntries sig_example ! 2) = [0, 0, 0, 50]" "formatType (IndexEntries sig_example ! 2) = 4"
      by (simp_all add: example_defs)
    ultimately show ?thesis by (simp add: Int32Value_def)
  qed
  moreover have "FindIndexEntry (MainHeader file_example) TagRpmformat = None"
    by (simp add: FindIndexEntry_def) (simp add: main_example_def TagRpmformat_def)
  ultimately show ?thesis
    by (simp add: file_valid_def Let_def sig_size_entry_def has_tag_def sig_example_tags GetFileFormatVersion_def hash_example_def)
      (simp add: lead_example_def GetPackageType_def)
qed

lemma sign_example:
  "SignDigest pgp_example 0 d key_example = Ok (0xc2 # d, d @ [4, 0xff])"
  "signature_tag pgp_example key_example = SigTagRSAHeader" "GetKeyType pgp_example key_example = KEY_TYPE_RSA"
  by (simp_all add: SignDigest_def signature_tag_def GetKeyType_def pgp_example_def key_example_def)

lemma accepts_example: "accepts_key pgp_example [()] key_example"
  by (simp add: accepts_key_def pgp_example_def)

lemma can_set_signature_example:
  "can_set (signature_tag pgp_example key_example) FORMAT_TYPE_BINARY
     (of_nat (length (0xc2 # header_bytes main_example))) (0xc2 # header_bytes main_example) sig_example"
proof -
  have "length (header_bytes main_example) = 34"
    by (simp add: header_bytes_def preamble_bytes_def entry_bytes_def be32_def be16_def main_example_def headerMagic_def)
  then show ?thesis using can_set_example [of SigTagRSAHeader "0xc2 # header_bytes main_example"]
    by (simp add: sign_example SigTagRSAHeader_def)
qed

section \<open>Reading and writing files\<close>

text \<open>C30: a written file is the lead, the signature header, zero padding to a multiple of eight, the
  main header and then every byte the payload reader delivers, for every writer without a limit and
  every chunking of the payload.\<close>

theorem RpmFile_Write_bytes:
  assumes "file_wf f" and "unlimited d" and "end_error p = EOF"
  shows "\<exists>d' p'. RpmFile_Write f d p = Ok (d', p') \<and>
    contents d' = contents d @ lead_bytes (Lead f) @ header_bytes (SignatureHeader f) @
      replicate (pad_to 8 (96 + length (header_bytes (SignatureHeader f)))) 0 @ header_bytes (MainHeader f) @ rest p"
proof -
  have st: "storable (IndexEntries (SignatureHeader f))" "storable (IndexEntries (MainHeader f))"
    using assms(1) consistent_storable by (auto simp: file_wf_def header_wf_def)
  obtain d' p' where w: "RpmFile_Write f d p = Ok (d', p')" "wrote d (file_bytes f @ rest p) d'"
    using RpmFile_Write_ok [OF st assms(2,3)] by metis
  have "length (lead_bytes (Lead f)) = 96" using assms(1) lead_length by (simp add: file_wf_def)
  with w wrote_contents [OF w(2)] show ?thesis by (simp add: file_bytes_def front_bytes_def)
qed

theorem RpmFile_Write_bytes_witness:
  "\<exists>d' p'. RpmFile_Write file_example NewArrayWriter (NewArrayReader [1, 2, 3]) = Ok (d', p') \<and>
     take 8 (contents d') = [0xed, 0xab, 0xee, 0xdb, 3, 0, 0, 0]"
  using RpmFile_Write_bytes [OF file_example_wf, of NewArrayWriter "NewArrayReader [1, 2, 3]"]
  by (auto simp: NewArrayWriter_def NewArrayReader_def lead_bytes_def lead_example_def leadMagic_def be16_def)

text \<open>C7: parsing the bytes of a well-formed, valid file returns its lead and both headers, in a
  state that can be signed, with the digest of exactly the main header's bytes, and leaves the
  reader at the first byte of the payload.\<close>

theorem ParseRPM_round_trip:
  assumes "file_wf f" and "file_valid H f" and "end_error r = EOF" and "rest r = file_bytes f @ payload'"
    and "has_offset r" and "rd_offset r = 0"
  shows "\<exists>g r'. ParseRPM H cap False r = Ok (g, r') \<and> rest r' = payload' \<and> Lead g = Lead f \<and>
    same_file (SignatureHeader f) (SignatureHeader g) \<and> same_file (MainHeader f) (MainHeader g) \<and>
    good_sig (SignatureHeader g) \<and> Sha256Digest (MainHeader g) = header_bytes (MainHeader f) \<and>
    PayloadStartOffset g = of_nat (length (file_bytes f))"
proof -
  obtain g r' where g: "ParseRPM H cap False r = Ok (g, r')" "feeds r (file_bytes f) r'" "Lead g = Lead f"
    "same_file (SignatureHeader f) (SignatureHeader g)" "good_sig (SignatureHeader g)"
    "same_file (MainHeader f) (MainHeader g)" "Sha256Digest (MainHeader g) = header_bytes (MainHeader f)"
    "PayloadStartOffset g = of_nat (length (file_bytes f))"
    using ParseRPM_ok [OF assms, of cap] by metis
  moreover have "rest r' = payload'" using feeds_rest [OF g(2)] assms(4) by simp
  ultimately show ?thesis by blast
qed

theorem ParseRPM_round_trip_witness:
  "\<exists>g r'. ParseRPM hash_example id False (NewIOReaderWithOffset (NewArrayReader (file_bytes file_example @ [7, 8]))) = Ok (g, r') \<and>
     rest r' = [7, 8] \<and> IndexEntries (SignatureHeader g) = IndexEntries sig_example"
  using ParseRPM_round_trip [OF file_example_wf file_example_valid,
    of "NewIOReaderWithOffset (NewArrayReader (file_bytes file_example @ [7, 8]))" "[7, 8]" id]
  by (auto simp: NewIOReaderWithOffset_def NewArrayReader_def same_file_def)

section \<open>Validation\<close>

lemma check_digest_sound:
  assumes "digest_tag h t nm = Ok d" and "check_digest nm shown d actual = Ok u"
  shows "digest_matches h t nm actual"
  using assms by (auto simp: digest_matches_def check_digest_def split: option.splits if_splits)

lemma validate_sound:
  assumes "validate H g md5 = Ok u"
  shows "digest_matches (SignatureHeader g) SigTagSHA1Header ''SHA1'' (GetSha1Digest H (MainHeader g)) \<and>
    digest_matches (SignatureHeader g) SigTagSHA256Header ''SHA256'' (GetSha256Digest H (MainHeader g)) \<and>
    (md5 \<longrightarrow> (\<forall>i. FindIndexEntry (SignatureHeader g) SigTagMD5 = Some i \<longrightarrow>
       payload (IndexEntries (SignatureHeader g) ! i) = GetMd5Digest H (MainHeader g))) \<and>
    (\<exists>sr. signedRegion (SignatureHeader g) = Some sr \<and>
       length (IndexEntries (SignatureHeader g)) = unat (IndexEntryCount sr)) \<and>
    (\<exists>t\<in>{SigTagMD5, SigTagSigMD5, SigTagSHA1Header, SigTagSHA256Header}. has_tag (SignatureHeader g) t)"
proof -
  let ?sig = "SignatureHeader g"
  define md5H where "md5H = (case FindIndexEntry ?sig SigTagMD5 of Some i \<Rightarrow> Some i | None \<Rightarrow> FindIndexEntry ?sig SigTagSigMD5)"
  from assms have v: "validateDigests H g md5 = Ok u" by (auto simp: validate_def elim: obind_OkE)
  then obtain sr ver d1 d2 where sr: "signedRegion ?sig = Some sr" "length (IndexEntries ?sig) = unat (IndexEntryCount sr)"
    and d: "digest_tag ?sig SigTagSHA1Header ''SHA1'' = Ok d1" "digest_tag ?sig SigTagSHA256Header ''SHA256'' = Ok d2"
    and c: "check_md5 H g md5H md5 = Ok ()" "check_digest ''SHA1'' snd d1 (GetSha1Digest H (MainHeader g)) = Ok ()"
      "check_digest ''SHA256'' fst d2 (GetSha256Digest H (MainHeader g)) = Ok ()"
    and some: "\<not> (md5H = None \<and> d1 = None \<and> d2 = None)"
    unfolding validateDigests_def md5H_def [symmetric] Let_def
    by (auto split: option.splits if_splits elim!: obind_OkE)
  have "has_tag ?sig SigTagMD5 \<or> has_tag ?sig SigTagSigMD5" if "md5H \<noteq> None"
    using that by (auto simp: md5H_def has_tag_def split: option.splits)
  moreover have "has_tag ?sig SigTagSHA1Header" if "d1 \<noteq> None"
    using that d(1) by (auto simp: digest_tag_def has_tag_def split: option.splits)
  moreover have "has_tag ?sig SigTagSHA256Header" if "d2 \<noteq> None"
    using that d(2) by (auto simp: digest_tag_def has_tag_def split: option.splits)
  moreover have "payload (IndexEntries ?sig ! i) = GetMd5Digest H (MainHeader g)"
    if "md5" "FindIndexEntry ?sig SigTagMD5 = Some i" for i
    using c(1) that by (auto simp: check_md5_def md5H_def Let_def split: if_splits)
  ultimately show ?thesis
    using check_digest_sound [OF d(1) c(2)] check_digest_sound [OF d(2) c(3)] sr some by auto
qed



section \<open>Signing and verification\<close>



text \<open>A key that is neither RSA nor DSA is refused, before anything is signed or changed.\<close>

theorem SignRpm_rejects_key_type:
  assumes "GetKeyType L key = KEY_TYPE_OTHER"
  shows "SignRpm L grow now key f = Some (Err (Errorf ''failed to load sign digest''))"
  using SignRpm_rejects [OF assms] .

theorem SignRpm_rejects_key_type_witness:
  "SignRpm pgp_example (\<lambda>n. n) 0 (key_example\<lparr>PubKeyAlgo := 22\<rparr>) file_example =
     Some (Err (Errorf ''failed to load sign digest''))"
  by (rule SignRpm_rejects_key_type) (simp add: GetKeyType_def pgp_example_def key_example_def)

lemma verify_tag_ok: "verify_tag L keys d s f = Ok () \<longleftrightarrow> (\<forall>p. s = Some p \<longrightarrow> is_ok (CheckDetachedSignature L keys d p))"
  by (auto simp: verify_tag_def VerifySignature_def split: option.splits outcome.splits)

text \<open>C29: verification of the version 4 signature succeeds exactly when the file has an RSA or DSA
  header signature and the library accepts each one present for the bytes of the main header.\<close>

theorem VerifyV4Signature_iff:
  assumes "NewSignatureVerifier f p keys = Ok v"
  shows "VerifyV4Signature L v = Ok () \<longleftrightarrow>
    (has_tag (SignatureHeader f) SigTagRSAHeader \<or> has_tag (SignatureHeader f) SigTagDSAHeader) \<and>
    (\<exists>data. GetData (MainHeader f) = Ok data \<and>
      (\<forall>t\<in>{SigTagRSAHeader, SigTagDSAHeader}. \<forall>i. FindIndexEntry (SignatureHeader f) t = Some i \<longrightarrow>
         is_ok (CheckDetachedSignature L keys data (payload (IndexEntries (SignatureHeader f) ! i)))))"
proof -
  obtain data where data: "GetData (MainHeader f) = Ok data" and v: "v = \<lparr>rpmFile = f,
      mainHeaderData = NewArrayReader data, payloadReader = p, gpgPublicKeys = keys\<rparr>"
    using assms by (auto simp: NewSignatureVerifier_def elim!: obind_OkE)
  obtain r' where r': "io_ReadAll (Rewind (NewArrayReader data)) = Ok (data, r')"
    using io_ReadAll_ok [of "Rewind (NewArrayReader data)"] by (auto simp: Rewind_def NewArrayReader_def)
  have sp: "sig_payload v t = map_option (\<lambda>i. payload (IndexEntries (SignatureHeader f) ! i)) (FindIndexEntry (SignatureHeader f) t)" for t
    by (simp add: sig_payload_def v)
  have "VerifyV4Signature L v = Ok () \<longleftrightarrow>
      (sig_payload v SigTagRSAHeader \<noteq> None \<or> sig_payload v SigTagDSAHeader \<noteq> None) \<and>
      verify_tag L keys data (sig_payload v SigTagRSAHeader) (\<lambda>e. e) = Ok () \<and>
      verify_tag L keys data (sig_payload v SigTagDSAHeader) (\<lambda>e. e) = Ok ()"
    using r' by (auto simp: VerifyV4Signature_def Let_def v elim!: obind_OkE)
  then show ?thesis using data by (auto simp: verify_tag_ok sp has_tag_def)
qed

theorem VerifyV4Signature_iff_witness:
  "\<exists>v. NewSignatureVerifier file_example None [()] = Ok v \<and> VerifyV4Signature pgp_example v \<noteq> Ok ()"
proof -
  have st: "storable (IndexEntries (MainHeader file_example))" using main_example_wf by (simp add: header_wf_def)
  have "\<not> has_tag sig_example SigTagRSAHeader" "\<not> has_tag sig_example SigTagDSAHeader"
    by (simp_all add: has_tag_def FindIndexEntry_def example_defs SigTag_defs)
  with VerifyV4Signature_iff [OF NewSignatureVerifier_ok [OF st, of None "[()]"], where L = pgp_example]
    NewSignatureVerifier_ok [OF st, of None "[()]"] show ?thesis by auto
qed

text \<open>Bytes that, followed by any payload, parse to a signed copy of a file.\<close>

definition signed_copy ::
  "('sg, 'ent) pgp \<Rightarrow> hashes \<Rightarrow> 'ent list \<Rightarrow> PrivateKey \<Rightarrow> bytes \<Rightarrow> RpmFile \<Rightarrow> bytes \<Rightarrow> bool" where
  "signed_copy L H ring key pkt f out \<longleftrightarrow>
     (\<forall>cap r left. rest r = out @ left \<longrightarrow> end_error r = EOF \<longrightarrow> has_offset r \<longrightarrow> rd_offset r = 0 \<longrightarrow>
      (\<exists>g r' v. ParseRPM H cap False r = Ok (g, r') \<and> rest r' = left \<and> Lead g = Lead f \<and>
         same_file (MainHeader f) (MainHeader g) \<and>
         sig_view (SignatureHeader g) = signed_view L key pkt (sig_view (SignatureHeader f)) \<and>
         NewSignatureVerifier g None ring = Ok v \<and> VerifySignatures L H {SIGNATURE_VERSION_V4} v = Ok ()))"

lemma signed_file_copy:
  assumes wf: "file_wf f"
    and sgn: "SignDigest L now (header_bytes (MainHeader f)) key = Ok (pkt, digest')"
    and lib: "accepts_key L ring key"
    and h: "sig_view h = signed_view L key pkt (sig_view (SignatureHeader f))"
      "file_wf (signed_file f digest' h)" "file_valid H (signed_file f digest' h)"
  shows "signed_copy L H ring key pkt f (file_bytes (signed_file f digest' h))"
  unfolding signed_copy_def
proof (intro allI impI)
  fix cap r left
  let ?f = "signed_file f digest' h"
  assume r: "rest r = file_bytes ?f @ left" "end_error r = EOF" "has_offset r" "rd_offset r = 0"
  obtain g r' where g: "ParseRPM H cap False r = Ok (g, r')" "feeds r (file_bytes ?f) r'" "Lead g = Lead ?f"
    "same_file (SignatureHeader ?f) (SignatureHeader g)" "same_file (MainHeader ?f) (MainHeader g)"
    using ParseRPM_ok [OF h(2,3) r(2,1,3,4), of cap] by metis
  have sv: "sig_view (SignatureHeader g) = signed_view L key pkt (sig_view (SignatureHeader f))"
    using g(4) h(1) by (simp add: same_file_def sig_view_def signed_file_def)
  have m: "same_file (MainHeader f) (MainHeader g)" using g(5) by (simp add: same_file_def signed_file_def)
  have "storable (IndexEntries (MainHeader g))" "header_bytes (MainHeader g) = header_bytes (MainHeader f)"
    using m wf by (simp_all add: same_file_def file_wf_def header_wf_def header_bytes_def preamble_bytes_def)
  then obtain v where v: "NewSignatureVerifier g None ring = Ok v" "rpmFile v = g" "gpgPublicKeys v = ring"
    "mainHeaderData v = NewArrayReader (header_bytes (MainHeader f))" by (simp add: NewSignatureVerifier_ok)
  obtain ent where "VerifySignature L ring (header_bytes (MainHeader f)) pkt = Ok ent"
    using SignDigest_accepted [OF lib sgn] .
  with VerifyV4_signed [of v L key pkt] sv v have "VerifyV4Signature L v = Ok ()" by simp
  then have "VerifySignatures L H {SIGNATURE_VERSION_V4} v = Ok ()"
    by (simp add: VerifySignatures_def SetIsEmpty_def SetSize_def SetContains_def
        SIGNATURE_VERSION_V3_def SIGNATURE_VERSION_V4_def SIGNATURE_VERSION_V6_def)
  moreover have "rest r' = left" using feeds_rest [OF g(2)] r(1) by simp
  ultimately show "\<exists>g r' v. ParseRPM H cap False r = Ok (g, r') \<and> rest r' = left \<and> Lead g = Lead f \<and>
      same_file (MainHeader f) (MainHeader g) \<and>
      sig_view (SignatureHeader g) = signed_view L key pkt (sig_view (SignatureHeader f)) \<and>
      NewSignatureVerifier g None ring = Ok v \<and> VerifySignatures L H {SIGNATURE_VERSION_V4} v = Ok ()"
    using g sv m v(1) by (auto simp: signed_file_def)
qed

lemma sign_write_copy:
  assumes wf: "file_wf f" and valid: "file_valid H f" and good: "good_sig (SignatureHeader f)"
    and dig: "Sha256Digest (MainHeader f) = header_bytes (MainHeader f)"
    and sgn: "SignDigest L now (header_bytes (MainHeader f)) key = Ok (pkt, digest')"
    and room: "can_set (signature_tag L key) FORMAT_TYPE_BINARY (of_nat (length pkt)) pkt (SignatureHeader f)"
    and lib: "accepts_key L ring key" and d: "unlimited d" and p: "end_error p = EOF"
  obtains d' p' out where "SignRpmAndWrite L grow now f d p key = Some (Ok (d', p'))"
    and "contents d' = contents d @ out @ rest p" and "signed_copy L H ring key pkt f out"
proof -
  have cs: "can_sign L now key f pkt digest'" using sgn dig by (simp add: can_sign_def)
  obtain h where h: "SignRpm L grow now key f = Some (Ok (signed_file f digest' h))"
    "sig_view h = signed_view L key pkt (sig_view (SignatureHeader f))"
    "file_wf (signed_file f digest' h)" "file_valid H (signed_file f digest' h)"
    using SignRpm_signed_file [OF cs good room wf valid, of grow] by metis
  obtain d' p' where "SignRpmAndWrite L grow now f d p key = Some (Ok (d', p'))"
    "contents d' = contents d @ file_bytes (signed_file f digest' h) @ rest p" using sign_write_ok [OF h(1,3) d p] by metis
  with signed_file_copy [OF wf sgn lib h(2-4)] that show thesis by blast
qed

section \<open>Files that were read\<close>

lemma file_wf_same:
  assumes "file_wf f" "Lead g = Lead f" "same_file (SignatureHeader f) (SignatureHeader g)"
    "good_sig (SignatureHeader g)" "same_file (MainHeader f) (MainHeader g)"
  shows "file_wf g"
  using assms by (auto simp: file_wf_def good_sig_def same_file_def file_fields_def header_wf_def)

lemma file_valid_same:
  assumes "file_valid H f" "Lead g = Lead f" "same_file (SignatureHeader f) (SignatureHeader g)"
    "same_file (MainHeader f) (MainHeader g)"
  shows "file_valid H g"
proof -
  have "header_bytes (MainHeader g) = header_bytes (MainHeader f)"
    using assms(4) by (simp add: same_file_def header_bytes_def preamble_bytes_def)
  moreover have e: "IndexEntries (SignatureHeader g) = IndexEntries (SignatureHeader f)"
    "IndexEntries (MainHeader g) = IndexEntries (MainHeader f)" using assms(3,4) by (simp_all add: same_file_def)
  moreover have "GetFileFormatVersion g = GetFileFormatVersion f"
    by (simp only: GetFileFormatVersion_def FindIndexEntry_same [OF e(2)] e(2) assms(2))
  ultimately show ?thesis using assms(1,2) unfolding file_valid_def digest_matches_def has_tag_def sig_size_entry_def
    by (simp only: digest_tag_same [OF e(1)] FindIndexEntry_same [OF e(1)] Let_def simp_thms)
qed

text \<open>The part of \<^const>\<open>can_set\<close> that the file determines: there is no signature of that kind yet, or
  the new one fits in its place, or the header has reserved space.\<close>

definition can_replace :: "TagValue \<Rightarrow> FormatType \<Rightarrow> u32 \<Rightarrow> bytes \<Rightarrow> RpmHeader \<Rightarrow> bool" where
  "can_replace t f n p h \<longleftrightarrow>
     unmanaged t \<and> payload_ok (new_entry t f n p) \<and>
     (case sig_view h (ID t) of
        None \<Rightarrow> True
      | Some (f', n', p') \<Rightarrow>
          f' = f \<and> (length p \<le> length p' \<or>
            (ID t < ID SigTagReservedSpace \<and> full_view h (ID SigTagReservedSpace) \<noteq> None))) \<and>
     weight (IndexEntries h) + 3 * length p + 32768 < 4294967296"

lemma can_replace_can_set:
  assumes "can_replace t f n p h" and "same_file h h'"
  shows "can_set t f n p h'"
proof -
  have "IndexEntries h' = IndexEntries h" using assms(2) by (simp add: same_file_def)
  then show ?thesis using assms(1)
    by (auto simp: can_replace_def can_set_def sig_view_def full_view_def split: option.splits)
qed

lemma parsed_sign_write_copy:
  assumes wf: "file_wf f" and valid: "file_valid H f"
    and sgn: "SignDigest L now (header_bytes (MainHeader f)) key = Ok (pkt, digest')"
    and room: "can_replace (signature_tag L key) FORMAT_TYPE_BINARY (of_nat (length pkt)) pkt (SignatureHeader f)"
    and lib: "accepts_key L ring key" and d: "unlimited d"
    and r: "end_error r = EOF" "rest r = file_bytes f @ left" "has_offset r" "rd_offset r = 0"
  obtains g r' d' p' out where "ParseRPM H cap False r = Ok (g, r')" and "feeds r (file_bytes f) r'"
    and "SignRpmAndWrite L grow now g d r' key = Some (Ok (d', p'))"
    and "contents d' = contents d @ out @ left" and "signed_copy L H ring key pkt f out"
proof -
  obtain g r' where g: "ParseRPM H cap False r = Ok (g, r')" "feeds r (file_bytes f) r'" "Lead g = Lead f"
    "same_file (SignatureHeader f) (SignatureHeader g)" "good_sig (SignatureHeader g)"
    "same_file (MainHeader f) (MainHeader g)" "Sha256Digest (MainHeader g) = header_bytes (MainHeader f)"
    using ParseRPM_ok [OF wf valid r, of cap] by metis
  have mb: "header_bytes (MainHeader g) = header_bytes (MainHeader f)"
    using g(6) by (simp add: same_file_def header_bytes_def preamble_bytes_def)
  obtain d' p' out where o: "SignRpmAndWrite L grow now g d r' key = Some (Ok (d', p'))"
    "contents d' = contents d @ out @ rest r'" "signed_copy L H ring key pkt g out"
  proof (rule sign_write_copy)
    show "file_wf g" using file_wf_same [OF wf g(3,4,5,6)] .
    show "file_valid H g" using file_valid_same [OF valid g(3,4,6)] .
    show "Sha256Digest (MainHeader g) = header_bytes (MainHeader g)" using g(7) mb by simp
    show "SignDigest L now (header_bytes (MainHeader g)) key = Ok (pkt, digest')" using sgn mb by simp
    show "can_set (signature_tag L key) FORMAT_TYPE_BINARY (of_nat (length pkt)) pkt (SignatureHeader g)"
      using can_replace_can_set [OF room g(4)] .
    show "end_error r' = EOF" using feeds_end [OF g(2)] r(1) by simp
  qed (use g(5) lib d in auto)
  moreover have "rest r' = left" using feeds_rest [OF g(2)] r(2) by simp
  moreover have "signed_copy L H ring key pkt f out"
    using o(3) g(3,4,6) unfolding signed_copy_def by (simp add: same_file_def sig_view_def)
  ultimately show thesis using that g(1,2) by metis
qed


end
