(* ===== verification/Files.thy ===== *)
theory Files
  imports File_Properties
begin

text \<open>
  The file system as the program uses it (\<^verbatim>\<open>common/utils.go\<close>, \<^verbatim>\<open>common/signing.go\<close>,
  \<^verbatim>\<open>common/openpgp.go\<close>). A state holds regular files with their contents and permissions,
  directories, the room left on the device, and a table of the faults the
  operating system reports; the table is fixed during a run, so that every error path of the
  sources can be taken. The name of a temporary file is an argument: \<^verbatim>\<open>os.CreateTemp\<close>
  picks a name that does not exist. HTTP downloads are a parameter. A streamed output that breaks off
  is removed by the program; where the removal itself fails, the model leaves the file empty instead of
  with the bytes that had arrived.
\<close>

section \<open>The operating system\<close>

datatype fsop = OpStat | OpOpen | OpCreate | OpCreateTemp | OpChmod | OpSync | OpClose | OpRename | OpRemove

record os_fs =
  fs_file :: "string \<rightharpoonup> bytes \<times> nat"
  fs_dirs :: "string set"
  fs_room :: "nat option"
  fs_fault :: "fsop \<Rightarrow> string \<Rightarrow> goerror option"

datatype stat_result = StatFile | StatDirectory | StatNotExist | StatError goerror

definition os_Stat :: "os_fs \<Rightarrow> string \<Rightarrow> stat_result" where
  "os_Stat fs path =
     (case fs_fault fs OpStat path of
        Some e \<Rightarrow> StatError e
      | None \<Rightarrow> if fs_file fs path \<noteq> None then StatFile
                else if path \<in> fs_dirs fs then StatDirectory else StatNotExist)"

definition os_Open :: "os_fs \<Rightarrow> string \<Rightarrow> bytes outcome" where
  "os_Open fs path =
     (case fs_fault fs OpOpen path of
        Some e \<Rightarrow> Err e
      | None \<Rightarrow> (case fs_file fs path of
                   Some (data, perm) \<Rightarrow> Ok data
                 | None \<Rightarrow> Err (Errorf (''open '' @ path @ '': no such file or directory''))))"

definition os_Create :: "os_fs \<Rightarrow> string \<Rightarrow> unit outcome \<times> os_fs" where
  "os_Create fs path =
     (case fs_fault fs OpCreate path of
        Some e \<Rightarrow> (Err e, fs)
      | None \<Rightarrow>
          (if path \<in> fs_dirs fs then (Err (Errorf (''open '' @ path @ '': is a directory'')), fs)
           else (Ok (), fs\<lparr>fs_file := (fs_file fs)(path \<mapsto> ([], case fs_file fs path of Some (d, m) \<Rightarrow> m | None \<Rightarrow> 438))\<rparr>)))"

definition os_CreateTemp :: "os_fs \<Rightarrow> string \<Rightarrow> unit outcome \<times> os_fs" where
  "os_CreateTemp fs tmp =
     (case fs_fault fs OpCreateTemp tmp of
        Some e \<Rightarrow> (Err e, fs)
      | None \<Rightarrow> (Ok (), fs\<lparr>fs_file := (fs_file fs)(tmp \<mapsto> ([], 384))\<rparr>))"

text \<open>A write to an open file appends what the device has room for.\<close>

definition file_Write :: "os_fs \<Rightarrow> string \<Rightarrow> bytes \<Rightarrow> unit outcome \<times> os_fs" where
  "file_Write fs path data =
     (case fs_file fs path of
        None \<Rightarrow> (Err (Errorf ''file already closed''), fs)
      | Some (old, perm) \<Rightarrow>
          (let (n, e, s) = sink_write \<lparr>snk_data = old, snk_room = fs_room fs\<rparr> data;
               fs' = fs\<lparr>fs_file := (fs_file fs)(path \<mapsto> (snk_data s, perm)), fs_room := snk_room s\<rparr>
           in case e of Some err \<Rightarrow> (Err err, fs') | None \<Rightarrow> (Ok (), fs')))"

definition file_Chmod :: "os_fs \<Rightarrow> string \<Rightarrow> nat \<Rightarrow> unit outcome \<times> os_fs" where
  "file_Chmod fs path perm =
     (case fs_fault fs OpChmod path of
        Some e \<Rightarrow> (Err e, fs)
      | None \<Rightarrow> (Ok (), fs\<lparr>fs_file := (fs_file fs)(path := map_option (\<lambda>(d, m). (d, perm)) (fs_file fs path))\<rparr>))"

definition file_op :: "fsop \<Rightarrow> os_fs \<Rightarrow> string \<Rightarrow> unit outcome" where
  "file_op op fs path = (case fs_fault fs op path of Some e \<Rightarrow> Err e | None \<Rightarrow> Ok ())"

definition os_Rename :: "os_fs \<Rightarrow> string \<Rightarrow> string \<Rightarrow> unit outcome \<times> os_fs" where
  "os_Rename fs old new =
     (case fs_fault fs OpRename new of
        Some e \<Rightarrow> (Err e, fs)
      | None \<Rightarrow>
          (if new \<in> fs_dirs fs then (Err (Errorf ''file exists''), fs)
           else (Ok (), fs\<lparr>fs_file := ((fs_file fs)(old := None))(new := fs_file fs old)\<rparr>)))"

definition os_Remove :: "os_fs \<Rightarrow> string \<Rightarrow> unit outcome \<times> os_fs" where
  "os_Remove fs path =
     (case fs_fault fs OpRemove path of
        Some e \<Rightarrow> (Err e, fs)
      | None \<Rightarrow> (Ok (), fs\<lparr>fs_file := (fs_file fs)(path := None)\<rparr>))"

section \<open>Queries\<close>

definition FileExists :: "os_fs \<Rightarrow> string \<Rightarrow> bool outcome" where
  "FileExists fs path =
     (case os_Stat fs path of
        StatError e \<Rightarrow> Err e
      | StatNotExist \<Rightarrow> Ok False
      | _ \<Rightarrow> Ok True)"

definition not_exist :: "string \<Rightarrow> goerror" where
  "not_exist path = Errorf (''stat '' @ path @ '': no such file or directory'')"

definition IsFile :: "os_fs \<Rightarrow> string \<Rightarrow> bool outcome" where
  "IsFile fs path =
     (case os_Stat fs path of
        StatError e \<Rightarrow> Err e
      | StatNotExist \<Rightarrow> Err (not_exist path)
      | StatFile \<Rightarrow> Ok True
      | StatDirectory \<Rightarrow> Ok False)"

definition IsDirectory :: "os_fs \<Rightarrow> string \<Rightarrow> bool outcome" where
  "IsDirectory fs path =
     (case os_Stat fs path of
        StatError e \<Rightarrow> Err e
      | StatNotExist \<Rightarrow> Err (not_exist path)
      | StatFile \<Rightarrow> Ok False
      | StatDirectory \<Rightarrow> Ok True)"

section \<open>Writing files\<close>

definition with_cleanup :: "string \<Rightarrow> string \<Rightarrow> unit outcome \<times> os_fs \<Rightarrow> (os_fs \<Rightarrow> unit outcome \<times> os_fs) \<Rightarrow> unit outcome \<times> os_fs" where
  "with_cleanup tmp msg = (\<lambda>(r, fs) next.
     case r of
       Ok u \<Rightarrow> next fs
     | Err e \<Rightarrow> (Err (Errorf msg), snd (os_Remove fs tmp))
     | Panic m \<Rightarrow> (Panic m, snd (os_Remove fs tmp)))"

definition WriteFileAtomically ::
  "os_fs \<Rightarrow> string \<Rightarrow> string \<Rightarrow> bytes \<Rightarrow> nat \<Rightarrow> bool \<Rightarrow> unit outcome \<times> os_fs" where
  "WriteFileAtomically fs tmp filename data perm overwrite =
     (case FileExists fs filename of
        Err e \<Rightarrow> (Err e, fs)
      | Panic m \<Rightarrow> (Panic m, fs)
      | Ok destinationExists \<Rightarrow>
          (if destinationExists \<and> \<not> overwrite then
             (Err (Errorf (''destination file '' @ filename @ '' already exists and overwriting not enabled'')), fs)
           else
             (case os_CreateTemp fs tmp of
                (Err e, fs1) \<Rightarrow> (Err (Errorf ''failed to create temp file''), fs1)
              | (Panic m, fs1) \<Rightarrow> (Panic m, fs1)
              | (Ok u, fs1) \<Rightarrow>
                  with_cleanup tmp ''failed to write to temp file'' (file_Write fs1 tmp data) (\<lambda>fs2.
                  with_cleanup tmp ''failed to set permissions'' (file_Chmod fs2 tmp perm) (\<lambda>fs3.
                  with_cleanup tmp ''failed to sync temp file'' (file_op OpSync fs3 tmp, fs3) (\<lambda>fs4.
                  with_cleanup tmp ''failed to close temp file'' (file_op OpClose fs4 tmp, fs4) (\<lambda>fs5.
                  with_cleanup tmp ''failed to replace target file'' (os_Rename fs5 tmp filename) (\<lambda>fs6.
                    (Ok (), fs6)))))))))"

definition CreateDestinationFile :: "os_fs \<Rightarrow> string \<Rightarrow> bool \<Rightarrow> unit outcome \<times> os_fs" where
  "CreateDestinationFile fs destinationFileName overwriteDestinationFile =
     (case os_Stat fs destinationFileName of
        StatError e \<Rightarrow> (Err (Errorf (''failed to stat() destination file '' @ destinationFileName)), fs)
      | s \<Rightarrow>
          (if s \<noteq> StatNotExist \<and> \<not> overwriteDestinationFile then
             (Err (Errorf (''refusing to overwrite destination file '' @ destinationFileName @
                ''. Use -f or --overwrite to avoid this error'')), fs)
           else
             (case os_Create fs destinationFileName of
                (Err e, fs') \<Rightarrow> (Err (Errorf (''failed to create destination file '' @ destinationFileName)), fs')
              | r \<Rightarrow> r)))"

text \<open>The destination is written through a writer on the created file; when it is done the file has
  what was written. The payload reader does not read from the destination (see below for the case
  where it does).\<close>

definition destination_writer :: "os_fs \<Rightarrow> wtr" where
  "destination_writer fs = Sink \<lparr>snk_data = [], snk_room = fs_room fs\<rparr>"

definition set_contents :: "os_fs \<Rightarrow> string \<Rightarrow> bytes \<Rightarrow> os_fs" where
  "set_contents fs path data =
     fs\<lparr>fs_file := (fs_file fs)(path := map_option (\<lambda>(d, m). (data, m)) (fs_file fs path))\<rparr>"

definition SignRpmAndWriteToFile ::
  "('sg, 'ent) pgp \<Rightarrow> (nat \<Rightarrow> nat) \<Rightarrow> nat \<Rightarrow> os_fs \<Rightarrow> RpmFile \<Rightarrow> rdr \<Rightarrow> string \<Rightarrow> bool \<Rightarrow> PrivateKey \<Rightarrow>
   (unit outcome \<times> os_fs) option" where
  "SignRpmAndWriteToFile L grow now fs f payload' destinationFileName overwriteDestinationFile privateKey =
     (case CreateDestinationFile fs destinationFileName overwriteDestinationFile of
        (Err e, fs1) \<Rightarrow> Some (Err e, fs1)
      | (Panic m, fs1) \<Rightarrow> Some (Panic m, fs1)
      | (Ok u, fs1) \<Rightarrow>
          (case SignRpmAndWrite L grow now f (NewFileWriterWithOffset (destination_writer fs1)) payload' privateKey of
             None \<Rightarrow> None
           | Some (Ok (w, p')) \<Rightarrow>
               (let fs2 = set_contents fs1 destinationFileName (contents w)
                in Some (file_op OpClose fs2 destinationFileName, fs2))
           | Some (Err e) \<Rightarrow> Some (Err e, snd (os_Remove fs1 destinationFileName))
           | Some (Panic m) \<Rightarrow> Some (Panic m, fs1)))"

section \<open>Reading files\<close>

definition LoadPrivateKeyFromFile ::
  "('sg, 'ent) pgp \<Rightarrow> os_fs \<Rightarrow> string \<Rightarrow> bytes \<Rightarrow> PrivateKey outcome" where
  "LoadPrivateKeyFromFile L fs privateKeyFilename passphrase =
     (case os_Open fs privateKeyFilename of
        Err e \<Rightarrow> Err (Errorf (''failed to load private key from '' @ privateKeyFilename))
      | Panic m \<Rightarrow> Panic m
      | Ok data \<Rightarrow>
          (case LoadPrivateKey L data None passphrase of
             Err e \<Rightarrow> Err (Errorf (''failed to load private key from '' @ privateKeyFilename))
           | r \<Rightarrow> r))"

text \<open>\<^verbatim>\<open>bufio.Scanner\<close> with \<^verbatim>\<open>ScanLines\<close>: lines end at a newline, one carriage return before it is
  dropped, a last line without newline counts, and a line of 64 KiB or more is an error. A read
  error is reported after the lines before it.\<close>

definition maxTokenSize :: nat where
  "maxTokenSize = 65536"

definition dropCR :: "string \<Rightarrow> string" where
  "dropCR s = (if s \<noteq> [] \<and> last s = CHR 0x0D then butlast s else s)"

function scan_lines :: "string \<Rightarrow> string list outcome" where
  "scan_lines s =
     (if s = [] then Ok []
      else
        (let line = takeWhile (\<lambda>c. c \<noteq> CHR 0x0A) s
         in if length line \<ge> maxTokenSize then Err (Errorf ''bufio.Scanner: token too long'')
            else obind (scan_lines (drop (length line + 1) s)) (\<lambda>ls. Ok (dropCR line # ls))))"
  by pat_completeness auto
termination
  by (relation "measure length") auto

declare scan_lines.simps [simp del]

definition ReadLines :: "rdr \<Rightarrow> string list outcome" where
  "ReadLines r =
     (case io_ReadAll r of
        Ok (data, r') \<Rightarrow> scan_lines (map char_of_byte data)
      | Err e \<Rightarrow> (case scan_lines (map char_of_byte (rest r)) of Err e' \<Rightarrow> Err e' | _ \<Rightarrow> Err e)
      | Panic m \<Rightarrow> Panic m)"

section \<open>Opening and seeking\<close>

definition ascii_lower :: "char \<Rightarrow> char" where
  "ascii_lower c = (let n = of_char c :: nat in if 65 \<le> n \<and> n \<le> 90 then char_of (n + 32) else c)"

definition HasPrefix :: "string \<Rightarrow> string \<Rightarrow> bool" where
  "HasPrefix s prefix \<longleftrightarrow> take (length prefix) s = prefix"

text \<open>\<open>http_Get\<close> returns the status code, the status line and the body.\<close>

definition DownloadFile :: "(string \<Rightarrow> (nat \<times> string \<times> rdr) outcome) \<Rightarrow> string \<Rightarrow> rdr outcome" where
  "DownloadFile http_Get url =
     obind (http_Get url) (\<lambda>(statusCode, status, body).
       if statusCode \<noteq> 200 then Err (Errorf (''bad status: '' @ status)) else Ok body)"

definition error_text :: "goerror \<Rightarrow> string" where
  "error_text e = (case e of EOF \<Rightarrow> ''EOF'' | ErrShortWrite \<Rightarrow> ''short write'' | Errorf s \<Rightarrow> s)"

definition panic_on_error :: "'a outcome \<Rightarrow> 'a outcome" where
  "panic_on_error r = (case r of Err e \<Rightarrow> Panic (error_text e) | x \<Rightarrow> x)"

text \<open>The boolean says whether the reader reads a file, which is what the type test in
  \<^verbatim>\<open>SeekRelativeToStart\<close> finds out.\<close>

definition OpenFileOrUrl ::
  "os_fs \<Rightarrow> (string \<Rightarrow> (nat \<times> string \<times> rdr) outcome) \<Rightarrow> string \<Rightarrow> (rdr \<times> bytes option) outcome" where
  "OpenFileOrUrl fs http_Get rpmFilePath =
     (if HasPrefix (map ascii_lower rpmFilePath) ''http'' \<or> HasPrefix (map ascii_lower rpmFilePath) ''https'' then
        obind (panic_on_error (DownloadFile http_Get rpmFilePath)) (\<lambda>reader.
          Ok (NewSeekableReader (NewIOReaderWithOffset reader), None))
      else
        obind (panic_on_error (os_Open fs rpmFilePath)) (\<lambda>data.
          Ok (NewSeekableReader (NewIOReaderWithOffset
                (Source \<lparr>src_data = data, src_schedule = [], src_end = EOF\<rparr>)), Some data)))"

fun at_source :: "(io_source \<Rightarrow> io_source) \<Rightarrow> rdr \<Rightarrow> rdr" where
  "at_source g (Source s) = Source (g s)"
| "at_source g (arrayReader src currentOffset) = arrayReader src currentOffset"
| "at_source g (IOReaderWithOffset r currentOffset) = IOReaderWithOffset (at_source g r) currentOffset"
| "at_source g (DigestReaderImpl source digest) = DigestReaderImpl (at_source g source) digest"
| "at_source g (SeekableReaderImpl r) = SeekableReaderImpl (at_source g r)"
| "at_source g (headerCapturingReader src buf capturing) = headerCapturingReader (at_source g src) buf capturing"

text \<open>\<open>fileData\<close> is the contents of the file below the reader, when there is one.\<close>

fun SeekRelativeToStart :: "bytes option \<Rightarrow> int \<Rightarrow> rdr \<Rightarrow> rdr outcome" where
  "SeekRelativeToStart fileData ofs (SeekableReaderImpl r) =
     (case (r, fileData) of
        (IOReaderWithOffset r1 n, Some data) \<Rightarrow>
          (if ofs < 0 then Err (Errorf (''seek to offset '' @ fmt_int ofs @ '' failed''))
           else Ok (SeekableReaderImpl (IOReaderWithOffset
                  (at_source (\<lambda>s. s\<lparr>src_data := drop (nat ofs) data\<rparr>) r1) n)))
      | _ \<Rightarrow>
          (if ofs < 0 then Err (Errorf ''seek() with negative offset only supported for files'')
           else if rd_offset r \<noteq> 0 then
             Err (Errorf ''seek() with from beginning of stream only supported if stream is still at offset 0'')
           else obind (FillBuffer (nat ofs) r) (\<lambda>(buf, r'). Ok (SeekableReaderImpl r'))))"
| "SeekRelativeToStart fileData ofs r = Err (Errorf ''not a seekable reader'')"

section \<open>Writing a file atomically\<close>

lemma with_cleanup_simps [simp]:
  "with_cleanup tmp msg (Ok u, fs) next = next fs"
  "with_cleanup tmp msg (Err e, fs) next = (Err (Errorf msg), snd (os_Remove fs tmp))"
  by (simp_all add: with_cleanup_def)

lemma fs_effects [simp]:
  "fs_fault (snd (os_Remove fs p)) = fs_fault fs" "fs_dirs (snd (os_Remove fs p)) = fs_dirs fs"
  by (simp_all add: os_Remove_def split: option.splits)

text \<open>Only the temporary file differs, and it is gone unless it cannot be removed.\<close>

definition only_tmp :: "string \<Rightarrow> os_fs \<Rightarrow> os_fs \<Rightarrow> bool" where
  "only_tmp tmp fs fs' \<longleftrightarrow> (\<forall>p. p \<noteq> tmp \<longrightarrow> fs_file fs' p = fs_file fs p) \<and>
     (fs_fault fs OpRemove tmp = None \<longrightarrow> fs_file fs' tmp = None)"

lemma only_tmp_remove:
  assumes "\<forall>p. p \<noteq> tmp \<longrightarrow> fs_file fs1 p = fs_file fs p" and "fs_fault fs1 = fs_fault fs"
  shows "only_tmp tmp fs (snd (os_Remove fs1 tmp))"
  using assms by (auto simp: only_tmp_def os_Remove_def split: option.splits)

lemma file_Write_cases:
  assumes "fs_file fs p = Some (old, perm)" and "file_Write fs p data = (r, fs')"
  shows "fs_fault fs' = fs_fault fs \<and> fs_dirs fs' = fs_dirs fs \<and> (\<forall>q. q \<noteq> p \<longrightarrow> fs_file fs' q = fs_file fs q) \<and>
    (case r of Ok u \<Rightarrow> fs_file fs' p = Some (old @ data, perm) | Err e \<Rightarrow> True | Panic m \<Rightarrow> False)"
  using assms
  by (auto simp: file_Write_def sink_write_def Let_def split: option.splits if_splits)

text \<open>C20: writing a file atomically either gives the file exactly the new contents and permissions and
  leaves no other trace, or fails and leaves every file as it was; the temporary file is removed
  unless removing it fails. This holds for every fault of the operating system and a full disk.\<close>

theorem WriteFileAtomically_atomic:
  assumes new: "fs_file fs tmp = None" "tmp \<noteq> filename"
  shows "case WriteFileAtomically fs tmp filename data perm overwrite of
     (Ok u, fs') \<Rightarrow> fs_file fs' = (fs_file fs)(filename \<mapsto> (data, perm))
   | (Err e, fs') \<Rightarrow> only_tmp tmp fs fs'
   | (Panic m, fs') \<Rightarrow> False"
proof (cases "FileExists fs filename")
  case (Ok ex)
  show ?thesis
  proof (cases "(ex \<and> \<not> overwrite) \<or> fs_fault fs OpCreateTemp tmp \<noteq> None")
    case True
    with Ok new show ?thesis
      by (auto simp: WriteFileAtomically_def os_CreateTemp_def only_tmp_def split: option.splits)
  next
    case False
    define fs1 where "fs1 = fs\<lparr>fs_file := (fs_file fs)(tmp \<mapsto> ([], 384))\<rparr>"
    obtain r fs2 where w: "file_Write fs1 tmp data = (r, fs2)" by (cases "file_Write fs1 tmp data")
    have f1: "fs_file fs1 tmp = Some ([], 384)" "fs_fault fs1 = fs_fault fs" "fs_dirs fs1 = fs_dirs fs"
      "\<forall>p. p \<noteq> tmp \<longrightarrow> fs_file fs1 p = fs_file fs p" by (simp_all add: fs1_def)
    note c = file_Write_cases [OF f1(1) w]
    have eq: "WriteFileAtomically fs tmp filename data perm overwrite =
        with_cleanup tmp ''failed to write to temp file'' (r, fs2) (\<lambda>fs2.
        with_cleanup tmp ''failed to set permissions'' (file_Chmod fs2 tmp perm) (\<lambda>fs3.
        with_cleanup tmp ''failed to sync temp file'' (file_op OpSync fs3 tmp, fs3) (\<lambda>fs4.
        with_cleanup tmp ''failed to close temp file'' (file_op OpClose fs4 tmp, fs4) (\<lambda>fs5.
        with_cleanup tmp ''failed to replace target file'' (os_Rename fs5 tmp filename) (\<lambda>fs6.
          (Ok (), fs6))))))"
      using False Ok w by (auto simp: WriteFileAtomically_def os_CreateTemp_def fs1_def split: if_splits)
    show ?thesis
    proof (cases r)
      case (Err e)
      with c f1 show ?thesis unfolding eq by (auto intro!: only_tmp_remove)
    next
      case (Ok u)
      define fs3 where "fs3 = fs2\<lparr>fs_file := (fs_file fs2)(tmp := map_option (\<lambda>(d, m). (d, perm)) (fs_file fs2 tmp))\<rparr>"
      have f2: "fs_fault fs2 = fs_fault fs" "fs_dirs fs2 = fs_dirs fs" "\<forall>p. p \<noteq> tmp \<longrightarrow> fs_file fs2 p = fs_file fs p"
        "fs_file fs2 tmp = Some (data, 384)" using c f1 Ok by auto
      then have f3: "fs_fault fs3 = fs_fault fs" "fs_dirs fs3 = fs_dirs fs" "\<forall>p. p \<noteq> tmp \<longrightarrow> fs_file fs3 p = fs_file fs p"
        "fs_file fs3 tmp = Some (data, perm)" by (simp_all add: fs3_def)
      have rm: "only_tmp tmp fs (snd (os_Remove fs2 tmp))" "only_tmp tmp fs (snd (os_Remove fs3 tmp))"
        using f2 f3 by (auto intro!: only_tmp_remove)
      have "((fs_file fs3)(tmp := None))(filename \<mapsto> (data, perm)) = (fs_file fs)(filename \<mapsto> (data, perm))"
        using f3(3) new by (auto simp: fun_eq_iff)
      moreover have "file_Chmod fs2 tmp perm = (case fs_fault fs OpChmod tmp of Some e \<Rightarrow> (Err e, fs2) | None \<Rightarrow> (Ok (), fs3))"
        by (simp only: file_Chmod_def fs3_def f2(1))
      ultimately show ?thesis unfolding eq using rm f3 Ok
        by (auto simp: file_op_def os_Rename_def split: option.splits)
    next
      case (Panic m)
      with c show ?thesis by simp
    qed
  qed
qed (use new in \<open>auto simp: WriteFileAtomically_def FileExists_def only_tmp_def split: stat_result.splits\<close>)

definition fs_example :: os_fs where
  "fs_example = \<lparr>fs_file = [''/etc/key'' \<mapsto> ([1], 384)], fs_dirs = {''/etc''}, fs_room = None, fs_fault = (\<lambda>op p. None)\<rparr>"

theorem WriteFileAtomically_atomic_witness:
  "fst (WriteFileAtomically fs_example ''/out.tmp'' ''/out'' [1, 2] 420 False) = Ok () \<and>
   fs_file (snd (WriteFileAtomically fs_example ''/out.tmp'' ''/out'' [1, 2] 420 False)) =
     (fs_file fs_example)(''/out'' \<mapsto> ([1, 2], 420))"
proof -
  let ?r = "WriteFileAtomically fs_example ''/out.tmp'' ''/out'' [1, 2] 420 False"
  have ok: "fst ?r = Ok ()"
    by (simp add: WriteFileAtomically_def FileExists_def os_Stat_def fs_example_def os_CreateTemp_def file_Write_def
        sink_write_def file_Chmod_def file_op_def os_Rename_def)
  have "fs_file fs_example ''/out.tmp'' = None" by (simp add: fs_example_def)
  from WriteFileAtomically_atomic [OF this, of "''/out''" "[1, 2]" 420 False] ok show ?thesis by (cases ?r) simp
qed

section \<open>Destination files\<close>

text \<open>Without the overwrite option an existing destination is refused and nothing changes;
  otherwise creating the destination changes no other file.\<close>

theorem CreateDestinationFile_guards:
  "(os_Stat fs name \<in> {StatFile, StatDirectory} \<and> \<not> overwrite \<longrightarrow>
     (\<exists>e. CreateDestinationFile fs name overwrite = (Err e, fs))) \<and>
   (\<forall>p. p \<noteq> name \<longrightarrow> fs_file (snd (CreateDestinationFile fs name overwrite)) p = fs_file fs p) \<and>
   (fst (CreateDestinationFile fs name overwrite) = Ok () \<longrightarrow>
     map_option fst (fs_file (snd (CreateDestinationFile fs name overwrite)) name) = Some [])"
  by (auto simp: CreateDestinationFile_def os_Create_def split: stat_result.splits option.splits if_splits)

theorem CreateDestinationFile_guards_witness:
  "\<exists>e. CreateDestinationFile fs_example ''/etc/key'' False = (Err e, fs_example)"
proof -
  have "os_Stat fs_example ''/etc/key'' \<in> {StatFile, StatDirectory}" by (simp add: os_Stat_def fs_example_def)
  with CreateDestinationFile_guards [of fs_example "''/etc/key''" False] show ?thesis by blast
qed

lemma CreateDestinationFile_Ok:
  assumes "CreateDestinationFile fs name overwrite = (Ok u, fs1)"
  obtains m where "fs1 = fs\<lparr>fs_file := (fs_file fs)(name \<mapsto> ([], m))\<rparr>"
  using assms by (auto simp: CreateDestinationFile_def os_Create_def split: stat_result.splits option.splits if_splits)



section \<open>The destination is the source\<close>

text \<open>When the destination is the file the payload is read from, creating it truncates the source.
  The copy of the payload then reads the file it appends to: one round of \<^verbatim>\<open>io.Copy\<close> reads at most
  32 KiB at the reader's position and appends them at the end.\<close>

definition self_copy_step :: "bytes \<times> nat \<Rightarrow> (bytes \<times> nat) option" where
  "self_copy_step = (\<lambda>(file, pos).
     let chunk = take 32768 (drop pos file)
     in if chunk = [] then None else Some (file @ chunk, pos + length chunk))"

fun self_copy :: "nat \<Rightarrow> bytes \<times> nat \<Rightarrow> (bytes \<times> nat) option" where
  "self_copy 0 s = Some s"
| "self_copy (Suc n) s = (case self_copy_step s of None \<Rightarrow> None | Some s' \<Rightarrow> self_copy n s')"



section \<open>Seeking\<close>

text \<open>A file opened by name and positioned at an offset inside it delivers exactly the bytes from
  there on, however much was read before.\<close>

theorem seek_opened_file:
  assumes "OpenFileOrUrl fs http_Get path = Ok (r, Some data)" and "feeds r bs r1" and "0 \<le> ofs"
  shows "\<exists>r2. SeekRelativeToStart (Some data) ofs r1 = Ok r2 \<and> rest r2 = drop (nat ofs) data"
proof -
  from assms(1) have r: "r = SeekableReaderImpl (IOReaderWithOffset (IOReaderWithOffset
      (Source \<lparr>src_data = data, src_schedule = [], src_end = EOF\<rparr>) 0) 0)"
    by (auto simp: OpenFileOrUrl_def NewSeekableReader_def NewIOReaderWithOffset_def split: if_splits elim!: obind_OkE)
  from assms(2) obtain s n m where "r1 = SeekableReaderImpl (IOReaderWithOffset (IOReaderWithOffset (Source s) n) m)"
    unfolding r by (auto elim!: feeds.elims)
  with assms(3) show ?thesis by simp
qed

theorem seek_opened_file_witness:
  "\<exists>r r2. OpenFileOrUrl fs_example (\<lambda>u. Err EOF) ''/etc/key'' = Ok (r, Some [1]) \<and>
     SeekRelativeToStart (Some [1]) 0 r = Ok r2 \<and> rest r2 = [1]"
proof -
  have "\<exists>r. OpenFileOrUrl fs_example (\<lambda>u. Err EOF) ''/etc/key'' = Ok (r, Some [1])"
    by (simp add: OpenFileOrUrl_def HasPrefix_def ascii_lower_def panic_on_error_def os_Open_def fs_example_def)
  then obtain r where r: "OpenFileOrUrl fs_example (\<lambda>u. Err EOF) ''/etc/key'' = Ok (r, Some [1])" by blast
  with seek_opened_file [OF r feeds_refl, of 0] show ?thesis by auto
qed

section \<open>What writing leaves alone\<close>

lemma file_Write_other: "q \<noteq> p \<Longrightarrow> fs_file (snd (file_Write fs p d)) q = fs_file fs q"
  by (auto simp: file_Write_def Let_def split: option.splits prod.splits)

lemma file_Write_fault [simp]: "fs_fault (snd (file_Write fs p d)) = fs_fault fs"
  by (auto simp: file_Write_def Let_def split: option.splits prod.splits)

lemma os_Create_other: "q \<noteq> p \<Longrightarrow> fs_file (snd (os_Create fs p)) q = fs_file fs q"
  by (auto simp: os_Create_def split: option.splits)

lemma os_Create_fault [simp]: "fs_fault (snd (os_Create fs p)) = fs_fault fs"
  by (auto simp: os_Create_def split: option.splits)

end
