(* ===== verification/Config.thy ===== *)
theory Config
  imports Files
begin

text \<open>
  The server's configuration (\<^verbatim>\<open>server/server.go\<close>): the properties file, the command line and
  the keys it names. \<^verbatim>\<open>os.Exit\<close> ends the process, so a configuration run either returns or exits.
\<close>

section \<open>Definitions\<close>

definition quoted :: "string \<Rightarrow> string" where
  "quoted s = CHR 0x27 # s @ [CHR 0x27]"

datatype 'a program = Returns "'a outcome" | Exits nat string

fun pbind :: "'a program \<Rightarrow> ('a \<Rightarrow> 'b program) \<Rightarrow> 'b program" where
  "pbind (Returns (Ok x)) f = f x"
| "pbind (Returns (Err e)) f = Returns (Err e)"
| "pbind (Returns (Panic m)) f = Returns (Panic m)"
| "pbind (Exits n s) f = Exits n s"

datatype Architecture = ARCH_X86 | ARCH_ARM64

text \<open>The architectures can be enumerated, so maps from them can be compared.\<close>

instantiation Architecture :: enum
begin

definition enum_Architecture :: "Architecture list" where
  "enum_Architecture = [ARCH_X86, ARCH_ARM64]"

definition enum_all_Architecture :: "(Architecture \<Rightarrow> bool) \<Rightarrow> bool" where
  "enum_all_Architecture P \<longleftrightarrow> P ARCH_X86 \<and> P ARCH_ARM64"

definition enum_ex_Architecture :: "(Architecture \<Rightarrow> bool) \<Rightarrow> bool" where
  "enum_ex_Architecture P \<longleftrightarrow> P ARCH_X86 \<or> P ARCH_ARM64"

instance
proof
  have "a = ARCH_X86 \<or> a = ARCH_ARM64" for a by (cases a) auto
  then show "(UNIV :: Architecture set) = set enum_class.enum" "distinct (enum_class.enum :: Architecture list)"
    "enum_class.enum_all P \<longleftrightarrow> Ball UNIV P" "enum_class.enum_ex P \<longleftrightarrow> Bex UNIV P" for P :: "Architecture \<Rightarrow> bool"
    by (auto simp: enum_Architecture_def enum_all_Architecture_def enum_ex_Architecture_def, metis+)
qed

end

record AppConfig =
  Verbose :: bool
  DebugMode :: bool
  GpgPublicKeyPath :: string
  GpgPrivateKeyPath :: string
  GpgPrivateKeyPassword :: bytes
  ApiSigningToken :: string
  ListenAddress :: string
  RpmSignClientBinary :: "Architecture \<rightharpoonup> string"
  AccessLogPath :: string

definition empty_config :: AppConfig where
  "empty_config = \<lparr>Verbose = False, DebugMode = False, GpgPublicKeyPath = [], GpgPrivateKeyPath = [],
     GpgPrivateKeyPassword = [], ApiSigningToken = [], ListenAddress = [], RpmSignClientBinary = Map.empty,
     AccessLogPath = []\<rparr>"

definition defaultListenAddress :: string where
  "defaultListenAddress = '':8080''"

text \<open>The public key file is opened before the private key is loaded, so it has to exist.\<close>

definition LoadGpgPrivateKey :: "('sg, 'ent) pgp \<Rightarrow> os_fs \<Rightarrow> AppConfig \<Rightarrow> PrivateKey outcome" where
  "LoadGpgPrivateKey L fs app =
     obind (os_Open fs (GpgPublicKeyPath app)) (\<lambda>reader.
       LoadPrivateKeyFromFile L fs (GpgPrivateKeyPath app) (GpgPrivateKeyPassword app))"

definition LoadGpgPublicKeyAsBytes :: "os_fs \<Rightarrow> AppConfig \<Rightarrow> bytes outcome" where
  "LoadGpgPublicKeyAsBytes fs app = os_Open fs (GpgPublicKeyPath app)"

definition LoadGpgPublicKey :: "('sg, 'ent) pgp \<Rightarrow> os_fs \<Rightarrow> AppConfig \<Rightarrow> 'ent list outcome" where
  "LoadGpgPublicKey L fs app = obind (os_Open fs (GpgPublicKeyPath app)) (LoadPublicKey L)"

definition stringToBoolean :: "string \<Rightarrow> bool outcome" where
  "stringToBoolean s =
     (if length s > 0 then
        (let t = TrimSpace s
         in if t \<in> {''1'', ''on'', ''true''} then Ok True
            else if t \<in> {''0'', ''off'', ''false''} then Ok False
            else Err (Errorf (''not a valid boolean value: '' @ quoted s @ '' (only 1,0,true,false,on,off are accepted)'')))
      else Err (Errorf ''stringToBoolean() called with blank value''))"

definition assertFileExists :: "os_fs \<Rightarrow> string \<Rightarrow> string outcome" where
  "assertFileExists fs filename =
     obind (FileExists fs filename) (\<lambda>exists.
       if \<not> exists then Err (Errorf (''file '' @ quoted filename @ '' does not exist'')) else Ok filename)"

text \<open>The switch over the keys.\<close>

definition set_key :: "os_fs \<Rightarrow> string \<Rightarrow> string \<Rightarrow> AppConfig \<Rightarrow> AppConfig outcome" where
  "set_key fs key value result =
     (if key = ''verbose'' then obind (stringToBoolean value) (\<lambda>b. Ok (result\<lparr>Verbose := b\<rparr>))
      else if key = ''debug'' then obind (stringToBoolean value) (\<lambda>b. Ok (result\<lparr>DebugMode := b\<rparr>))
      else if key = ''gpg_public_key'' then obind (assertFileExists fs value) (\<lambda>p. Ok (result\<lparr>GpgPublicKeyPath := p\<rparr>))
      else if key = ''gpg_private_key'' then obind (assertFileExists fs value) (\<lambda>p. Ok (result\<lparr>GpgPrivateKeyPath := p\<rparr>))
      else if key = ''access_log'' then Ok (result\<lparr>AccessLogPath := value\<rparr>)
      else if key = ''gpg_private_key_password'' then Ok (result\<lparr>GpgPrivateKeyPassword := map byte_of_char value\<rparr>)
      else if key = ''api_signing_token'' then Ok (result\<lparr>ApiSigningToken := value\<rparr>)
      else if key = ''listen_address'' then Ok (result\<lparr>ListenAddress := value\<rparr>)
      else if key = ''rpm_sign_arm64_client_binary'' then
        (if length value > 0 then
           obind (assertFileExists fs value) (\<lambda>p.
             Ok (result\<lparr>RpmSignClientBinary := (RpmSignClientBinary result)(ARCH_ARM64 \<mapsto> p)\<rparr>))
         else Ok result)
      else if key = ''rpm_sign_client_binary'' then
        (if length value > 0 then
           obind (assertFileExists fs value) (\<lambda>p.
             Ok (result\<lparr>RpmSignClientBinary := (RpmSignClientBinary result)(ARCH_X86 \<mapsto> p)\<rparr>))
         else Ok result)
      else Err (Errorf (''Unrecognized key '' @ quoted key)))"

definition line_error :: "nat \<Rightarrow> string \<Rightarrow> goerror" where
  "line_error lineNo msg = Errorf (''config file has error on line '' @ fmt_d (lineNo + 1) @ '': '' @ msg)"

definition is_ignored :: "string \<Rightarrow> bool" where
  "is_ignored line =
     (case dropWhile is_space_rune (runes line) of [] \<Rightarrow> True | r # rs \<Rightarrow> r = ''#'')"

definition malformed :: string where
  "malformed = ''Malformed, needs to be <key>=<value>''"

definition config_line :: "os_fs \<Rightarrow> nat \<Rightarrow> string \<Rightarrow> string set \<times> AppConfig \<Rightarrow> (string set \<times> AppConfig) program" where
  "config_line fs lineNo line = (\<lambda>(seenOpts, result).
     if is_ignored line then Returns (Ok (seenOpts, result))
     else
       (case find_slot (\<lambda>c. c = CHR ''='') line of
          None \<Rightarrow> Returns (Err (line_error lineNo malformed))
        | Some equalsIdx \<Rightarrow>
            (let key = TrimSpace (take equalsIdx line); value = TrimSpace (drop (equalsIdx + 1) line)
             in if length key = 0 then Returns (Err (line_error lineNo malformed))
                else if SetContains seenOpts key then
                  Exits 1 (''Config file option '' @ key @ '' most not appear more than once'')
                else
                  (case set_key fs key value result of
                     Ok result' \<Rightarrow> Returns (Ok (snd (SetAdd seenOpts key), result'))
                   | Err e \<Rightarrow> Returns (Err (line_error lineNo (error_text e)))
                   | Panic m \<Rightarrow> Returns (Panic m)))))"

fun config_lines :: "os_fs \<Rightarrow> nat \<Rightarrow> string list \<Rightarrow> string set \<times> AppConfig \<Rightarrow> (string set \<times> AppConfig) program" where
  "config_lines fs lineNo [] s = Returns (Ok s)"
| "config_lines fs lineNo (line # ls) s = pbind (config_line fs lineNo line s) (config_lines fs (Suc lineNo) ls)"

definition finish_config :: "('sg, 'ent) pgp \<Rightarrow> os_fs \<Rightarrow> AppConfig \<Rightarrow> AppConfig outcome" where
  "finish_config L fs result =
     (if length (ApiSigningToken result) = 0 then
        Err (Errorf (''configuration file needs to contain a non-blank '' @ quoted ''api_signing_token''))
      else
        (let result' = (if length (ListenAddress result) = 0 then result\<lparr>ListenAddress := defaultListenAddress\<rparr> else result)
         in case LoadGpgPublicKey L fs result' of
              Err e \<Rightarrow> Err (Errorf (''failed to load GPG public key '' @ GpgPublicKeyPath result'))
            | Panic m \<Rightarrow> Panic m
            | Ok ring \<Rightarrow>
                (case LoadGpgPrivateKey L fs result' of
                   Err e \<Rightarrow> Err (Errorf (''failed to load GPG private key '' @ GpgPrivateKeyPath result'))
                 | Panic m \<Rightarrow> Panic m
                 | Ok key \<Rightarrow> Ok result')))"

definition loadAppConfigFromReader :: "('sg, 'ent) pgp \<Rightarrow> os_fs \<Rightarrow> rdr \<Rightarrow> AppConfig program" where
  "loadAppConfigFromReader L fs reader' =
     (case ReadLines reader' of
        Ok ls \<Rightarrow> pbind (config_lines fs 0 ls (NewSet, empty_config)) (\<lambda>(seenOpts, result). Returns (finish_config L fs result))
      | Err e \<Rightarrow> Returns (Err e)
      | Panic m \<Rightarrow> Returns (Panic m))"

definition loadAppConfigFromFile :: "('sg, 'ent) pgp \<Rightarrow> os_fs \<Rightarrow> string \<Rightarrow> AppConfig program" where
  "loadAppConfigFromFile L fs path =
     (case os_Open fs path of
        Ok data \<Rightarrow> loadAppConfigFromReader L fs (Source \<lparr>src_data = data, src_schedule = [], src_end = EOF\<rparr>)
      | Err e \<Rightarrow> Returns (Err e)
      | Panic m \<Rightarrow> Returns (Panic m))"

text \<open>The loop over the arguments. Its \<^verbatim>\<open>idx++\<close> has no effect on the range, so the argument of
  \<^verbatim>\<open>-c\<close> is looked at as an option as well.\<close>

definition failIfNotUnique :: "string set \<Rightarrow> string \<Rightarrow> string set outcome" where
  "failIfNotUnique seenOpts opt =
     (if SetContains seenOpts opt then
        Err (Errorf (''CLI option '' @ opt @ '' is unique but was used more than once''))
      else Ok (snd (SetAdd seenOpts opt)))"

definition scan_arg :: "string \<Rightarrow> string list \<Rightarrow> string set \<times> string \<Rightarrow> (string set \<times> string) outcome" where
  "scan_arg arg args = (\<lambda>(seenOpts, configFilePath).
     if arg = ''-d'' \<or> arg = ''--debug'' \<or> arg = ''-v'' \<or> arg = ''--verbose'' then
       obind (failIfNotUnique seenOpts arg) (\<lambda>seen. Ok (seen, configFilePath))
     else if arg = ''-c'' \<or> arg = ''--config'' then
       obind (failIfNotUnique seenOpts arg) (\<lambda>seen.
         if args = [] then Err (Errorf (''invalid command line, '' @ arg @ '' option requires an argument''))
         else Ok (seen, if length configFilePath = 0 then hd args else configFilePath))
     else Ok (seenOpts, configFilePath))"

fun scan_args :: "string list \<Rightarrow> string set \<times> string \<Rightarrow> (string set \<times> string) outcome" where
  "scan_args [] s = Ok s"
| "scan_args (arg # args) s = obind (scan_arg arg args s) (scan_args args)"

definition apply_flags :: "string set \<Rightarrow> AppConfig \<Rightarrow> AppConfig" where
  "apply_flags seenOpts result =
     (let result1 = (if SetContains seenOpts ''-v'' \<or> SetContains seenOpts ''--verbose''
                     then result\<lparr>Verbose := True\<rparr> else result)
      in if SetContains seenOpts ''-d'' \<or> SetContains seenOpts ''--debug''
         then result1\<lparr>DebugMode := True\<rparr> else result1)"

definition loadAppConfig :: "('sg, 'ent) pgp \<Rightarrow> os_fs \<Rightarrow> string \<Rightarrow> string list \<Rightarrow> AppConfig program" where
  "loadAppConfig L fs env args =
     (case scan_args args (NewSet, env) of
        Err e \<Rightarrow> Returns (Err e)
      | Panic m \<Rightarrow> Returns (Panic m)
      | Ok (seenOpts, configFilePath) \<Rightarrow>
          (if length configFilePath = 0 then
             Returns (Err (Errorf ''no configuration file specified, use either -c/--config or set RPM_SIGN_CONFIG''))
           else
             pbind (loadAppConfigFromFile L fs configFilePath) (\<lambda>result.
               Returns (Ok (apply_flags seenOpts result)))))"

section \<open>Accepted configurations\<close>

lemma pbind_Ok_iff: "pbind m f = Returns (Ok y) \<longleftrightarrow> (\<exists>x. m = Returns (Ok x) \<and> f x = Returns (Ok y))"
  by (cases "(m, f)" rule: pbind.cases) auto

lemma assertFileExists_Ok: "assertFileExists fs p = Ok q \<longleftrightarrow> q = p \<and> FileExists fs p = Ok True"
  by (cases "FileExists fs p") (auto simp: assertFileExists_def)

definition known_keys :: "string list" where
  "known_keys = [''verbose'', ''debug'', ''gpg_public_key'', ''gpg_private_key'', ''access_log'', ''gpg_private_key_password'',
     ''api_signing_token'', ''listen_address'', ''rpm_sign_arm64_client_binary'', ''rpm_sign_client_binary'']"

definition line_key :: "string \<Rightarrow> string" where
  "line_key line = TrimSpace (takeWhile (\<lambda>c. c \<noteq> CHR ''='') line)"

definition settings :: "string list \<Rightarrow> string list" where
  "settings ls = map line_key (filter (\<lambda>l. \<not> is_ignored l) ls)"

definition binaries_exist :: "os_fs \<Rightarrow> AppConfig \<Rightarrow> bool" where
  "binaries_exist fs app \<longleftrightarrow> (\<forall>a p. RpmSignClientBinary app a = Some p \<longrightarrow> p \<noteq> [] \<and> FileExists fs p = Ok True)"

lemma take_find_slot: "find_slot P xs = Some i \<Longrightarrow> take i xs = takeWhile (\<lambda>x. \<not> P x) xs"
  by (induction xs arbitrary: i) (auto split: if_splits)

lemma binaries_exist_simps:
  "binaries_exist fs (app\<lparr>Verbose := b\<rparr>) = binaries_exist fs app"
  "binaries_exist fs (app\<lparr>DebugMode := b\<rparr>) = binaries_exist fs app"
  "binaries_exist fs (app\<lparr>GpgPublicKeyPath := x\<rparr>) = binaries_exist fs app"
  "binaries_exist fs (app\<lparr>GpgPrivateKeyPath := x\<rparr>) = binaries_exist fs app"
  "binaries_exist fs (app\<lparr>AccessLogPath := x\<rparr>) = binaries_exist fs app"
  "binaries_exist fs (app\<lparr>GpgPrivateKeyPassword := bs\<rparr>) = binaries_exist fs app"
  "binaries_exist fs (app\<lparr>ApiSigningToken := x\<rparr>) = binaries_exist fs app"
  "binaries_exist fs (app\<lparr>ListenAddress := x\<rparr>) = binaries_exist fs app"
  by (simp_all add: binaries_exist_def)

lemma binaries_exist_add:
  "binaries_exist fs app \<Longrightarrow> p \<noteq> [] \<Longrightarrow> FileExists fs p = Ok True \<Longrightarrow>
   binaries_exist fs (app\<lparr>RpmSignClientBinary := (RpmSignClientBinary app)(a \<mapsto> p)\<rparr>)"
  by (simp add: binaries_exist_def)

lemma set_key_Ok:
  assumes "set_key fs key v app = Ok app'"
  shows "key \<in> set known_keys" and "binaries_exist fs app \<Longrightarrow> binaries_exist fs app'"
proof -
  show "key \<in> set known_keys" using assms by (auto simp: set_key_def known_keys_def split: if_splits)
  show "binaries_exist fs app'" if "binaries_exist fs app"
    using assms that
    by (auto simp: set_key_def binaries_exist_simps binaries_exist_add assertFileExists_Ok outcome_simps split: if_splits)
qed

lemma config_line_Ok:
  assumes "config_line fs n line (seen, app) = Returns (Ok (seen', app'))"
  shows "if is_ignored line then seen' = seen \<and> app' = app
    else line_key line \<in> set known_keys \<and> line_key line \<notin> seen \<and> seen' = insert (line_key line) seen \<and>
      (binaries_exist fs app \<longrightarrow> binaries_exist fs app')"
  using assms
  by (auto simp: config_line_def Let_def line_key_def take_find_slot SetContains_def SetAdd_def set_key_Ok
      split: if_splits option.splits outcome.splits)

lemma config_lines_Ok:
  assumes "config_lines fs n ls (seen, app) = Returns (Ok (seen', app'))" and "binaries_exist fs app"
  shows "binaries_exist fs app' \<and> distinct (settings ls) \<and> set (settings ls) \<subseteq> set known_keys \<and>
    set (settings ls) \<inter> seen = {} \<and> seen' = seen \<union> set (settings ls)"
  using assms
proof (induction ls arbitrary: n seen app)
  case Nil
  then show ?case by (simp add: settings_def)
next
  case (Cons line ls)
  from Cons.prems(1) obtain seen1 app1 where 1: "config_line fs n line (seen, app) = Returns (Ok (seen1, app1))"
    and 2: "config_lines fs (Suc n) ls (seen1, app1) = Returns (Ok (seen', app'))"
    by (auto simp: pbind_Ok_iff)
  from config_line_Ok [OF 1] Cons.prems(2) have "binaries_exist fs app1" by (auto split: if_splits)
  from Cons.IH [OF 2 this] config_line_Ok [OF 1] show ?case by (auto simp: settings_def split: if_splits)
qed

definition config_ok :: "('sg, 'ent) pgp \<Rightarrow> os_fs \<Rightarrow> AppConfig \<Rightarrow> bool" where
  "config_ok L fs app \<longleftrightarrow> ApiSigningToken app \<noteq> [] \<and> ListenAddress app \<noteq> [] \<and> is_ok (LoadGpgPublicKey L fs app) \<and>
     is_ok (LoadGpgPrivateKey L fs app) \<and> binaries_exist fs app"

lemma finish_config_Ok:
  assumes "finish_config L fs app = Ok app'" and "binaries_exist fs app"
  shows "config_ok L fs app'"
proof -
  let ?a = "if length (ListenAddress app) = 0 then app\<lparr>ListenAddress := defaultListenAddress\<rparr> else app"
  have "ApiSigningToken app \<noteq> []" "app' = ?a" "is_ok (LoadGpgPublicKey L fs ?a)" "is_ok (LoadGpgPrivateKey L fs ?a)"
    using assms(1) by (auto simp: finish_config_def Let_def is_ok_iff split: if_splits outcome.splits)
  then show ?thesis using assms(2) by (auto simp: config_ok_def binaries_exist_simps defaultListenAddress_def)
qed

lemma loadAppConfigFromReader_Ok:
  assumes "loadAppConfigFromReader L fs r = Returns (Ok app)"
  obtains ls where "ReadLines r = Ok ls" "distinct (settings ls)" "set (settings ls) \<subseteq> set known_keys" "config_ok L fs app"
proof -
  from assms obtain ls seen app1 where ls: "ReadLines r = Ok ls"
    and 1: "config_lines fs 0 ls (NewSet, empty_config) = Returns (Ok (seen, app1))" and 2: "finish_config L fs app1 = Ok app"
    by (auto simp: loadAppConfigFromReader_def pbind_Ok_iff split: outcome.splits)
  have "binaries_exist fs empty_config" by (simp add: binaries_exist_def empty_config_def)
  from config_lines_Ok [OF 1 this] finish_config_Ok [OF 2] ls that show thesis by blast
qed

lemma config_ok_apply_flags: "config_ok L fs (apply_flags seen app) = config_ok L fs app"
  by (simp add: apply_flags_def config_ok_def binaries_exist_simps LoadGpgPublicKey_def LoadGpgPrivateKey_def Let_def)

lemma scan_arg_env: "scan_arg arg args (seen, env) = Ok (seen', path) \<Longrightarrow> env \<noteq> [] \<Longrightarrow> path = env"
  by (auto simp: scan_arg_def outcome_simps split: if_splits)

lemma scan_args_env: "scan_args args (seen, env) = Ok (seen', path) \<Longrightarrow> env \<noteq> [] \<Longrightarrow> path = env"
  by (induction args arbitrary: seen) (auto simp: outcome_simps dest: scan_arg_env)

text \<open>C22: a configuration that the server starts with names a non-blank signing token and a listen
  address, its two keys can be loaded, every client binary it names exists, and its file sets only
  known keys, each at most once.\<close>

theorem loadAppConfig_sound:
  assumes "loadAppConfig L fs env args = Returns (Ok app)"
  shows "config_ok L fs app \<and> (\<exists>path data ls. os_Open fs path = Ok data \<and>
      ReadLines (Source \<lparr>src_data = data, src_schedule = [], src_end = EOF\<rparr>) = Ok ls \<and>
      distinct (settings ls) \<and> set (settings ls) \<subseteq> set known_keys \<and> (env \<noteq> [] \<longrightarrow> path = env))"
proof -
  obtain seen path where 1: "scan_args args (NewSet, env) = Ok (seen, path)" and "path \<noteq> []"
    and "\<exists>app0. loadAppConfigFromFile L fs path = Returns (Ok app0) \<and> app = apply_flags seen app0"
    using assms by (auto simp: loadAppConfig_def pbind_Ok_iff split: outcome.splits if_splits)
  then obtain app0 data where data: "os_Open fs path = Ok data"
    and 2: "loadAppConfigFromReader L fs (Source \<lparr>src_data = data, src_schedule = [], src_end = EOF\<rparr>) = Returns (Ok app0)"
    and app: "app = apply_flags seen app0"
    by (auto simp: loadAppConfigFromFile_def split: outcome.splits)
  obtain ls where "ReadLines (Source \<lparr>src_data = data, src_schedule = [], src_end = EOF\<rparr>) = Ok ls"
    "distinct (settings ls)" "set (settings ls) \<subseteq> set known_keys" "config_ok L fs app0"
    by (rule loadAppConfigFromReader_Ok [OF 2])
  with data app scan_args_env [OF 1] show ?thesis by (auto simp: config_ok_apply_flags)
qed

section \<open>Lines and blanks of ASCII text\<close>

definition server_pgp :: "(bytes, unit) pgp" where
  "server_pgp = pgp_example\<lparr>read_packets := (\<lambda>d. [Ok (PrivateKeyPacket key_example)])\<rparr>"

definition nl :: string where "nl = [CHR 0x0A]"

definition config_text :: string where
  "config_text = ''# server'' @ nl @ ''api_signing_token = t0k'' @ nl @ nl @ ''gpg_public_key=/pub'' @ nl @ ''gpg_private_key=/key'' @ nl"

definition server_fs :: os_fs where
  "server_fs = \<lparr>fs_file = [''/c'' \<mapsto> (map byte_of_char config_text, 384), ''/pub'' \<mapsto> ([1], 384), ''/key'' \<mapsto> ([2], 384)],
     fs_dirs = {}, fs_room = None, fs_fault = (\<lambda>op p. None)\<rparr>"

lemma scan_lines_Nil: "scan_lines [] = Ok []"
  by (simp add: scan_lines.simps)

lemma scan_lines_line:
  assumes "length l < maxTokenSize" and "CHR 0x0A \<notin> set l"
  shows "scan_lines (l @ nl @ s) = obind (scan_lines s) (\<lambda>ls. Ok (dropCR l # ls))"
proof -
  have "takeWhile (\<lambda>c. c \<noteq> CHR 0x0A) (l @ nl @ s) = l" using assms(2) by (auto simp: nl_def takeWhile_append)
  then show ?thesis using assms(1) by (subst scan_lines.simps) (simp add: Let_def nl_def)
qed

lemma config_text_lines: "scan_lines config_text = Ok [''# server'', ''api_signing_token = t0k'', [], ''gpg_public_key=/pub'', ''gpg_private_key=/key'']"
  using scan_lines_line [of "[]"] scan_lines_Nil scan_lines_line [of _ "[]"]
  by (simp add: config_text_def scan_lines_line scan_lines_Nil maxTokenSize_def dropCR_def del: append_Cons)
definition ascii_space :: "char \<Rightarrow> bool" where
  "ascii_space c \<longleftrightarrow> of_char c \<in> {9, 10, 11, 12, 13, 32 :: nat}"

lemma char_of_iff: "(n::nat) < 256 \<Longrightarrow> c = char_of n \<longleftrightarrow> of_char c = n"
  by (auto simp: of_char_mod_256)

lemma is_space_rune_ascii: "is_space_rune [c] \<longleftrightarrow> ascii_space c"
  by (auto simp: is_space_rune_def space_runes_def utf8_bytes_def ascii_space_def char_of_iff)

lemma TrimSpace_ascii:
  assumes "\<forall>c \<in> set s. of_char c < (128 :: nat)"
  shows "TrimSpace s = rev (dropWhile ascii_space (rev (dropWhile ascii_space s)))"
  by (simp add: TrimSpace_def runes_ascii [OF assms] dropWhile_map rev_map o_def is_space_rune_ascii)

lemma is_ignored_ascii:
  assumes "\<forall>c \<in> set s. of_char c < (128 :: nat)"
  shows "is_ignored s \<longleftrightarrow> (case dropWhile ascii_space s of [] \<Rightarrow> True | c # cs \<Rightarrow> c = CHR 0x23)"
  by (cases "dropWhile ascii_space s") (simp_all only: is_ignored_def runes_ascii [OF assms] dropWhile_map o_def is_space_rune_ascii list.simps simp_thms)

lemma server_public_key_loads: "is_ok (LoadGpgPublicKey server_pgp server_fs app)" if "GpgPublicKeyPath app = ''/pub''" for app
  using that by (simp add: LoadGpgPublicKey_def server_fs_def os_Open_def LoadPublicKey_def server_pgp_def pgp_example_def)
lemma server_private_key_loads: "is_ok (LoadGpgPrivateKey server_pgp server_fs app)" if "GpgPublicKeyPath app = ''/pub''" "GpgPrivateKeyPath app = ''/key''" for app
  using that by (simp add: LoadGpgPrivateKey_def server_fs_def os_Open_def LoadPrivateKeyFromFile_def LoadPrivateKey_def server_pgp_def pgp_example_def
   key_example_def)

definition config_example :: AppConfig where
  "config_example = empty_config\<lparr>ApiSigningToken := ''t0k'', GpgPublicKeyPath := ''/pub'', GpgPrivateKeyPath := ''/key''\<rparr>"

lemma server_keys_exist: "assertFileExists server_fs ''/pub'' = Ok ''/pub''" "assertFileExists server_fs ''/key'' = Ok ''/key''"
  by (simp_all add: assertFileExists_Ok FileExists_def os_Stat_def server_fs_def)

lemma config_text_settings: "config_lines server_fs 0 [''# server'', ''api_signing_token = t0k'', [], ''gpg_public_key=/pub'', ''gpg_private_key=/key''] (NewSet, empty_config)
   = Returns (Ok ({''api_signing_token'', ''gpg_public_key'', ''gpg_private_key''}, config_example))"
  by (simp add: config_line_def is_ignored_ascii ascii_space_def TrimSpace_ascii SetContains_def SetAdd_def NewSet_def set_key_def server_keys_exist config_example_def insert_commute)


lemma config_file_opens: "os_Open server_fs ''/c'' = Ok (map byte_of_char config_text)"
  by (simp add: os_Open_def server_fs_def)

lemma server_config_loads:
  "loadAppConfig server_pgp server_fs [] [''-v'', ''-c'', ''/c''] =
     Returns (Ok (config_example\<lparr>ListenAddress := defaultListenAddress, Verbose := True\<rparr>))"
proof -
  let ?s = "Source \<lparr>src_data = map byte_of_char config_text, src_schedule = [], src_end = EOF\<rparr>"
  let ?a = "config_example\<lparr>ListenAddress := defaultListenAddress\<rparr>"
  have paths: "GpgPublicKeyPath ?a = ''/pub''" "GpgPrivateKeyPath ?a = ''/key''" by (simp_all add: config_example_def)
  have 1: "ReadLines ?s = Ok [''# server'', ''api_signing_token = t0k'', [], ''gpg_public_key=/pub'', ''gpg_private_key=/key'']"
    by (rule io_ReadAll_ok [of ?s]) (simp_all add: ReadLines_def config_text_lines o_def)
  obtain ring key where "LoadGpgPublicKey server_pgp server_fs ?a = Ok ring" "LoadGpgPrivateKey server_pgp server_fs ?a = Ok key"
    using server_public_key_loads [OF paths(1)] server_private_key_loads [OF paths] by (auto simp: is_ok_iff)
  then have 2: "finish_config server_pgp server_fs config_example = Ok ?a"
    by (simp add: finish_config_def Let_def) (simp add: config_example_def empty_config_def)
  have 3: "loadAppConfigFromFile server_pgp server_fs ''/c'' = Returns (Ok ?a)"
    using config_text_settings 1 2 by (simp add: loadAppConfigFromFile_def loadAppConfigFromReader_def config_file_opens del: config_lines.simps)
  show ?thesis
    by (simp add: loadAppConfig_def scan_arg_def failIfNotUnique_def NewSet_def SetContains_def SetAdd_def 3 apply_flags_def)
qed

theorem loadAppConfig_sound_witness:
  "\<exists>app. loadAppConfig server_pgp server_fs [] [''-v'', ''-c'', ''/c''] = Returns (Ok app) \<and> config_ok server_pgp server_fs app"
  using loadAppConfig_sound [OF server_config_loads] server_config_loads by blast
end
