(* ===== verification/Http.thy ===== *)
theory Http
  imports Config
begin

text \<open>
  What the server and the client use of HTTP: query strings (\<^verbatim>\<open>net/url\<close>), the comparison of the shared
  secret (\<^verbatim>\<open>crypto/subtle\<close>), requests and response writers, the access log's
  \<^verbatim>\<open>responseWriterWrapper\<close> (\<^verbatim>\<open>server/server.go\<close>) and the endpoints (\<^verbatim>\<open>common/endpoints.go\<close>).
\<close>

section \<open>Query strings\<close>

definition unreserved :: "char \<Rightarrow> bool" where
  "unreserved c =
     (let n = of_char c :: nat
      in (48 \<le> n \<and> n \<le> 57) \<or> (65 \<le> n \<and> n \<le> 90) \<or> (97 \<le> n \<and> n \<le> 122) \<or> n \<in> {45, 46, 95, 126})"

definition upper_hex :: "nat \<Rightarrow> char" where
  "upper_hex d = (if d < 10 then char_of (48 + d) else char_of (55 + d))"

definition escape_char :: "char \<Rightarrow> string" where
  "escape_char c =
     (if unreserved c then [c]
      else if c = CHR '' '' then ''+''
      else [CHR ''%'', upper_hex (of_char c div 16), upper_hex (of_char c mod 16)])"

definition QueryEscape :: "string \<Rightarrow> string" where
  "QueryEscape s = concat (map escape_char s)"

definition unhex :: "char \<Rightarrow> nat option" where
  "unhex c =
     (let n = of_char c :: nat
      in if 48 \<le> n \<and> n \<le> 57 then Some (n - 48)
         else if 97 \<le> n \<and> n \<le> 102 then Some (n - 87)
         else if 65 \<le> n \<and> n \<le> 70 then Some (n - 55)
         else None)"

text \<open>Percent decoding; in a query component a plus sign is a blank.\<close>

fun percent_decode :: "bool \<Rightarrow> string \<Rightarrow> string option" where
  "percent_decode query [] = Some []"
| "percent_decode query (c # s) =
     (if c = CHR ''%'' then
        (case s of
           a # b # t \<Rightarrow>
             (case (unhex a, unhex b) of
                (Some x, Some y) \<Rightarrow> map_option (Cons (char_of (16 * x + y))) (percent_decode query t)
              | _ \<Rightarrow> None)
         | _ \<Rightarrow> None)
      else map_option (Cons (if query \<and> c = CHR ''+'' then CHR '' '' else c)) (percent_decode query s))"

definition QueryUnescape :: "string \<Rightarrow> string option" where
  "QueryUnescape s = percent_decode True s"

definition pathUnescape :: "string \<Rightarrow> string" where
  "pathUnescape s = (case percent_decode False s of None \<Rightarrow> s | Some t \<Rightarrow> t)"

fun split_on :: "char \<Rightarrow> string \<Rightarrow> string list" where
  "split_on d [] = [[]]"
| "split_on d (c # s) = (if c = d then [] # split_on d s else (c # hd (split_on d s)) # tl (split_on d s))"

definition cut :: "char \<Rightarrow> string \<Rightarrow> string \<times> string" where
  "cut d s = (takeWhile (\<lambda>c. c \<noteq> d) s, tl (dropWhile (\<lambda>c. c \<noteq> d) s))"

definition query_pair :: "string \<Rightarrow> (string \<times> string) option" where
  "query_pair part =
     (if CHR 0x3B \<in> set part \<or> part = [] then None
      else
        (let (key, value) = cut (CHR ''='') part
         in case (QueryUnescape key, QueryUnescape value) of
              (Some k, Some v) \<Rightarrow> Some (k, v)
            | _ \<Rightarrow> None))"

definition ParseQuery :: "string \<Rightarrow> (string \<times> string) list" where
  "ParseQuery query = List.map_filter query_pair (split_on (CHR ''&'') query)"

definition Values_Get :: "(string \<times> string) list \<Rightarrow> string \<Rightarrow> string" where
  "Values_Get q key = (case map_of q key of Some v \<Rightarrow> v | None \<Rightarrow> [])"

definition Values_Has :: "(string \<times> string) list \<Rightarrow> string \<Rightarrow> bool" where
  "Values_Has q key \<longleftrightarrow> map_of q key \<noteq> None"

definition encode_value :: "string \<Rightarrow> string \<Rightarrow> string" where
  "encode_value key v = QueryEscape key @ CHR ''='' # QueryEscape v"

section \<open>Comparing secrets\<close>

unbundle bit_operations_syntax

definition ConstantTimeCompare :: "bytes \<Rightarrow> bytes \<Rightarrow> nat" where
  "ConstantTimeCompare x y =
     (if length x \<noteq> length y then 0
      else if fold (\<lambda>(a, b) v. v OR (a XOR b)) (zip x y) 0 = 0 then 1 else 0)"

section \<open>Requests and responses\<close>

definition PubKeyDownloadEndpoint :: string where "PubKeyDownloadEndpoint = ''/publicKey''"
definition ClientDownloadEndpoint :: string where "ClientDownloadEndpoint = ''/clientDownload''"
definition SignRpmHeaderEndpoint :: string where "SignRpmHeaderEndpoint = ''/signRpmHeader''"
definition SignDetached :: string where "SignDetached = ''/signDetached''"
definition InfoEndpoint :: string where "InfoEndpoint = ''/info''"

record Request =
  Method :: string
  Scheme :: string
  Host :: string
  URL_Path :: string
  EscapedPath :: string
  ForceQuery :: bool
  RawQuery :: string
  Proto :: string
  RemoteAddr :: string
  Referer :: string
  UserAgent :: string
  Body :: rdr

text \<open>A response: the status line and the headers are sent with the first byte of the body, later
  changes to them have no effect. \<^verbatim>\<open>attachment\<close> is the file name of the \<^verbatim>\<open>Content-Disposition\<close> header
  before it is quoted.\<close>

record Response =
  sent_status :: "nat option"
  header_of :: "string \<rightharpoonup> string"
  attachment :: "string option"
  sent_body :: io_sink

definition set_header :: "string \<Rightarrow> string \<Rightarrow> Response \<Rightarrow> Response" where
  "set_header k v w = (if sent_status w = None then w\<lparr>header_of := (header_of w)(k \<mapsto> v)\<rparr> else w)"

definition net_WriteHeader :: "nat \<Rightarrow> Response \<Rightarrow> Response" where
  "net_WriteHeader code w = (if sent_status w = None then w\<lparr>sent_status := Some code\<rparr> else w)"

definition net_Write :: "bytes \<Rightarrow> Response \<Rightarrow> nat \<times> goerror option \<times> Response" where
  "net_Write b w =
     (let w1 = net_WriteHeader 200 w; (n, e, s) = sink_write (sent_body w1) b
      in (n, e, w1\<lparr>sent_body := s\<rparr>))"

record responseWriterWrapper =
  ResponseWriter :: Response
  statusCode :: nat
  bytesWritten :: nat

definition wrap_response :: "Response \<Rightarrow> responseWriterWrapper" where
  "wrap_response w = \<lparr>ResponseWriter = w, statusCode = 200, bytesWritten = 0\<rparr>"

definition rw_header :: "string \<Rightarrow> string \<Rightarrow> responseWriterWrapper \<Rightarrow> responseWriterWrapper" where
  "rw_header k v rw = rw\<lparr>ResponseWriter := set_header k v (ResponseWriter rw)\<rparr>"

definition rw_WriteHeader :: "nat \<Rightarrow> responseWriterWrapper \<Rightarrow> responseWriterWrapper" where
  "rw_WriteHeader code rw = rw\<lparr>statusCode := code, ResponseWriter := net_WriteHeader code (ResponseWriter rw)\<rparr>"

definition rw_Write :: "bytes \<Rightarrow> responseWriterWrapper \<Rightarrow> goerror option \<times> responseWriterWrapper" where
  "rw_Write b rw =
     (let (n, e, w) = net_Write b (ResponseWriter rw)
      in (e, rw\<lparr>ResponseWriter := w, bytesWritten := bytesWritten rw + n\<rparr>))"

definition http_Error :: "string \<Rightarrow> nat \<Rightarrow> responseWriterWrapper \<Rightarrow> responseWriterWrapper" where
  "http_Error msg code rw =
     snd (rw_Write (map byte_of_char (msg @ nl))
       (rw_WriteHeader code
         (rw_header ''X-Content-Type-Options'' ''nosniff'' (rw_header ''Content-Type'' ''text/plain; charset=utf-8'' rw))))"

text \<open>\<^verbatim>\<open>io.Copy\<close> of a file to the response, in chunks of 32 KiB.\<close>

function rw_Copy :: "bytes \<Rightarrow> responseWriterWrapper \<Rightarrow> goerror option \<times> responseWriterWrapper" where
  "rw_Copy data rw =
     (if data = [] then (None, rw)
      else
        (case rw_Write (take 32768 data) rw of
           (Some e, rw') \<Rightarrow> (Some e, rw')
         | (None, rw') \<Rightarrow> rw_Copy (drop 32768 data) rw'))"
  by pat_completeness auto
termination by (relation "measure (\<lambda>(data, rw). length data)") auto

declare rw_Copy.simps [simp del]

definition no_response :: Response where
  "no_response = \<lparr>sent_status = None, header_of = Map.empty, attachment = None, sent_body = \<lparr>snk_data = [], snk_room = None\<rparr>\<rparr>"

section \<open>Round trip of query values\<close>

lemma unhex_upper_hex: "d < 16 \<Longrightarrow> unhex (upper_hex d) = Some d"
  by (auto simp: upper_hex_def unhex_def Let_def)

lemma of_char_div_16: "(of_char (c :: char) :: nat) div 16 < 16"
proof -
  have "of_char c < (256 :: nat)" by (metis of_char_mod_256 mod_less_divisor zero_less_numeral)
  then show ?thesis by (simp add: div_less_iff_less_mult)
qed

lemma percent_decode_escape: "percent_decode True (escape_char c @ s) = map_option (Cons c) (percent_decode True s)"
proof -
  have "unreserved c \<Longrightarrow> c \<noteq> CHR ''%'' \<and> c \<noteq> CHR ''+''" by (auto simp: unreserved_def)
  moreover have "char_of (16 * (of_char c div 16) + of_char c mod 16 :: nat) = c" by simp
  ultimately show ?thesis
    by (auto simp: escape_char_def unhex_upper_hex of_char_div_16)
qed

lemma QueryUnescape_QueryEscape: "QueryUnescape (QueryEscape s) = Some s"
  unfolding QueryUnescape_def QueryEscape_def by (induction s) (simp_all add: percent_decode_escape del: percent_decode.simps(2))

lemma upper_hex_range: "d < 16 \<Longrightarrow> of_char (upper_hex d) \<in> {48..57} \<union> {65..70::nat}"
  by (auto simp: upper_hex_def)

lemma escape_char_safe:
  assumes "c \<in> set (escape_char d)"
  shows "c \<notin> {CHR ''&'', CHR ''='', CHR 0x3B}"
proof -
  have 1: "\<exists>e<16. upper_hex (of_char d mod 16) = upper_hex e" "\<exists>e<16. upper_hex (of_char d div 16) = upper_hex e"
    using of_char_div_16 [of d] by (auto intro: exI [where x = "of_char d mod 16"])
  have "unreserved c \<or> c = CHR ''+'' \<or> c = CHR ''%'' \<or> (\<exists>e<16. c = upper_hex e)"
    using assms 1 by (auto simp: escape_char_def simp del: One_nat_def split: if_splits)
  moreover have "unreserved c \<Longrightarrow> ?thesis" by (auto simp: unreserved_def)
  moreover have "?thesis" if "e < 16" "c = upper_hex e" for e
    using upper_hex_range [OF that(1), folded that(2)] by auto
  ultimately show ?thesis by auto
qed

lemma QueryEscape_safe: "c \<in> set (QueryEscape s) \<Longrightarrow> c \<notin> {CHR ''&'', CHR ''='', CHR 0x3B}"
  using escape_char_safe by (auto simp: QueryEscape_def)

lemma split_on_none: "d \<notin> set s \<Longrightarrow> split_on d s = [s]"
  by (induction s) auto

lemma cut_at: "d \<notin> set k \<Longrightarrow> cut d (k @ d # v) = (k, v)"
  by (auto simp: cut_def takeWhile_append dropWhile_append)

lemma query_round_trip: "Values_Get (ParseQuery (encode_value k v)) k = v"
proof -
  let ?q = "encode_value k v"
  have no: "CHR ''&'' \<notin> set ?q" "CHR 0x3B \<notin> set ?q" "CHR ''='' \<notin> set (QueryEscape k)"
    using QueryEscape_safe by (auto simp: encode_value_def)
  have "query_pair ?q = Some (k, v)"
    using no(2) cut_at [OF no(3)] by (simp add: query_pair_def encode_value_def QueryUnescape_QueryEscape)
  then show ?thesis by (simp add: ParseQuery_def split_on_none [OF no(1)] List.map_filter_simps Values_Get_def)
qed

lemma fold_or_zero:
  "fold (\<lambda>(a, b) v. v OR (a XOR b)) ps (w :: u8) = 0 \<longleftrightarrow> w = 0 \<and> (\<forall>(a, b) \<in> set ps. a = b)"
proof (induction ps arbitrary: w)
  case (Cons p ps)
  obtain a b where p: "p = (a, b)" by (cases p)
  have "w OR (a XOR b) = 0 \<longleftrightarrow> w = 0 \<and> a = b"
    by (auto simp: bit_eq_iff bit_or_iff bit_xor_iff)
  with Cons show ?case by (auto simp: p)
qed simp

lemma ConstantTimeCompare_iff: "ConstantTimeCompare x y = 1 \<longleftrightarrow> x = y"
  by (auto simp: ConstantTimeCompare_def fold_or_zero list_eq_iff_zip_eq split: if_splits)

lemma byte_of_char_inj: "map byte_of_char s = map byte_of_char t \<longleftrightarrow> s = t"
  by (metis char_of_byte_inverse inj_map_eq_map inj_onI)
end
