(* ===== verification/Log.thy ===== *)
theory Log
  imports Rpm_Prelude
begin

text \<open>
  The logger (\<^verbatim>\<open>common/log.go\<close>). The output is the sequence of messages that pass the level; a
  formatted message is kept as its format string and its operands.
\<close>

datatype log_entry = Message string | Formatted string "string list"

record LogImpl =
  log_output :: "log_entry list"
  currentLogLevel :: u8

definition LOG_LEVEL_TRACE :: u8 where "LOG_LEVEL_TRACE = 5"
definition LOG_LEVEL_DEBUG :: u8 where "LOG_LEVEL_DEBUG = 4"
definition LOG_LEVEL_INFO :: u8 where "LOG_LEVEL_INFO = 3"
definition LOG_LEVEL_ERROR :: u8 where "LOG_LEVEL_ERROR = 1"

definition root_logger :: LogImpl where
  "root_logger = \<lparr>log_output = [], currentLogLevel = LOG_LEVEL_INFO\<rparr>"

definition SetCurrentLogLevel :: "u8 \<Rightarrow> LogImpl \<Rightarrow> LogImpl" where
  "SetCurrentLogLevel level l = l\<lparr>currentLogLevel := level\<rparr>"

definition log_entry_to :: "log_entry \<Rightarrow> LogImpl \<Rightarrow> LogImpl" where
  "log_entry_to e l = l\<lparr>log_output := log_output l @ [e]\<rparr>"

definition log_Error :: "string \<Rightarrow> LogImpl \<Rightarrow> LogImpl" where
  "log_Error message l = (if currentLogLevel l \<ge> LOG_LEVEL_ERROR then log_entry_to (Message message) l else l)"

definition log_Errorf :: "string \<Rightarrow> string list \<Rightarrow> LogImpl \<Rightarrow> LogImpl" where
  "log_Errorf format args l = (if currentLogLevel l \<ge> LOG_LEVEL_ERROR then log_entry_to (Formatted format args) l else l)"

definition log_Debug :: "string \<Rightarrow> LogImpl \<Rightarrow> LogImpl" where
  "log_Debug message l = (if currentLogLevel l \<ge> LOG_LEVEL_DEBUG then log_entry_to (Message message) l else l)"

definition log_Debugf :: "string \<Rightarrow> string list \<Rightarrow> LogImpl \<Rightarrow> LogImpl" where
  "log_Debugf format args l = (if currentLogLevel l \<ge> LOG_LEVEL_DEBUG then log_entry_to (Formatted format args) l else l)"

definition log_Info :: "string \<Rightarrow> LogImpl \<Rightarrow> LogImpl" where
  "log_Info message l = (if currentLogLevel l \<ge> LOG_LEVEL_INFO then log_entry_to (Message message) l else l)"

definition log_Infof :: "string \<Rightarrow> string list \<Rightarrow> LogImpl \<Rightarrow> LogImpl" where
  "log_Infof format args l = (if currentLogLevel l \<ge> LOG_LEVEL_INFO then log_entry_to (Formatted format args) l else l)"

text \<open>The levels are ordered: a logger that emits debug messages emits information and errors.\<close>

lemma log_levels:
  assumes "log_output (log_Debug m l) \<noteq> log_output l"
  shows "log_output (log_Info m' l) = log_output l @ [Message m']" and "log_output (log_Error m' l) = log_output l @ [Message m']"
proof -
  have "LOG_LEVEL_DEBUG \<le> currentLogLevel l"
    using assms by (auto simp: log_Debug_def split: if_splits)
  moreover have "LOG_LEVEL_ERROR \<le> LOG_LEVEL_INFO" "LOG_LEVEL_INFO \<le> LOG_LEVEL_DEBUG"
    by (simp_all add: LOG_LEVEL_ERROR_def LOG_LEVEL_INFO_def LOG_LEVEL_DEBUG_def)
  ultimately have "LOG_LEVEL_ERROR \<le> currentLogLevel l" "LOG_LEVEL_INFO \<le> currentLogLevel l"
    by (meson order_trans)+
  then show "log_output (log_Info m' l) = log_output l @ [Message m']" "log_output (log_Error m' l) = log_output l @ [Message m']"
    by (simp_all add: log_Info_def log_Error_def log_entry_to_def)
qed

end
