(* ===== verification/Server.thy ===== *)
theory Server
  imports Http Log
begin

text \<open>
  The signing server (\<^verbatim>\<open>server/server.go\<close>): its handlers with their messages to the root logger, the mux
  and the access log. The messages the common library prints while it parses and writes are left out.
\<close>

section \<open>Handlers\<close>

text \<open>What the handlers use besides the request and the configuration: the OpenPGP and hash libraries,
  the growth of slices, the time of signing, the formatted start time, the version set by the linker,
  the answer of the mux to a path that is not in clean form and how \<^verbatim>\<open>fmt\<close> prints a response writer.\<close>

record ('sg, 'ent) runtime =
  rt_pgp :: "('sg, 'ent) pgp"
  rt_hashes :: hashes
  rt_grow :: "nat \<Rightarrow> nat"
  rt_cap :: "nat \<Rightarrow> nat"
  rt_now :: nat
  rt_serverStart :: string
  rt_AppVersion :: string
  rt_GitRef :: string
  rt_redirect :: "Request \<Rightarrow> responseWriterWrapper \<Rightarrow> responseWriterWrapper"
  rt_fmt_writer :: "responseWriterWrapper \<Rightarrow> string"

text \<open>A handler completes the response, panics (the connection is then closed) or does not return.\<close>

datatype handled = Done responseWriterWrapper | Crashed string | Hangs

definition signRpmData ::
  "('sg, 'ent) runtime \<Rightarrow> os_fs \<Rightarrow> rdr \<Rightarrow> wtr \<Rightarrow> AppConfig \<Rightarrow> wtr outcome option" where
  "signRpmData rt fs r w config =
     (case ParseRPMFromReader (rt_hashes rt) (rt_cap rt) r False of
        Err e \<Rightarrow> Some (Err e)
      | Panic m \<Rightarrow> Some (Panic m)
      | Ok (f, r') \<Rightarrow>
          (case LoadGpgPrivateKey (rt_pgp rt) fs config of
             Err e \<Rightarrow> Some (Err e)
           | Panic m \<Rightarrow> Some (Panic m)
           | Ok privateKey \<Rightarrow>
               map_option (\<lambda>x. obind x (\<lambda>(w', r''). Ok w'))
                 (SignRpmAndWrite (rt_pgp rt) (rt_grow rt) (rt_now rt) f w r' privateKey)))"

definition initBinaryUncacheableHttpResponse :: "responseWriterWrapper \<Rightarrow> responseWriterWrapper" where
  "initBinaryUncacheableHttpResponse w =
     rw_header ''Expires'' ''0''
       (rw_header ''Pragma'' ''no-cache''
         (rw_header ''Cache-Control'' ''no-store, no-cache, must-revalidate''
           (rw_header ''Content-Type'' ''application/octet-stream'' w)))"

definition sendHttpError :: "nat \<Rightarrow> string \<Rightarrow> responseWriterWrapper \<Rightarrow> responseWriterWrapper" where
  "sendHttpError code msg w = http_Error msg code w"

text \<open>A handler takes the root logger and returns it with its message, if it has one.\<close>

definition logged_write ::
  "string \<Rightarrow> string \<Rightarrow> goerror option \<times> responseWriterWrapper \<Rightarrow> LogImpl \<Rightarrow> handled \<times> LogImpl" where
  "logged_write format addr written l =
     (case written of
        (None, w) \<Rightarrow> (Done w, l)
      | (Some e, w) \<Rightarrow> (Done w, log_Errorf format [addr, error_text e] l))"

definition handlePublicKey ::
  "('sg, 'ent) runtime \<Rightarrow> os_fs \<Rightarrow> responseWriterWrapper \<Rightarrow> AppConfig \<Rightarrow> LogImpl \<Rightarrow> handled \<times> LogImpl" where
  "handlePublicKey rt fs w app l =
     (case LoadGpgPublicKeyAsBytes fs app of
        Ok publicKey \<Rightarrow>
          (case rw_Write publicKey (initBinaryUncacheableHttpResponse w) of
             (None, w') \<Rightarrow> (Done w', l)
           | (Some e, w') \<Rightarrow>
               (Done (sendHttpError 400 ''failed to read request body'' w'),
                log_Errorf ''Failed to write request body to  %s: %v'' [rt_fmt_writer rt w', error_text e] l))
      | Err e \<Rightarrow>
          (Done (sendHttpError 500 ''failed to load GPG public key'' w),
           log_Errorf ''Failed to load GPG public key %s: %v'' [GpgPublicKeyPath app, error_text e] l)
      | Panic m \<Rightarrow> (Crashed m, l))"

definition doSigDetached :: "('sg, 'ent) runtime \<Rightarrow> os_fs \<Rightarrow> rdr \<Rightarrow> AppConfig \<Rightarrow> bytes outcome" where
  "doSigDetached rt fs input app =
     obind (LoadGpgPrivateKey (rt_pgp rt) fs app) (\<lambda>privateKey. SignGeneric (rt_pgp rt) (rt_now rt) input privateKey)"

definition authorised :: "Request \<Rightarrow> AppConfig \<Rightarrow> bool" where
  "authorised r app \<longleftrightarrow>
     ConstantTimeCompare (map byte_of_char (Values_Get (ParseQuery (RawQuery r)) ''authToken''))
       (map byte_of_char (ApiSigningToken app)) = 1"

definition forbidden :: "responseWriterWrapper \<Rightarrow> Request \<Rightarrow> LogImpl \<Rightarrow> handled \<times> LogImpl" where
  "forbidden w r l =
     (Done (sendHttpError 403 ''missing or invalid authToken'' w),
      log_Errorf ''Rejected /sign request from %s: missing or wrong authToken'' [RemoteAddr r] l)"

definition handleSignDetached ::
  "('sg, 'ent) runtime \<Rightarrow> os_fs \<Rightarrow> responseWriterWrapper \<Rightarrow> Request \<Rightarrow> AppConfig \<Rightarrow> LogImpl \<Rightarrow> handled \<times> LogImpl" where
  "handleSignDetached rt fs w r app l =
     (if \<not> authorised r app then forbidden w r l
      else
        (case doSigDetached rt fs (Body r) app of
           Err e \<Rightarrow>
             (Done (sendHttpError 400 ''failed to sign data'' w),
              log_Errorf ''Failed to sign incoming generic data from %s: %v'' [RemoteAddr r, error_text e] l)
         | Panic m \<Rightarrow> (Crashed m, l)
         | Ok signature \<Rightarrow>
             logged_write ''Failed to write signed RPM data to %s: %v'' (RemoteAddr r)
               (rw_Write signature (initBinaryUncacheableHttpResponse w)) l))"

definition handleSignRpmHeader ::
  "('sg, 'ent) runtime \<Rightarrow> os_fs \<Rightarrow> responseWriterWrapper \<Rightarrow> Request \<Rightarrow> AppConfig \<Rightarrow> LogImpl \<Rightarrow> handled \<times> LogImpl" where
  "handleSignRpmHeader rt fs w r app l =
     (if \<not> authorised r app then forbidden w r l
      else
        (case signRpmData rt fs (NewIOReaderWithOffset (Body r))
                (NewOffsetTrackingWriter (Sink \<lparr>snk_data = [], snk_room = None\<rparr>)) app of
           None \<Rightarrow> (Hangs, l)
         | Some (Err e) \<Rightarrow>
             (Done (sendHttpError 400 ''failed to sign RPM data'' w),
              log_Errorf ''Failed to sign incoming RPM data from %s: %v'' [RemoteAddr r, error_text e] l)
         | Some (Panic m) \<Rightarrow> (Crashed m, l)
         | Some (Ok signedData) \<Rightarrow>
             logged_write ''Failed to write signed RPM data to %s: %v'' (RemoteAddr r)
               (rw_Write (contents signedData) (initBinaryUncacheableHttpResponse w)) l))"

definition version_json :: "('sg, 'ent) runtime \<Rightarrow> string" where
  "version_json rt =
     (let q = [CHR 0x22]
      in ''{ '' @ q @ ''application'' @ q @ '': '' @ q @ ''rpm-signing'' @ q @ '', '' @ nl @
         q @ ''serverStart'' @ q @ '': '' @ q @ rt_serverStart rt @ q @ '', '' @ q @ ''version'' @ q @ '':'' @ q @
         rt_AppVersion rt @ q @ '', '' @ q @ ''gitRef'' @ q @ '': '' @ q @ rt_GitRef rt @ q @ ''}'')"

definition handleVersionRequest ::
  "('sg, 'ent) runtime \<Rightarrow> responseWriterWrapper \<Rightarrow> Request \<Rightarrow> LogImpl \<Rightarrow> handled \<times> LogImpl" where
  "handleVersionRequest rt w r l =
     logged_write ''Failed to stream version JSON to %s: %v'' (RemoteAddr r)
       (rw_Write (map byte_of_char (version_json rt))
         (rw_header ''Content-Type'' ''application/json'' (initBinaryUncacheableHttpResponse w))) l"

text \<open>\<^verbatim>\<open>filepath.Base\<close>; \<^verbatim>\<open>strings.ToLower\<close> is compared with ASCII words without k and i only, so lowering
  the ASCII letters is enough.\<close>

definition filepath_Base :: "string \<Rightarrow> string" where
  "filepath_Base path =
     (if path = [] then ''.''
      else
        (let p = rev (dropWhile (\<lambda>c. c = CHR ''/'') (rev path))
         in if p = [] then ''/'' else rev (takeWhile (\<lambda>c. c \<noteq> CHR ''/'') (rev p))))"

definition requested_architecture :: "(string \<times> string) list \<Rightarrow> Architecture option" where
  "requested_architecture queryParams =
     (if Values_Has queryParams ''arch'' then
        (let archValue = map ascii_lower (Values_Get queryParams ''arch'')
         in if archValue = ''x86'' then Some ARCH_X86
            else if archValue = ''arm64'' then Some ARCH_ARM64 else None)
      else Some ARCH_X86)"

text \<open>How \<^verbatim>\<open>fmt\<close> prints an architecture and the map of client binaries, with its keys in order.\<close>

definition fmt_architecture :: "Architecture \<Rightarrow> string" where
  "fmt_architecture a = (case a of ARCH_X86 \<Rightarrow> ''x86'' | ARCH_ARM64 \<Rightarrow> ''arm64'')"

definition fmt_binaries :: "(Architecture \<rightharpoonup> string) \<Rightarrow> string" where
  "fmt_binaries m =
     ''map['' @ join_strings (List.map_filter (\<lambda>a. map_option (\<lambda>p. fmt_architecture a @ '':'' @ p) (m a)) [ARCH_ARM64, ARCH_X86]) '' '' @ '']''"

definition handleClientDownload ::
  "os_fs \<Rightarrow> responseWriterWrapper \<Rightarrow> Request \<Rightarrow> AppConfig \<Rightarrow> LogImpl \<Rightarrow> handled \<times> LogImpl" where
  "handleClientDownload fs w r app l =
     (if RpmSignClientBinary app = Map.empty then
        (Done (sendHttpError 400 ''no client binary configured'' w),
         log_Errorf (''Rejected /clientDownload request from %s: no '' @ quoted ''rpm_sign_client_binary'' @ '' configured'') [RemoteAddr r] l)
      else
        (case requested_architecture (ParseQuery (RawQuery r)) of
           None \<Rightarrow>
             (Done (sendHttpError 400 ''Unsupported architecture'' w),
              log_Errorf (''Rejected /clientDownload request from %s: Unsupported architecture '' @ quoted ''%v'')
                [RemoteAddr r, Values_Get (ParseQuery (RawQuery r)) ''arch''] l)
         | Some architecture \<Rightarrow>
             (case RpmSignClientBinary app architecture of
                None \<Rightarrow>
                  (Done (sendHttpError 400 ''no client binary configured'' w),
                   log_Errorf (''Rejected /clientDownload request from %s with architecture '' @ quoted ''%v'' @
                     '' - no binary configured for that architecture'') [RemoteAddr r, fmt_architecture architecture] l)
              | Some binaryPath \<Rightarrow>
                  (case os_Open fs binaryPath of
                     Err e \<Rightarrow>
                       (Done (sendHttpError 500 ''failed to open client binary'' w),
                        log_Errorf ''Failed to open client binary %s: %v'' [fmt_binaries (RpmSignClientBinary app), error_text e] l)
                   | Panic m \<Rightarrow> (Crashed m, l)
                   | Ok data \<Rightarrow>
                       (let w1 = initBinaryUncacheableHttpResponse w;
                            w2 = w1\<lparr>ResponseWriter := (ResponseWriter w1)\<lparr>attachment := Some (filepath_Base binaryPath)\<rparr>\<rparr>
                        in logged_write ''Failed to stream client binary to %s: %v'' (RemoteAddr r) (rw_Copy data w2) l)))))"

section \<open>The mux\<close>

datatype endpoint = PublicKey | SignRpmHeader | SignData | ClientDownload | Info

definition endpoints :: "(string \<times> endpoint) list" where
  "endpoints =
     [(PubKeyDownloadEndpoint, PublicKey), (SignRpmHeaderEndpoint, SignRpmHeader), (SignDetached, SignData),
      (ClientDownloadEndpoint, ClientDownload), (InfoEndpoint, Info)]"

definition endpoint_methods :: "endpoint \<Rightarrow> string list" where
  "endpoint_methods e = (if e = SignRpmHeader \<or> e = SignData then [''POST''] else [''GET'', ''HEAD''])"

definition is_clean_path :: "string \<Rightarrow> bool" where
  "is_clean_path p =
     (case p of
        [] \<Rightarrow> False
      | c # s \<Rightarrow>
          c = CHR ''/'' \<and>
          (let segs = split_on (CHR ''/'') s
           in list_all (\<lambda>x. x \<noteq> ''.'' \<and> x \<noteq> ''..'') segs \<and> list_all (\<lambda>x. x \<noteq> []) (butlast segs)))"

definition match_endpoint :: "string \<Rightarrow> endpoint option" where
  "match_endpoint p =
     (case p of
        [] \<Rightarrow> None
      | c # s \<Rightarrow>
          if c = CHR ''/'' \<and> CHR ''/'' \<notin> set s then map_of endpoints (CHR ''/'' # pathUnescape s) else None)"

definition handle_endpoint ::
  "('sg, 'ent) runtime \<Rightarrow> os_fs \<Rightarrow> responseWriterWrapper \<Rightarrow> Request \<Rightarrow> AppConfig \<Rightarrow> endpoint \<Rightarrow> LogImpl \<Rightarrow> handled \<times> LogImpl" where
  "handle_endpoint rt fs w r app e l =
     (case e of
        PublicKey \<Rightarrow> handlePublicKey rt fs w app l
      | SignRpmHeader \<Rightarrow> handleSignRpmHeader rt fs w r app l
      | SignData \<Rightarrow> handleSignDetached rt fs w r app l
      | ClientDownload \<Rightarrow> handleClientDownload fs w r app l
      | Info \<Rightarrow> handleVersionRequest rt w r l)"

definition mux_ServeHTTP ::
  "('sg, 'ent) runtime \<Rightarrow> os_fs \<Rightarrow> AppConfig \<Rightarrow> responseWriterWrapper \<Rightarrow> Request \<Rightarrow> LogImpl \<Rightarrow> handled \<times> LogImpl" where
  "mux_ServeHTTP rt fs app w r l =
     (if EscapedPath r = ''*'' then (Done (rw_WriteHeader 400 w), l)
      else if Method r \<noteq> ''CONNECT'' \<and> \<not> is_clean_path (EscapedPath r) then (Done (rt_redirect rt r w), l)
      else
        (case match_endpoint (EscapedPath r) of
           None \<Rightarrow> (Done (http_Error ''404 page not found'' 404 w), l)
         | Some e \<Rightarrow>
             (if Method r \<in> set (endpoint_methods e) then handle_endpoint rt fs w r app e l
              else (Done (http_Error ''Method Not Allowed'' 405
                     (rw_header ''Allow'' (join_strings (endpoint_methods e) '', '') w)), l))))"

section \<open>The access log\<close>

record server_state =
  srv_fs :: os_fs
  accessLog :: "string option"
  attemptedAccessLogOpen :: bool
  rootLogger :: LogImpl

text \<open>\<^verbatim>\<open>writeAccessLog\<close> reads and changes the global \<^verbatim>\<open>accessLog\<close> without a lock, so its three parts are definitions
  of their own: the test of the globals, the creation of the file and the write. The last reads \<^verbatim>\<open>accessLog\<close> again;
  writing to a nil file is an error.\<close>

datatype log_next = LogDone | LogCreate | LogWrite

definition check_access_log :: "string \<Rightarrow> AppConfig \<Rightarrow> server_state \<Rightarrow> log_next \<times> server_state" where
  "check_access_log logLine app st =
     (if accessLog st \<noteq> None then (LogWrite, st)
      else if length (AccessLogPath app) = 0 \<or> attemptedAccessLogOpen st then
        (LogDone, st\<lparr>rootLogger := log_Infof logLine [] (rootLogger st)\<rparr>)
      else (LogCreate, st))"

definition create_access_log :: "AppConfig \<Rightarrow> server_state \<Rightarrow> log_next \<times> server_state" where
  "create_access_log app st =
     (case os_Create (srv_fs st) (AccessLogPath app) of
        (Ok u, fs') \<Rightarrow> (LogWrite, st\<lparr>srv_fs := fs', accessLog := Some (AccessLogPath app), attemptedAccessLogOpen := True\<rparr>)
      | (Err e, fs') \<Rightarrow>
          (LogDone, st\<lparr>srv_fs := fs', accessLog := None, attemptedAccessLogOpen := True,
             rootLogger := log_Errorf ''Failed to open access log file %s: %v''
               [AccessLogPath app, error_text e] (rootLogger st)\<rparr>)
      | (Panic m, fs') \<Rightarrow> (LogDone, st\<lparr>srv_fs := fs'\<rparr>))"

definition write_access_log :: "string \<Rightarrow> AppConfig \<Rightarrow> server_state \<Rightarrow> server_state" where
  "write_access_log logLine app st =
     (let (written, fs') =
            (case accessLog st of
               Some path \<Rightarrow> file_Write (srv_fs st) path (map byte_of_char logLine)
             | None \<Rightarrow> (Err (Errorf ''invalid argument''), srv_fs st))
      in case written of
           Err e \<Rightarrow>
             st\<lparr>srv_fs := fs', accessLog := None,
                rootLogger := log_Errorf ''Failed to write to access log (no more access log will be written!) %s: %v''
                  [AccessLogPath app, error_text e] (rootLogger st)\<rparr>
         | _ \<Rightarrow> st\<lparr>srv_fs := fs'\<rparr>)"

definition writeAccessLog :: "string \<Rightarrow> AppConfig \<Rightarrow> server_state \<Rightarrow> server_state" where
  "writeAccessLog logLine app st =
     (case check_access_log logLine app st of
        (LogDone, st1) \<Rightarrow> st1
      | (LogWrite, st1) \<Rightarrow> write_access_log logLine app st1
      | (LogCreate, st1) \<Rightarrow>
          (case create_access_log app st1 of
             (LogWrite, st2) \<Rightarrow> write_access_log logLine app st2
           | (_, st2) \<Rightarrow> st2))"

definition RequestURI :: "Request \<Rightarrow> string" where
  "RequestURI r =
     (if EscapedPath r = [] then ''/'' else EscapedPath r) @
     (if ForceQuery r \<or> RawQuery r \<noteq> [] then CHR ''?'' # RawQuery r else [])"

definition access_log_line :: "string \<Rightarrow> Request \<Rightarrow> AppConfig \<Rightarrow> responseWriterWrapper \<Rightarrow> string" where
  "access_log_line timestamp r app w =
     (let q = [CHR 0x22];
          referer = (if Referer r = [] then ''-'' else Referer r);
          userAgent = (if UserAgent r = [] then ''-'' else UserAgent r);
          uri = (if DebugMode app then RequestURI r else Scheme r @ ''://'' @ Host r @ URL_Path r)
      in RemoteAddr r @ '' - - ['' @ timestamp @ ''] '' @ q @ Method r @ '' '' @ uri @ '' '' @ Proto r @ q @ '' '' @
         fmt_d (statusCode w) @ '' '' @ fmt_d (bytesWritten w) @ '' '' @ q @ referer @ q @ '' '' @ q @ userAgent @ q @ nl)"

text \<open>A panic of the handler also skips the access log.\<close>

definition AccessLogMiddleware ::
  "('sg, 'ent) runtime \<Rightarrow> AppConfig \<Rightarrow> string \<Rightarrow> Response \<Rightarrow> Request \<Rightarrow> server_state \<Rightarrow> handled \<times> server_state" where
  "AccessLogMiddleware rt app timestamp w r st =
     (case mux_ServeHTTP rt (srv_fs st) app (wrap_response w) r (rootLogger st) of
        (Done wrapper, l) \<Rightarrow>
          (Done wrapper, writeAccessLog (access_log_line timestamp r app wrapper) app (st\<lparr>rootLogger := l\<rparr>))
      | (h, l) \<Rightarrow> (h, st\<lparr>rootLogger := l\<rparr>))"

section \<open>Responses\<close>

lemma http_Error_fresh:
  "http_Error msg code (wrap_response no_response) =
    \<lparr>ResponseWriter = \<lparr>sent_status = Some code,
       header_of = [''Content-Type'' \<mapsto> ''text/plain; charset=utf-8'', ''X-Content-Type-Options'' \<mapsto> ''nosniff''],
       attachment = None, sent_body = \<lparr>snk_data = map byte_of_char (msg @ nl), snk_room = None\<rparr>\<rparr>,
     statusCode = code, bytesWritten = Suc (length msg)\<rparr>"
  by (simp add: http_Error_def rw_header_def set_header_def rw_WriteHeader_def net_WriteHeader_def rw_Write_def net_Write_def
      sink_write_def wrap_response_def no_response_def nl_def)

lemma rw_Write_binary:
  "rw_Write b (initBinaryUncacheableHttpResponse (wrap_response no_response)) = (e, w) \<Longrightarrow>
   e = None \<and> statusCode w = 200 \<and> bytesWritten w = length b \<and> sent_status (ResponseWriter w) = Some 200 \<and>
   snk_data (sent_body (ResponseWriter w)) = b"
  by (auto simp: initBinaryUncacheableHttpResponse_def rw_header_def set_header_def net_WriteHeader_def rw_Write_def net_Write_def
      sink_write_def wrap_response_def no_response_def)

lemma authorised_iff: "authorised r app \<longleftrightarrow> Values_Get (ParseQuery (RawQuery r)) ''authToken'' = ApiSigningToken app"
  by (simp add: authorised_def ConstantTimeCompare_iff byte_of_char_inj del: One_nat_def)

section \<open>Endpoints that need the token\<close>

text \<open>The contract of a handler behind the signing token, and what a caller without it can see.\<close>

locale guarded_handler =
  fixes handler ::
    "('sg, 'ent) runtime \<Rightarrow> os_fs \<Rightarrow> responseWriterWrapper \<Rightarrow> Request \<Rightarrow> AppConfig \<Rightarrow> LogImpl \<Rightarrow> handled \<times> LogImpl"
  assumes guard: "\<not> authorised r app \<Longrightarrow> handler rt fs w r app l = forbidden w r l"
begin

lemma wrong_token:
  "Values_Get (ParseQuery (RawQuery r)) ''authToken'' \<noteq> ApiSigningToken app \<Longrightarrow> handler rt fs w r app l = forbidden w r l"
  by (rule guard) (simp add: authorised_iff)

lemma no_disclosure:
  "\<not> authorised r app \<Longrightarrow> handler rt fs w r app l = handler rt' fs' w (r\<lparr>Body := b\<rparr>) app l"
  by (simp add: guard authorised_def forbidden_def)

end

interpretation sign_rpm: guarded_handler handleSignRpmHeader
  by unfold_locales (simp add: handleSignRpmHeader_def)

interpretation sign_data: guarded_handler handleSignDetached
  by unfold_locales (simp add: handleSignDetached_def)

lemma match_endpoint_path:
  assumes "match_endpoint p = Some e"
  shows "p \<noteq> ''*''" and "is_clean_path p"
proof -
  obtain s where p: "p = CHR ''/'' # s" "CHR ''/'' \<notin> set s" and m: "map_of endpoints (CHR ''/'' # pathUnescape s) = Some e"
    using assms by (auto simp: match_endpoint_def split: list.splits if_splits)
  have "s \<noteq> ''.''" "s \<noteq> ''..''"
    using m by (auto simp: pathUnescape_def endpoints_def PubKeyDownloadEndpoint_def SignRpmHeaderEndpoint_def SignDetached_def
        ClientDownloadEndpoint_def InfoEndpoint_def)
  with p show "p \<noteq> ''*''" "is_clean_path p" by (simp_all add: is_clean_path_def split_on_none)
qed

lemma mux_match:
  "match_endpoint (EscapedPath r) = Some e \<Longrightarrow> Method r \<in> set (endpoint_methods e) \<Longrightarrow>
   mux_ServeHTTP rt fs app w r l = handle_endpoint rt fs w r app e l"
  by (simp add: mux_ServeHTTP_def match_endpoint_path)

text \<open>C6: without the configured token nothing is signed. Whatever the keys, the files and the body of
  the request, a request to one of the two signing endpoints whose \<^verbatim>\<open>authToken\<close> is not the configured one
  is answered with status 403 and a fixed text, and the attempt is reported to the log.\<close>

theorem signing_needs_token:
  assumes "match_endpoint (EscapedPath r) = Some e" and "e \<in> {SignRpmHeader, SignData}" and "Method r = ''POST''"
    and "Values_Get (ParseQuery (RawQuery r)) ''authToken'' \<noteq> ApiSigningToken app"
  shows "\<exists>w. mux_ServeHTTP rt fs app (wrap_response no_response) r l =
      (Done w, log_Errorf ''Rejected /sign request from %s: missing or wrong authToken'' [RemoteAddr r] l) \<and>
    statusCode w = 403 \<and> sent_status (ResponseWriter w) = Some 403 \<and>
    snk_data (sent_body (ResponseWriter w)) = map byte_of_char (''missing or invalid authToken'' @ nl)"
proof -
  have "mux_ServeHTTP rt fs app (wrap_response no_response) r l = handle_endpoint rt fs (wrap_response no_response) r app e l"
    using assms(1-3) by (auto simp: mux_match endpoint_methods_def)
  also have "\<dots> = forbidden (wrap_response no_response) r l"
    using assms(2) sign_rpm.wrong_token [OF assms(4)] sign_data.wrong_token [OF assms(4)] by (auto simp: handle_endpoint_def)
  finally show ?thesis by (simp add: forbidden_def sendHttpError_def http_Error_fresh)
qed

definition request_example :: Request where
  "request_example = \<lparr>Method = ''POST'', Scheme = [], Host = ''h'', URL_Path = ''/signRpmHeader'', EscapedPath = ''/signRpmHeader'',
     ForceQuery = False, RawQuery = ''authToken=bad'', Proto = ''HTTP/1.1'', RemoteAddr = ''c:1'', Referer = [], UserAgent = [],
     Body = NewArrayReader (file_bytes file_example)\<rparr>"

definition runtime_example :: "(bytes, unit) runtime" where
  "runtime_example = \<lparr>rt_pgp = server_pgp, rt_hashes = hash_example, rt_grow = (\<lambda>n. n), rt_cap = id, rt_now = 0,
     rt_serverStart = ''s'', rt_AppVersion = ''1'', rt_GitRef = ''g'', rt_redirect = (\<lambda>r w. w),
     rt_fmt_writer = (\<lambda>w. [])\<rparr>"

lemma request_example_simps [simp]:
  "Method request_example = ''POST''" "EscapedPath request_example = ''/signRpmHeader''"
  "RawQuery request_example = ''authToken=bad''" "Body request_example = NewArrayReader (file_bytes file_example)"
  by (simp_all add: request_example_def)

lemma match_sign_rpm: "match_endpoint ''/signRpmHeader'' = Some SignRpmHeader"
  by code_simp

lemma query_bad: "Values_Get (ParseQuery ''authToken=bad'') ''authToken'' = ''bad''"
  by code_simp

theorem signing_needs_token_witness:
  "\<exists>w. fst (mux_ServeHTTP runtime_example server_fs config_example (wrap_response no_response) request_example root_logger) = Done w \<and>
     statusCode w = 403"
  using signing_needs_token [of request_example SignRpmHeader config_example runtime_example server_fs root_logger]
  by (simp add: match_sign_rpm query_bad) (auto simp: config_example_def)

lemma signed_response:
  assumes "Values_Get (ParseQuery (RawQuery r)) ''authToken'' = ApiSigningToken app"
    and "LoadGpgPrivateKey (rt_pgp rt) fs app = Ok key"
    and "file_wf f" and "file_valid (rt_hashes rt) f"
    and "rest (Body r) = file_bytes f @ left" and "end_error (Body r) = EOF"
    and "SignDigest (rt_pgp rt) (rt_now rt) (header_bytes (MainHeader f)) key = Ok (pkt, digest')"
    and "can_replace (signature_tag (rt_pgp rt) key) FORMAT_TYPE_BINARY (of_nat (length pkt)) pkt (SignatureHeader f)"
    and "accepts_key (rt_pgp rt) ring key"
  obtains w out where "\<And>l. handleSignRpmHeader rt fs (wrap_response no_response) r app l = (Done w, l)" and "statusCode w = 200"
    and "sent_status (ResponseWriter w) = Some 200" and "snk_data (sent_body (ResponseWriter w)) = out @ left"
    and "signed_copy (rt_pgp rt) (rt_hashes rt) ring key pkt f out"
proof -
  let ?r = "NewIOReaderWithOffset (Body r)" and ?d = "NewOffsetTrackingWriter (Sink \<lparr>snk_data = [], snk_room = None\<rparr>)"
  have r: "end_error ?r = EOF" "rest ?r = file_bytes f @ left" "has_offset ?r" "rd_offset ?r = 0"
    using assms(5,6) by (simp_all add: NewIOReaderWithOffset_def)
  have d: "unlimited ?d" "contents ?d = []" by (simp_all add: NewOffsetTrackingWriter_def)
  obtain g r' d' p' out where o: "ParseRPM (rt_hashes rt) (rt_cap rt) False ?r = Ok (g, r')"
    "SignRpmAndWrite (rt_pgp rt) (rt_grow rt) (rt_now rt) g ?d r' key = Some (Ok (d', p'))"
    "contents d' = contents ?d @ out @ left" "signed_copy (rt_pgp rt) (rt_hashes rt) ring key pkt f out"
    by (rule parsed_sign_write_copy [OF assms(3,4,7,8,9) d(1) r])
  have "signRpmData rt fs ?r ?d app = Some (Ok d')"
    by (simp add: signRpmData_def ParseRPMFromReader_def o(1,2) assms(2))
  moreover obtain e w where w: "rw_Write (out @ left) (initBinaryUncacheableHttpResponse (wrap_response no_response)) = (e, w)"
    by fastforce
  ultimately have "handleSignRpmHeader rt fs (wrap_response no_response) r app l = (Done w, l)" for l
    using assms(1) o(3) d(2) rw_Write_binary [OF w] by (simp add: handleSignRpmHeader_def authorised_iff logged_write_def)
  with o(4) rw_Write_binary [OF w] show thesis using that by blast
qed


lemma can_replace_example:
  "can_replace (signature_tag server_pgp key_example) FORMAT_TYPE_BINARY
     (of_nat (length (0xc2 # header_bytes main_example))) (0xc2 # header_bytes main_example) sig_example"
proof -
  have "FindIndexEntry sig_example SigTagRSAHeader = None"
    by (simp add: FindIndexEntry_def example_defs SigTag_defs)
  then have "sig_view sig_example (ID SigTagRSAHeader) = None"
    by (simp add: sig_view_find digest_tags_unmanaged)
  moreover have "signature_tag server_pgp key_example = SigTagRSAHeader" "signature_tag pgp_example key_example = SigTagRSAHeader"
    by (simp_all add: signature_tag_def GetKeyType_def server_pgp_def pgp_example_def key_example_def)
  ultimately show ?thesis using can_set_signature_example by (simp add: can_set_def can_replace_def)
qed

lemma server_pgp_example:
  "SignDigest server_pgp 0 d key_example = Ok (0xc2 # d, d @ [4, 0xff])" "accepts_key server_pgp [()] key_example"
  by (simp_all add: SignDigest_def GetKeyType_def accepts_key_def server_pgp_def pgp_example_def key_example_def)

lemma server_key: "LoadGpgPrivateKey server_pgp server_fs config_example = Ok key_example"
  by (simp add: LoadGpgPrivateKey_def server_fs_def os_Open_def LoadPrivateKeyFromFile_def LoadPrivateKey_def server_pgp_def
      pgp_example_def key_example_def config_example_def)

lemma query_good: "Values_Get (ParseQuery ''authToken=t0k'') ''authToken'' = ApiSigningToken config_example"
  by code_simp

lemma file_example_header_bytes: "header_bytes (MainHeader file_example) = header_bytes main_example"
  by (simp add: file_example_def header_bytes_def preamble_bytes_def)


section \<open>Failures\<close>

definition replied :: "nat \<Rightarrow> string \<Rightarrow> responseWriterWrapper \<Rightarrow> bool" where
  "replied code msg w \<longleftrightarrow>
     statusCode w = code \<and> sent_status (ResponseWriter w) = Some code \<and>
     snk_data (sent_body (ResponseWriter w)) = map byte_of_char (msg @ nl)"

lemma http_Error_replied: "replied code msg (http_Error msg code (wrap_response no_response))"
  by (simp add: http_Error_fresh replied_def)

lemma http_Error_header_replied: "replied code msg (http_Error msg code (rw_header k v (wrap_response no_response)))"
  by (simp add: replied_def http_Error_def rw_header_def set_header_def rw_WriteHeader_def net_WriteHeader_def rw_Write_def
      net_Write_def sink_write_def wrap_response_def no_response_def nl_def)

lemma rw_Write_statusCode [simp]: "statusCode (snd (rw_Write b w)) = statusCode w"
  by (auto simp: rw_Write_def Let_def split: prod.splits)

lemma rw_Write_statusCode': "rw_Write b w = (e, w') \<Longrightarrow> statusCode w' = statusCode w"
  using rw_Write_statusCode [of b w] by (simp del: rw_Write_statusCode)

lemma rw_Copy_statusCode [simp]: "statusCode (snd (rw_Copy data w)) = statusCode w"
proof (induction data w rule: rw_Copy.induct)
  case (1 data w)
  show ?case
    using 1 by (subst rw_Copy.simps) (auto split: prod.splits option.splits dest: rw_Write_statusCode')
qed

lemma initBinary_statusCode [simp]: "statusCode (initBinaryUncacheableHttpResponse w) = statusCode w"
  by (simp add: initBinaryUncacheableHttpResponse_def rw_header_def)

lemma rw_header_statusCode [simp]: "statusCode (rw_header k v w) = statusCode w"
  by (simp add: rw_header_def)

lemma logged_write_Done: "logged_write format addr written l = (Done w, l') \<Longrightarrow> w = snd written"
  by (auto simp: logged_write_def split: prod.splits option.splits)

lemmas statusCode_written = logged_write_Done [THEN arg_cong [where f = statusCode]]

text \<open>The statuses and texts of all answers that are not a success.\<close>

definition failure_replies :: "(nat \<times> string) list" where
  "failure_replies =
     [(403, ''missing or invalid authToken''), (400, ''failed to sign RPM data''), (400, ''failed to sign data''),
      (500, ''failed to load GPG public key''), (400, ''no client binary configured''), (400, ''Unsupported architecture''),
      (500, ''failed to open client binary''), (404, ''404 page not found''), (405, ''Method Not Allowed'')]"

definition answered :: "responseWriterWrapper \<Rightarrow> bool" where
  "answered w \<longleftrightarrow> statusCode w = 200 \<or> (\<exists>(code, msg)\<in>set failure_replies. replied code msg w)"

lemma answered_sendHttpError:
  "(code, msg) \<in> set failure_replies \<Longrightarrow> answered (sendHttpError code msg (wrap_response no_response))"
  unfolding answered_def sendHttpError_def using http_Error_replied by blast

lemma handlePublicKey_answered:
  "handlePublicKey rt fs (wrap_response no_response) app l = (Done w, l') \<Longrightarrow> answered w"
  by (auto simp: handlePublicKey_def failure_replies_def split: outcome.splits option.splits prod.splits
      dest!: rw_Write_binary intro: answered_sendHttpError, simp add: answered_def)

lemma signing_answered:
  "handleSignRpmHeader rt fs (wrap_response no_response) r app l = (Done w, l') \<Longrightarrow> answered w"
  "handleSignDetached rt fs (wrap_response no_response) r app l = (Done w, l') \<Longrightarrow> answered w"
  by (auto simp: handleSignRpmHeader_def handleSignDetached_def forbidden_def failure_replies_def
      split: outcome.splits option.splits if_splits intro!: answered_sendHttpError dest!: statusCode_written)
     (simp_all add: answered_def wrap_response_def)

lemma handleClientDownload_answered:
  "handleClientDownload fs (wrap_response no_response) r app l = (Done w, l') \<Longrightarrow> answered w"
  by (auto simp: handleClientDownload_def failure_replies_def Let_def
      split: outcome.splits option.splits if_splits intro!: answered_sendHttpError dest!: statusCode_written)
     (simp_all add: answered_def wrap_response_def initBinaryUncacheableHttpResponse_def rw_header_def)

lemma handleVersionRequest_answered:
  "handleVersionRequest rt (wrap_response no_response) r l = (Done w, l') \<Longrightarrow> answered w"
  by (auto simp: handleVersionRequest_def answered_def wrap_response_def dest!: statusCode_written)

lemma handle_endpoint_answered:
  "handle_endpoint rt fs (wrap_response no_response) r app e l = (Done w, l') \<Longrightarrow> answered w"
  by (cases e) (auto simp: handle_endpoint_def intro: handlePublicKey_answered signing_answered
      handleClientDownload_answered handleVersionRequest_answered)



text \<open>When the connection breaks while the public key is sent, the handler still sends an error: the
  client was answered with status 200, the access log says 400.\<close>

lemma handlePublicKey_broken_connection:
  assumes "os_Open fs (GpgPublicKeyPath app) = Ok key" and "k < length key"
  shows "\<exists>w. fst (handlePublicKey rt fs (wrap_response (no_response\<lparr>sent_body := \<lparr>snk_data = [], snk_room = Some k\<rparr>\<rparr>)) app l) = Done w \<and>
    sent_status (ResponseWriter w) = Some 200 \<and> statusCode w = 400"
  using assms
  by (simp add: handlePublicKey_def LoadGpgPublicKeyAsBytes_def sendHttpError_def http_Error_def
      initBinaryUncacheableHttpResponse_def rw_header_def set_header_def rw_WriteHeader_def net_WriteHeader_def rw_Write_def
      net_Write_def sink_write_def wrap_response_def no_response_def nl_def)

end
