(* ===== verification/Client.thy ===== *)
theory Client
  imports Server
begin

text \<open>
  The command line client (\<^verbatim>\<open>client/client.go\<close>, \<^verbatim>\<open>client/remotesign.go\<close>): its options, signing by a server
  and the whole run of \<^verbatim>\<open>main\<close>. Of the messages printed, those with
  \<^verbatim>\<open>--verbose\<close> about the steps of signing are left out.
\<close>

section \<open>Options\<close>

datatype SigningMode = SIGNING_MODE_NOT_SET | SIGNING_MODE_RPM | SIGNING_MODE_GENERIC

record cli =
  privateKeyFilename :: string
  privateKeyPassphrase :: "bytes option"
  gpgPublicFiles :: "string list"
  signServerUrl :: string
  signServerToken :: string
  overwriteDestinationFile :: bool
  destinationFileName :: string
  verifySignatures :: bool
  printInfo :: bool
  dumpSignatureHeader :: bool
  dumpMainHeader :: bool
  verboseOutput :: bool
  signingMode :: SigningMode
  debugLogging :: bool
  seenOpts :: "string set"
  remainingArgs :: "string list"

definition no_options :: cli where
  "no_options = \<lparr>privateKeyFilename = [], privateKeyPassphrase = None, gpgPublicFiles = [], signServerUrl = [],
     signServerToken = [], overwriteDestinationFile = False, destinationFileName = [], verifySignatures = False,
     printInfo = False, dumpSignatureHeader = False, dumpMainHeader = False, verboseOutput = False,
     signingMode = SIGNING_MODE_NOT_SET, debugLogging = False, seenOpts = NewSet, remainingArgs = []\<rparr>"

definition printHelpAndExit :: "string \<Rightarrow> 'a program" where
  "printHelpAndExit errorMessage = Exits 1 errorMessage"

definition unique_option :: "string \<Rightarrow> cli \<Rightarrow> cli program" where
  "unique_option opt c =
     (if SetContains (seenOpts c) opt then printHelpAndExit (''CLI option '' @ opt @ '' most not appear more than once'')
      else Returns (Ok (c\<lparr>seenOpts := snd (SetAdd (seenOpts c) opt)\<rparr>)))"

definition is_help :: "string \<Rightarrow> bool" where
  "is_help arg \<longleftrightarrow> arg \<in> set [''-help'', ''--help'', ''-h'']"

definition takes_value :: "string \<Rightarrow> bool" where
  "takes_value arg \<longleftrightarrow>
     arg \<in> set [''-o'', ''--output-file'', ''--priv-key'', ''--sign-server'', ''--sign-server-token'', ''--pub-key'', ''--priv-key-password'']"

definition value_option :: "string \<Rightarrow> string \<Rightarrow> cli \<Rightarrow> cli program" where
  "value_option arg v c =
     (if arg = ''-o'' \<or> arg = ''--output-file'' then
        pbind (unique_option arg c) (\<lambda>c.
          if length (destinationFileName c) > 0 then printHelpAndExit ''More than one -o/--output-file option provided''
          else Returns (Ok (c\<lparr>destinationFileName := v\<rparr>)))
      else if arg = ''--priv-key'' then
        pbind (unique_option arg c) (\<lambda>c.
          if length (privateKeyFilename c) > 0 then printHelpAndExit ''More than one --priv-key option provided''
          else Returns (Ok (c\<lparr>privateKeyFilename := v\<rparr>)))
      else if arg = ''--sign-server'' then
        pbind (unique_option arg c) (\<lambda>c. Returns (Ok (c\<lparr>signServerUrl := v\<rparr>)))
      else if arg = ''--sign-server-token'' then
        pbind (unique_option arg c) (\<lambda>c. Returns (Ok (c\<lparr>signServerToken := v\<rparr>)))
      else if arg = ''--pub-key'' then Returns (Ok (c\<lparr>gpgPublicFiles := gpgPublicFiles c @ [v]\<rparr>))
      else Returns (Ok (c\<lparr>privateKeyPassphrase := Some (map byte_of_char v)\<rparr>)))"

definition flag_option :: "string \<Rightarrow> cli \<Rightarrow> cli program" where
  "flag_option arg c =
     (if arg = ''-f'' \<or> arg = ''--overwrite'' then
        pbind (unique_option arg c) (\<lambda>c. Returns (Ok (c\<lparr>overwriteDestinationFile := True\<rparr>)))
      else if arg = ''-i'' \<or> arg = ''--info'' then
        pbind (unique_option arg c) (\<lambda>c. Returns (Ok (c\<lparr>printInfo := True\<rparr>)))
      else if arg = ''-v'' \<or> arg = ''--verbose'' then
        pbind (unique_option arg c) (\<lambda>c. Returns (Ok (c\<lparr>verboseOutput := True\<rparr>)))
      else if arg = ''--dump'' then
        pbind (unique_option arg c) (\<lambda>c. Returns (Ok (c\<lparr>dumpMainHeader := True, dumpSignatureHeader := True\<rparr>)))
      else if arg = ''--dump-sig-hdr'' then
        pbind (unique_option arg c) (\<lambda>c. Returns (Ok (c\<lparr>dumpSignatureHeader := True\<rparr>)))
      else if arg = ''--dump-main-hdr'' then
        pbind (unique_option arg c) (\<lambda>c. Returns (Ok (c\<lparr>dumpMainHeader := True\<rparr>)))
      else if arg = ''--verify'' then
        pbind (unique_option arg c) (\<lambda>c. Returns (Ok (c\<lparr>verifySignatures := True\<rparr>)))
      else if arg = ''-s'' \<or> arg = ''--sign'' then
        pbind (unique_option arg c) (\<lambda>c. Returns (Ok (c\<lparr>signingMode := SIGNING_MODE_RPM\<rparr>)))
      else if arg = ''--sign-generic'' then
        pbind (unique_option arg c) (\<lambda>c. Returns (Ok (c\<lparr>signingMode := SIGNING_MODE_GENERIC\<rparr>)))
      else if arg = ''-d'' \<or> arg = ''--debug'' then
        pbind (unique_option arg c) (\<lambda>c. Returns (Ok (c\<lparr>debugLogging := True\<rparr>)))
      else Returns (Ok (c\<lparr>remainingArgs := remainingArgs c @ [arg]\<rparr>)))"

fun parse_args :: "string \<Rightarrow> string list \<Rightarrow> cli \<Rightarrow> cli program" where
  "parse_args ver [] c = Returns (Ok c)"
| "parse_args ver (arg # args) c =
     (if is_help arg then printHelpAndExit []
      else if arg = ''--version'' then Exits 0 ver
      else if takes_value arg then
        (case args of
           [] \<Rightarrow> printHelpAndExit (arg @ '' option requires an argument'')
         | v # args' \<Rightarrow> pbind (value_option arg v c) (parse_args ver args'))
      else pbind (flag_option arg c) (parse_args ver args))"

definition sanity_checks :: "cli \<Rightarrow> string program" where
  "sanity_checks c =
     (if length (remainingArgs c) = 0 then printHelpAndExit ''No RPM file name given''
      else if length (remainingArgs c) > 1 then
        printHelpAndExit (''Expected exactly one RPM file name but got '' @ join_strings (remainingArgs c) '', '')
      else if signingMode c = SIGNING_MODE_GENERIC \<and> length (privateKeyFilename c) = 0 then
        printHelpAndExit ''--sign-generic option requires --priv-key''
      else if signingMode c = SIGNING_MODE_GENERIC \<and> length (destinationFileName c) = 0 then
        printHelpAndExit ''--sign-generic option requires -o/--output-file''
      else if SetContains (seenOpts c) ''--sign-server-token'' \<and> length (signServerUrl c) = 0 then
        printHelpAndExit ''--sign-server-token requires --sign-server''
      else if length (signServerUrl c) > 0 \<and> signingMode c = SIGNING_MODE_NOT_SET then
        printHelpAndExit ''--sign-server can only be used together with -s/--sign or --sign-generic''
      else if length (signServerUrl c) > 0 \<and> (length (privateKeyFilename c) > 0 \<or> privateKeyPassphrase c \<noteq> None) then
        printHelpAndExit ''--sign-server is mutually exclusive with --priv-key/--priv-key-password''
      else Returns (Ok (hd (remainingArgs c))))"

section \<open>Signing by a server\<close>

text \<open>A parsed URL. \<^verbatim>\<open>url.Parse\<close> is an argument of the definitions; the URL is handed to the HTTP client as
  it is, without printing and parsing it again.\<close>

record URL =
  url_Scheme :: string
  url_Host :: string
  url_Path :: string
  url_RawQuery :: string

definition TrimSuffix :: "string \<Rightarrow> string \<Rightarrow> string" where
  "TrimSuffix s suffix =
     (if length suffix \<le> length s \<and> drop (length s - length suffix) s = suffix then take (length s - length suffix) s else s)"

definition createSigningUrl :: "(string \<Rightarrow> URL outcome) \<Rightarrow> string \<Rightarrow> string \<Rightarrow> URL outcome" where
  "createSigningUrl url_Parse serverBaseUrl authToken =
     (case url_Parse serverBaseUrl of
        Err e \<Rightarrow> Err (Errorf (''not a valid sign server URL '' @ quoted serverBaseUrl @ '': '' @ error_text e))
      | Panic m \<Rightarrow> Panic m
      | Ok parsed \<Rightarrow>
          (if length (url_Host parsed) = 0 then
             Err (Errorf (''not a valid sign server URL '' @ quoted serverBaseUrl @ '': missing host''))
           else
             Ok (parsed\<lparr>url_Path := TrimSuffix (url_Path parsed) ''/'' @ SignRpmHeaderEndpoint,
                        url_RawQuery := encode_value ''authToken'' authToken\<rparr>)))"

definition maxErrorBodyLength :: nat where
  "maxErrorBodyLength = 512"

type_synonym http_response = "nat \<times> string \<times> rdr"

definition copy_both :: "wtr \<Rightarrow> rdr \<Rightarrow> rdr \<Rightarrow> wtr outcome" where
  "copy_both w first second =
     obind (io_Copy w first) (\<lambda>(w1, r1). obind (io_Copy w1 second) (\<lambda>(w2, r2). Ok w2))"

definition signRpmRemotely ::
  "(string \<Rightarrow> URL outcome) \<Rightarrow> (URL \<Rightarrow> bytes \<Rightarrow> http_response outcome) \<Rightarrow> os_fs \<Rightarrow> string \<Rightarrow> string \<Rightarrow> bytes \<Rightarrow> rdr \<Rightarrow>
   string \<Rightarrow> bool \<Rightarrow> unit outcome \<times> os_fs" where
  "signRpmRemotely url_Parse http_Post fs serverBaseUrl authToken rpmHeader payload' dest overwrite =
     (case createSigningUrl url_Parse serverBaseUrl authToken of
        Err e \<Rightarrow> (Err e, fs)
      | Panic m \<Rightarrow> (Panic m, fs)
      | Ok endpointUrl \<Rightarrow>
          (case http_Post endpointUrl rpmHeader of
             Err e \<Rightarrow> (Err (Errorf (''POST to sign server failed: '' @ error_text e)), fs)
           | Panic m \<Rightarrow> (Panic m, fs)
           | Ok (status, statusLine, body) \<Rightarrow>
               (if status \<noteq> 200 then
                  (Err (Errorf (''sign server responded with '' @ statusLine @ '': '' @
                     TrimSpace (map char_of_byte (take maxErrorBodyLength (rest body))))), fs)
                else
                  (case CreateDestinationFile fs dest overwrite of
                     (Err e, fs1) \<Rightarrow> (Err e, fs1)
                   | (Panic m, fs1) \<Rightarrow> (Panic m, fs1)
                   | (Ok u, fs1) \<Rightarrow>
                       (case copy_both (destination_writer fs1) body payload' of
                          Err e \<Rightarrow> (Err (Errorf (''failed to write '' @ dest @ '': '' @ error_text e)), snd (os_Remove fs1 dest))
                        | Panic m \<Rightarrow> (Panic m, fs1)
                        | Ok w \<Rightarrow>
                            (let fs2 = set_contents fs1 dest (contents w) in (file_op OpClose fs2 dest, fs2)))))))"

section \<open>The run of the client\<close>

text \<open>What a run uses of its surroundings, and how it can end. \<^verbatim>\<open>env_tmp\<close> is the name \<^verbatim>\<open>os.CreateTemp\<close> chooses.\<close>

record ('sg, 'ent) client_env =
  env_pgp :: "('sg, 'ent) pgp"
  env_hashes :: hashes
  env_grow :: "nat \<Rightarrow> nat"
  env_cap :: "nat \<Rightarrow> nat"
  env_now :: nat
  env_version :: string
  env_token :: string
  env_tmp :: string
  env_Get :: "string \<Rightarrow> http_response outcome"
  env_Post :: "URL \<Rightarrow> bytes \<Rightarrow> http_response outcome"
  env_Parse :: "string \<Rightarrow> URL outcome"

datatype run_result = Finished | Exit nat string | Panicked string | Diverges

record client_state =
  cs_fs :: os_fs
  cs_log :: LogImpl

definition with_outcome :: "'a outcome \<Rightarrow> (goerror \<Rightarrow> string) \<Rightarrow> client_state \<Rightarrow> ('a \<Rightarrow> run_result \<times> client_state) \<Rightarrow> run_result \<times> client_state" where
  "with_outcome r msg st next =
     (case r of Ok x \<Rightarrow> next x | Err e \<Rightarrow> (Exit 1 (msg e), st) | Panic m \<Rightarrow> (Panicked m, st))"

definition verbosely :: "cli \<Rightarrow> string \<Rightarrow> string list \<Rightarrow> client_state \<Rightarrow> client_state" where
  "verbosely c format args st =
     (if verboseOutput c then st\<lparr>cs_log := log_Infof format args (cs_log st)\<rparr> else st)"

definition sign_generic ::
  "('sg, 'ent) client_env \<Rightarrow> cli \<Rightarrow> rdr \<Rightarrow> client_state \<Rightarrow> run_result \<times> client_state" where
  "sign_generic env c r st =
     with_outcome (LoadPrivateKeyFromFile (env_pgp env) (cs_fs st) (privateKeyFilename c)
                     (case privateKeyPassphrase c of None \<Rightarrow> [] | Some p \<Rightarrow> p))
       (\<lambda>e. ''Failed to load private key from '' @ privateKeyFilename c @ '': '' @ error_text e) st (\<lambda>privateKey.
     with_outcome (SignGeneric (env_pgp env) (env_now env) r privateKey)
       (\<lambda>e. ''Signing operation failed: '' @ error_text e) st (\<lambda>detachedSignature.
       (let (res, fs') = WriteFileAtomically (cs_fs st) (env_tmp env) (destinationFileName c) detachedSignature 420
                           (overwriteDestinationFile c);
            st' = st\<lparr>cs_fs := fs'\<rparr>
        in with_outcome res (\<lambda>e. ''Failed to write detached GPG signature to '' @ destinationFileName c @ '': '' @ error_text e) st'
             (\<lambda>u. (Exit 0 [], verbosely c ''Wrote detached GPG signature to %s'' [destinationFileName c] st')))))"

definition stop_capture :: "rdr \<Rightarrow> rdr" where
  "stop_capture r = (case r of IOReaderWithOffset c n \<Rightarrow> IOReaderWithOffset (StopCapturing c) n | _ \<Rightarrow> r)"

text \<open>The names of a file's signature versions; the order in which Go visits a map is not specified, here it
  is the order of the versions.\<close>

definition version_names :: "SignatureVersion set \<Rightarrow> string" where
  "version_names vs = join_strings (map sv_Label (filter (\<lambda>v. SetContains vs v) AllSignatureVersions)) '', ''"

definition print_info :: "cli \<Rightarrow> RpmFile \<Rightarrow> LogImpl \<Rightarrow> LogImpl outcome" where
  "print_info c f l =
     (if printInfo c then
        obind (GetRpmVersion f) (\<lambda>rpmVersion.
        obind (GetFileFormatVersion f) (\<lambda>fileFormat.
          let sigVersion = (if IsSigned f then version_names (GetSignatureVersions f) else ''<unsigned>'')
          in Ok (log_Infof ''RPM version: %v | RPM file format version: %v | Signature version(s): %v''
                   [rpmVersion, RpmFileFormatVersion_String fileFormat, sigVersion] l)))
      else Ok l)"

definition dump_headers :: "cli \<Rightarrow> RpmFile \<Rightarrow> LogImpl \<Rightarrow> LogImpl outcome" where
  "dump_headers c f l =
     obind (if dumpSignatureHeader c then
              obind (DumpIndexEntries (SignatureHeader f) 25 True) (\<lambda>s.
                Ok (log_Info s (log_Info ''--- Signature entries ----'' l)))
            else Ok l) (\<lambda>l1.
     if dumpMainHeader c then
       obind (DumpIndexEntries (MainHeader f) 25 True) (\<lambda>s.
         Ok (log_Info s (log_Info ''--- Main Header entries ----'' l1)))
     else Ok l1)"

definition verify_version ::
  "('sg, 'ent) pgp \<Rightarrow> hashes \<Rightarrow> 'ent SignatureVerifierImpl \<Rightarrow> SignatureVersion \<Rightarrow> unit outcome" where
  "verify_version L H v sv =
     (if sv = SIGNATURE_VERSION_V3 then VerifyV3Signature L H v
      else if sv = SIGNATURE_VERSION_V4 then VerifyV4Signature L v
      else VerifyV6Signature v)"

definition report_version ::
  "('sg, 'ent) pgp \<Rightarrow> hashes \<Rightarrow> bool \<Rightarrow> RpmFile \<Rightarrow> 'ent SignatureVerifierImpl \<Rightarrow> LogImpl \<Rightarrow> SignatureVersion \<Rightarrow> LogImpl outcome" where
  "report_version L H verbose f v l sv =
     (if SetContains (GetSignatureVersions f) sv then
        (case verify_version L H v sv of
           Err e \<Rightarrow> Ok (log_Infof ''RPM file signature %v: FAILED (%s)'' [sv_Label sv, error_text e] l)
         | Panic m \<Rightarrow> Panic m
         | Ok u \<Rightarrow> Ok (if verbose then log_Infof ''RPM file signature %v: ok'' [sv_Label sv] l else l))
      else Ok (if verbose then log_Infof ''RPM file signature %v: <not present>'' [sv_Label sv] l else l))"

definition verify_file ::
  "('sg, 'ent) client_env \<Rightarrow> cli \<Rightarrow> string \<Rightarrow> RpmFile \<Rightarrow> client_state \<Rightarrow> (client_state \<Rightarrow> run_result \<times> client_state) \<Rightarrow> run_result \<times> client_state" where
  "verify_file env c rpmFilePath f st0 next =
     (if gpgPublicFiles c = [] then
        (Exit 1 ''Cannot verify signatures without GPG public key, use --pub-key <file>'', st0)
      else
        let st = verbosely c ''Verifying against public key %s'' [''['' @ join_strings (gpgPublicFiles c) '' '' @ '']''] st0
        in with_outcome (LoadPublicKeys (env_pgp env) (os_Open (cs_fs st)) (gpgPublicFiles c))
          (\<lambda>e. ''Error loading GPG public keys, error: '' @ error_text e) st (\<lambda>gpgPublicKeys.
        with_outcome (if SetContains (GetSignatureVersions f) SIGNATURE_VERSION_V3 then
                        obind (OpenFileOrUrl (cs_fs st) (env_Get env) rpmFilePath) (\<lambda>(r, data).
                        obind (SeekRelativeToStart data (sint (PayloadStartOffset f)) r) (\<lambda>r'. Ok (Some r')))
                      else Ok None)
          (\<lambda>e. ''Failed to seek() RPM file '' @ rpmFilePath @ ''. Error: '' @ error_text e) st (\<lambda>payloadReader'.
        with_outcome (NewSignatureVerifier f payloadReader' gpgPublicKeys) error_text st (\<lambda>verifier.
        with_outcome (ofold (report_version (env_pgp env) (env_hashes env) (verboseOutput c) f verifier) (cs_log st) AllSignatureVersions)
          error_text st (\<lambda>l. next (st\<lparr>cs_log := l\<rparr>))))))"

definition sign_file ::
  "('sg, 'ent) client_env \<Rightarrow> cli \<Rightarrow> RpmFile \<Rightarrow> bool \<Rightarrow> rdr \<Rightarrow> client_state \<Rightarrow> run_result \<times> client_state" where
  "sign_file env c f capturing r st =
     (let done = (\<lambda>st. (Finished, st\<lparr>cs_log := log_Infof ''Wrote signed file to %s'' [destinationFileName c] (cs_log st)\<rparr>));
          failed = (\<lambda>e. ''Failed to sign RPM file '' @ destinationFileName c @ ''. Error: '' @ error_text e)
      in if length (destinationFileName c) = 0 then (Exit 1 ''Cannot sign RPM without -o/--output-file'', st)
         else if capturing then
           (let st1 = verbosely c ''Sending %d bytes of RPM header to sign server %s''
                  [fmt_d (length (CapturedBytes (GetDelegate r))), signServerUrl c] st;
                token = (if IsEmptyString (signServerToken c) then env_token env else signServerToken c);
                st2 = (if IsEmptyString (signServerToken c) \<and> IsNotEmptyString token then
                         verbosely c ''Using non-blank auth token from RPM_SIGNING_AUTH_TOKEN environment variable'' [] st1 else st1);
                (res, fs') = signRpmRemotely (env_Parse env) (env_Post env) (cs_fs st) (signServerUrl c) token
                  (CapturedBytes (GetDelegate r)) r (destinationFileName c) (overwriteDestinationFile c);
                st' = st2\<lparr>cs_fs := fs'\<rparr>
            in with_outcome res failed st' (\<lambda>u. done st'))
         else if length (privateKeyFilename c) = 0 then (Exit 1 ''Cannot --sign without --priv-key'', st)
         else
           with_outcome (LoadPrivateKeyFromFile (env_pgp env) (cs_fs st) (privateKeyFilename c)
                           (case privateKeyPassphrase c of None \<Rightarrow> [] | Some p \<Rightarrow> p))
             (\<lambda>e. ''Failed to load private key from '' @ privateKeyFilename c @ '': '' @ error_text e) st (\<lambda>privateKey.
             case SignRpmAndWriteToFile (env_pgp env) (env_grow env) (env_now env) (cs_fs st) f r (destinationFileName c)
                    (overwriteDestinationFile c) privateKey of
               None \<Rightarrow> (Diverges, st)
             | Some (res, fs') \<Rightarrow>
                 (let st' = st\<lparr>cs_fs := fs'\<rparr> in with_outcome res failed st' (\<lambda>u. done st'))))"

definition client_run ::
  "('sg, 'ent) client_env \<Rightarrow> cli \<Rightarrow> string \<Rightarrow> client_state \<Rightarrow> run_result \<times> client_state" where
  "client_run env c rpmFilePath st =
     with_outcome (OpenFileOrUrl (cs_fs st) (env_Get env) rpmFilePath)
       (\<lambda>e. ''Failed reading file '' @ rpmFilePath @ ''. Error: '' @ error_text e) st (\<lambda>(r, data).
     if signingMode c = SIGNING_MODE_GENERIC then sign_generic env c r st
     else
       (let capturing = (length (signServerUrl c) > 0 \<and> signingMode c = SIGNING_MODE_RPM);
            rpmFileReader = NewIOReaderWithOffset (if capturing then newHeaderCapturingReader r else r)
        in with_outcome (ParseRPMFromReader (env_hashes env) (env_cap env) rpmFileReader False)
             (\<lambda>e. ''Error during RPM file reading, error: '' @ error_text e) st (\<lambda>(f, r1).
             let r2 = (if capturing then stop_capture r1 else r1)
             in with_outcome (obind (print_info c f (cs_log st)) (dump_headers c f)) error_text st (\<lambda>l.
                  let st1 = st\<lparr>cs_log := l\<rparr>;
                      finish = (\<lambda>st. if signingMode c = SIGNING_MODE_RPM then sign_file env c f capturing r2 st else (Finished, st))
                  in if verifySignatures c \<and> \<not> SetIsEmpty (GetSignatureVersions f) then
                       verify_file env c rpmFilePath f st1 finish
                     else if SetIsEmpty (GetSignatureVersions f) then
                       finish (st1\<lparr>cs_log := log_Info ''RPM file is unsigned, no signatures to verify'' (cs_log st1)\<rparr>)
                     else finish st1))))"

definition client_main ::
  "('sg, 'ent) client_env \<Rightarrow> string list \<Rightarrow> os_fs \<Rightarrow> run_result \<times> client_state" where
  "client_main env args fs =
     (let st = \<lparr>cs_fs = fs, cs_log = root_logger\<rparr>
      in case parse_args (env_version env) args no_options of
           Exits n m \<Rightarrow> (Exit n m, st)
         | Returns (Err e) \<Rightarrow> (Exit 1 (error_text e), st)
         | Returns (Panic m) \<Rightarrow> (Panicked m, st)
         | Returns (Ok c) \<Rightarrow>
             (let st1 = (if debugLogging c then st\<lparr>cs_log := SetCurrentLogLevel LOG_LEVEL_DEBUG (cs_log st)\<rparr> else st)
              in case sanity_checks c of
                   Exits n m \<Rightarrow> (Exit n m, st1)
                 | Returns (Err e) \<Rightarrow> (Exit 1 (error_text e), st1)
                 | Returns (Panic m) \<Rightarrow> (Panicked m, st1)
                 | Returns (Ok rpmFilePath) \<Rightarrow>
                     client_run env c rpmFilePath (verbosely c (''Reading input file %s'' @ nl) [rpmFilePath] st1)))"

lemma verbosely_simps [simp]:
  "cs_fs (verbosely c format args st) = cs_fs st"
  "(verbosely c format args st)\<lparr>cs_log := l\<rparr> = st\<lparr>cs_log := l\<rparr>"
  by (simp_all add: verbosely_def)

section \<open>Accepted options\<close>

definition options_ok :: "cli \<Rightarrow> bool" where
  "options_ok c \<longleftrightarrow> length (remainingArgs c) = 1 \<and>
     (signingMode c = SIGNING_MODE_GENERIC \<longrightarrow>
        privateKeyFilename c \<noteq> [] \<and> destinationFileName c \<noteq> [] \<and> signServerUrl c = []) \<and>
     (''--sign-server-token'' \<in> seenOpts c \<longrightarrow> signServerUrl c \<noteq> []) \<and>
     (signServerUrl c \<noteq> [] \<longrightarrow>
        signingMode c = SIGNING_MODE_RPM \<and> privateKeyFilename c = [] \<and> privateKeyPassphrase c = None)"


section \<open>Which files a run changes\<close>

definition only_changes :: "string set \<Rightarrow> os_fs \<Rightarrow> os_fs \<Rightarrow> bool" where
  "only_changes ps fs fs' \<longleftrightarrow> (\<forall>p. p \<notin> ps \<longrightarrow> fs_file fs' p = fs_file fs p)"

lemma only_changes_refl [simp]: "only_changes ps fs fs"
  by (simp add: only_changes_def)

lemma only_changes_trans: "only_changes ps fs fs1 \<Longrightarrow> only_changes ps fs1 fs2 \<Longrightarrow> only_changes ps fs fs2"
  by (simp add: only_changes_def)

lemma os_Remove_only: "p \<in> ps \<Longrightarrow> only_changes ps fs (snd (os_Remove fs p))"
  by (auto simp: only_changes_def os_Remove_def split: option.splits)

lemma set_contents_only: "p \<in> ps \<Longrightarrow> only_changes ps fs (set_contents fs p d)"
  by (auto simp: only_changes_def set_contents_def)

lemma os_CreateTemp_only: "os_CreateTemp fs p = (r, fs') \<Longrightarrow> p \<in> ps \<Longrightarrow> only_changes ps fs fs'"
  by (auto simp: only_changes_def os_CreateTemp_def split: option.splits)

lemma file_Write_only: "file_Write fs p d = (r, fs') \<Longrightarrow> p \<in> ps \<Longrightarrow> only_changes ps fs fs'"
  using file_Write_other [of _ p fs d] by (auto simp: only_changes_def) metis

lemma file_Chmod_only: "file_Chmod fs p m = (r, fs') \<Longrightarrow> p \<in> ps \<Longrightarrow> only_changes ps fs fs'"
  by (auto simp: only_changes_def file_Chmod_def split: option.splits)

lemma os_Rename_only: "os_Rename fs p q = (r, fs') \<Longrightarrow> p \<in> ps \<Longrightarrow> q \<in> ps \<Longrightarrow> only_changes ps fs fs'"
  by (auto simp: only_changes_def os_Rename_def split: option.splits if_splits)

lemma CreateDestinationFile_only:
  assumes "CreateDestinationFile fs p ow = (r, fs')" and "p \<in> ps"
  shows "only_changes ps fs fs'"
proof -
  have "fs' = fs \<or> fs' = snd (os_Create fs p)"
    using assms(1) by (auto simp: CreateDestinationFile_def split: stat_result.splits if_splits prod.splits outcome.splits)
  then show ?thesis using os_Create_other [of _ p fs] assms(2) unfolding only_changes_def by metis
qed

lemma with_cleanup_only:
  assumes "only_changes ps fs fs1" and "\<And>fs2. only_changes ps fs fs2 \<Longrightarrow> only_changes ps fs (snd (next fs2))" and "tmp \<in> ps"
  shows "only_changes ps fs (snd (with_cleanup tmp msg (r, fs1) next))"
  using assms os_Remove_only [OF assms(3), of fs1]
  by (cases r) (auto simp: with_cleanup_def intro: only_changes_trans)

lemma WriteFileAtomically_only:
  "only_changes {tmp, name} fs (snd (WriteFileAtomically fs tmp name data perm ow))"
proof -
  let ?ok = "only_changes {tmp, name} fs"
  have step: "?ok (snd (with_cleanup tmp msg (op fs1) k))"
    if "?ok fs1" "\<And>g. only_changes {tmp, name} g (snd (op g))" "\<And>fs2. ?ok fs2 \<Longrightarrow> ?ok (snd (k fs2))" for msg op fs1 k
    using with_cleanup_only [of "{tmp, name}" fs "snd (op fs1)" k tmp msg "fst (op fs1)"] that
    by (auto intro: only_changes_trans)
  have ops: "only_changes {tmp, name} g (snd (file_Write g tmp data))" "only_changes {tmp, name} g (snd (file_Chmod g tmp perm))"
    "only_changes {tmp, name} g (snd (os_Rename g tmp name))" for g
    using file_Write_only [of g tmp data] file_Chmod_only [of g tmp perm] os_Rename_only [of g tmp name]
    by (metis insertI1 insertI2 prod.collapse)+
  have "?ok fs1" if "os_CreateTemp fs tmp = (r, fs1)" for r fs1 using os_CreateTemp_only [OF that] by simp
  then show ?thesis
    unfolding WriteFileAtomically_def
    by (auto split: outcome.splits prod.splits
        intro!: step [where op = "\<lambda>g. file_Write g tmp data"] step [where op = "\<lambda>g. file_Chmod g tmp perm"]
          step [where op = "\<lambda>g. (file_op OpSync g tmp, g)"] step [where op = "\<lambda>g. (file_op OpClose g tmp, g)"]
          step [where op = "\<lambda>g. os_Rename g tmp name"] ops)
qed

lemma signRpmRemotely_only:
  "only_changes {dest} fs (snd (signRpmRemotely P D fs url token hdr p dest ow))"
proof -
  have 1: "only_changes {dest} fs fs1" if "CreateDestinationFile fs dest ow = (r, fs1)" for r fs1
    using CreateDestinationFile_only [OF that] by simp
  show ?thesis
    unfolding signRpmRemotely_def
    by (auto simp: Let_def 1 split: outcome.splits prod.splits
        intro: only_changes_trans [OF 1 os_Remove_only] only_changes_trans [OF 1 set_contents_only])
qed

lemma SignRpmAndWriteToFile_only:
  assumes "SignRpmAndWriteToFile L grow now fs f p dest ow key = Some (r, fs')"
  shows "only_changes {dest} fs fs'"
proof -
  have 1: "only_changes {dest} fs fs1" if "CreateDestinationFile fs dest ow = (r, fs1)" for r fs1
    using CreateDestinationFile_only [OF that] by simp
  show ?thesis using assms unfolding SignRpmAndWriteToFile_def
    by (auto simp: Let_def 1 split: outcome.splits prod.splits option.splits
        intro: only_changes_trans [OF 1 os_Remove_only] only_changes_trans [OF 1 set_contents_only])
qed

definition outputs :: "('sg, 'ent) client_env \<Rightarrow> cli \<Rightarrow> string set" where
  "outputs env c =
     (case signingMode c of
        SIGNING_MODE_NOT_SET \<Rightarrow> {}
      | SIGNING_MODE_RPM \<Rightarrow> {destinationFileName c}
      | SIGNING_MODE_GENERIC \<Rightarrow> {env_tmp env, destinationFileName c})"

lemma with_outcome_only:
  assumes "only_changes ps fs (cs_fs st)" and "\<And>x. r = Ok x \<Longrightarrow> only_changes ps fs (cs_fs (snd (k x)))"
  shows "only_changes ps fs (cs_fs (snd (with_outcome r msg st k)))"
  using assms by (cases r) (auto simp: with_outcome_def)

lemma WriteFileAtomically_onlyD:
  "WriteFileAtomically fs tmp name data perm ow = (r, fs') \<Longrightarrow> only_changes {tmp, name} fs fs'"
  using WriteFileAtomically_only [of tmp name fs data perm ow] by simp

lemma signRpmRemotely_onlyD:
  "signRpmRemotely P D fs url token hdr p dest ow = (r, fs') \<Longrightarrow> only_changes {dest} fs fs'"
  using signRpmRemotely_only [of dest fs P D url token hdr p ow] by simp

lemma sign_generic_only:
  "signingMode c = SIGNING_MODE_GENERIC \<Longrightarrow> only_changes (outputs env c) (cs_fs st) (cs_fs (snd (sign_generic env c r st)))"
  by (auto simp: sign_generic_def outputs_def Let_def split: prod.splits
      intro!: with_outcome_only) (erule WriteFileAtomically_onlyD)+

lemma sign_file_only:
  "signingMode c = SIGNING_MODE_RPM \<Longrightarrow> only_changes (outputs env c) (cs_fs st) (cs_fs (snd (sign_file env c f cap r st)))"
  by (auto simp: sign_file_def outputs_def Let_def split: prod.splits option.splits
      intro!: with_outcome_only) (erule SignRpmAndWriteToFile_only signRpmRemotely_onlyD)+

lemma verify_file_only:
  assumes "\<And>l. only_changes ps (cs_fs st) (cs_fs (snd (k (st\<lparr>cs_log := l\<rparr>))))"
  shows "only_changes ps (cs_fs st) (cs_fs (snd (verify_file env c path f st k)))"
  unfolding verify_file_def by (auto simp: Let_def intro!: with_outcome_only assms)

lemma client_run_only: "only_changes (outputs env c) (cs_fs st) (cs_fs (snd (client_run env c path st)))"
proof -
  define fin where "fin f cap r = (\<lambda>st. if signingMode c = SIGNING_MODE_RPM then sign_file env c f cap r st else (Finished, st))" for f cap r
  have fin: "only_changes (outputs env c) (cs_fs st) (cs_fs (snd (fin f cap r (st\<lparr>cs_log := l\<rparr>))))" for f cap r l
    using sign_file_only [of c env "st\<lparr>cs_log := l\<rparr>" f cap r] by (simp add: fin_def)
  have ver: "only_changes (outputs env c) (cs_fs st) (cs_fs (snd (verify_file env c path f (st\<lparr>cs_log := l\<rparr>) (fin f cap r))))" for f cap r l
    using verify_file_only [of "outputs env c" "st\<lparr>cs_log := l\<rparr>" "fin f cap r" env c path f] fin by simp
  show ?thesis
    unfolding client_run_def fin_def [symmetric] Let_def
    by (auto intro!: with_outcome_only sign_generic_only fin ver split: prod.splits)
qed

text \<open>C16: a run changes no file but its outputs. Without a signing option it changes none at all; signing an
  RPM file touches the output file, signing data also the temporary file next to it. This holds for every
  command line, every input and every failure on the way.\<close>

theorem client_changes_only_outputs:
  "case parse_args (env_version env) args no_options of
     Returns (Ok c) \<Rightarrow> only_changes (outputs env c) fs (cs_fs (snd (client_main env args fs)))
   | _ \<Rightarrow> cs_fs (snd (client_main env args fs)) = fs"
proof (cases "parse_args (env_version env) args no_options")
  case (Returns x)
  show ?thesis
  proof (cases x)
    case (Ok c)
    have "only_changes (outputs env c) fs (cs_fs (snd (client_run env c path st)))" if "cs_fs st = fs" for path st
      using client_run_only [of env c st path] that by simp
    then show ?thesis
      by (auto simp: client_main_def Returns Ok Let_def split: program.splits outcome.splits)
  qed (simp_all add: client_main_def Returns)
qed (simp add: client_main_def)

section \<open>Signing by the server\<close>

text \<open>The server as the client reaches it: the URL becomes the request line, the response body is a stream.\<close>

definition posted :: "URL \<Rightarrow> bytes \<Rightarrow> Request" where
  "posted url body =
     \<lparr>Method = ''POST'', Scheme = [], Host = url_Host url, URL_Path = url_Path url, EscapedPath = url_Path url, ForceQuery = False,
      RawQuery = url_RawQuery url, Proto = ''HTTP/1.1'', RemoteAddr = [], Referer = [], UserAgent = [],
      Body = Source \<lparr>src_data = body, src_schedule = [], src_end = EOF\<rparr>\<rparr>"

definition server_post :: "('sg, 'ent) runtime \<Rightarrow> os_fs \<Rightarrow> AppConfig \<Rightarrow> URL \<Rightarrow> bytes \<Rightarrow> http_response outcome" where
  "server_post rt fs app url body =
     (case fst (mux_ServeHTTP rt fs app (wrap_response no_response) (posted url body) root_logger) of
        Done w \<Rightarrow>
          Ok (case sent_status (ResponseWriter w) of None \<Rightarrow> 200 | Some c \<Rightarrow> c, [],
              Source \<lparr>src_data = snk_data (sent_body (ResponseWriter w)), src_schedule = [], src_end = EOF\<rparr>)
      | Crashed m \<Rightarrow> Err EOF
      | Hangs \<Rightarrow> Err (Errorf ''timeout''))"

lemma createSigningUrl_ok:
  assumes "url_Parse url = Ok u" and "url_Host u \<noteq> []" and "url_Path u \<in> {[], ''/''}"
  obtains e where "createSigningUrl url_Parse url token = Ok e" and "url_Path e = SignRpmHeaderEndpoint"
    and "Values_Get (ParseQuery (url_RawQuery e)) ''authToken'' = token"
  using assms query_round_trip [of "''authToken''" token] that
  by (auto simp: createSigningUrl_def TrimSuffix_def)

lemma copy_both_ok:
  assumes "unlimited w" and "end_error a = EOF" and "end_error b = EOF"
  obtains w' where "copy_both w a b = Ok w'" and "contents w' = contents w @ rest a @ rest b"
proof -
  obtain w1 a' where 1: "io_Copy w a = Ok (w1, a')" "wrote w (rest a) w1" using io_Copy_ok [OF assms(2,1)] by blast
  then have "unlimited w1" using wrote_unlimited assms(1) by blast
  then obtain w2 b' where 2: "io_Copy w1 b = Ok (w2, b')" "wrote w1 (rest b) w2" using io_Copy_ok [OF assms(3)] by blast
  with 1 that show thesis by (simp add: copy_both_def wrote_contents)
qed

lemma captured_header:
  assumes "feeds (NewIOReaderWithOffset (newHeaderCapturingReader r)) bs r'"
  shows "CapturedBytes (GetDelegate (stop_capture r')) = bs" and "rest (stop_capture r') = rest r'"
    and "end_error (stop_capture r') = end_error r'"
proof -
  obtain c n where r': "r' = IOReaderWithOffset c n" and c: "feeds (headerCapturingReader r [] True) bs c"
    using assms unfolding NewIOReaderWithOffset_def newHeaderCapturingReader_def by (cases r') auto
  from c obtain q where "c = headerCapturingReader q bs True" by (cases c) auto
  with r' show "CapturedBytes (GetDelegate (stop_capture r')) = bs" "rest (stop_capture r') = rest r'"
    "end_error (stop_capture r') = end_error r'" by (simp_all add: stop_capture_def)
qed

text \<open>The client parses the file while it captures the header, posts the captured bytes with the server's token
  and appends the payload to the answer.\<close>

lemma signRpmRemotely_copy:
  assumes url: "url_Parse url = Ok u" "url_Host u \<noteq> []" "url_Path u \<in> {[], ''/''}"
    and key: "LoadGpgPrivateKey (rt_pgp rt) server_files app = Ok key" "accepts_key (rt_pgp rt) ring key"
    and f: "file_wf f" "file_valid (rt_hashes rt) f"
    and r: "rest r = file_bytes f @ left" "end_error r = EOF"
    and sgn: "SignDigest (rt_pgp rt) (rt_now rt) (header_bytes (MainHeader f)) key = Ok (pkt, digest')"
    and room: "can_replace (signature_tag (rt_pgp rt) key) FORMAT_TYPE_BINARY (of_nat (length pkt)) pkt (SignatureHeader f)"
    and dest: "CreateDestinationFile fs dest ow = (Ok (), fs1)" "fs_room fs = None" "fs_fault fs OpClose dest = None"
  shows "\<exists>g r' out fs' m.
    ParseRPM (rt_hashes rt) cap False (NewIOReaderWithOffset (newHeaderCapturingReader r)) = Ok (g, r') \<and>
    signRpmRemotely url_Parse (server_post rt server_files app) fs url (ApiSigningToken app)
      (CapturedBytes (GetDelegate (stop_capture r'))) (stop_capture r') dest ow = (Ok (), fs') \<and>
    fs_file fs' = (fs_file fs)(dest \<mapsto> (out @ left, m)) \<and> signed_copy (rt_pgp rt) (rt_hashes rt) ring key pkt f out"
proof -
  let ?r = "NewIOReaderWithOffset (newHeaderCapturingReader r)"
  have "end_error ?r = EOF" "rest ?r = file_bytes f @ left" "has_offset ?r" "rd_offset ?r = 0"
    using r by (simp_all add: NewIOReaderWithOffset_def newHeaderCapturingReader_def)
  then obtain g r' where g: "ParseRPM (rt_hashes rt) cap False ?r = Ok (g, r')" "feeds ?r (file_bytes f) r'"
    using ParseRPM_ok [OF f, of ?r left cap] by metis
  have r': "rest (stop_capture r') = left" "end_error (stop_capture r') = EOF"
    "CapturedBytes (GetDelegate (stop_capture r')) = file_bytes f"
    using captured_header [OF g(2)] feeds_rest [OF g(2)] feeds_end [OF g(2)] r
    by (simp_all add: NewIOReaderWithOffset_def newHeaderCapturingReader_def)
  obtain e where e: "createSigningUrl url_Parse url (ApiSigningToken app) = Ok e" "url_Path e = SignRpmHeaderEndpoint"
    "Values_Get (ParseQuery (url_RawQuery e)) ''authToken'' = ApiSigningToken app"
    by (rule createSigningUrl_ok [where url_Parse = url_Parse and url = url and u = u, OF url])
  let ?q = "posted e (file_bytes f)"
  obtain w out where w: "\<And>l. handleSignRpmHeader rt server_files (wrap_response no_response) ?q app l = (Done w, l)"
    "sent_status (ResponseWriter w) = Some 200" "snk_data (sent_body (ResponseWriter w)) = out @ []"
    "signed_copy (rt_pgp rt) (rt_hashes rt) ring key pkt f out"
  proof (rule signed_response [OF _ key(1) f _ _ sgn room key(2)])
    show "Values_Get (ParseQuery (RawQuery ?q)) ''authToken'' = ApiSigningToken app" using e(3) by (simp add: posted_def)
    show "rest (Body ?q) = file_bytes f @ []" "end_error (Body ?q) = EOF" by (simp_all add: posted_def)
  qed blast
  have "fst (mux_ServeHTTP rt server_files app (wrap_response no_response) ?q root_logger) = Done w"
    using mux_match [of ?q SignRpmHeader rt server_files app "wrap_response no_response"] match_sign_rpm w(1) e(2)
    by (simp add: posted_def SignRpmHeaderEndpoint_def endpoint_methods_def handle_endpoint_def)
  then have post: "server_post rt server_files app e (file_bytes f) =
      Ok (200, [], Source \<lparr>src_data = out, src_schedule = [], src_end = EOF\<rparr>)"
    using w by (simp add: server_post_def)
  obtain m where fs1: "fs1 = fs\<lparr>fs_file := (fs_file fs)(dest \<mapsto> ([], m))\<rparr>"
    using CreateDestinationFile_Ok [OF dest(1)] .
  obtain w' where "copy_both (destination_writer fs1) (Source \<lparr>src_data = out, src_schedule = [], src_end = EOF\<rparr>) (stop_capture r') = Ok w'"
    "contents w' = out @ left"
    by (rule copy_both_ok [of "destination_writer fs1" "Source \<lparr>src_data = out, src_schedule = [], src_end = EOF\<rparr>" "stop_capture r'"])
      (use r' dest(2) fs1 in \<open>simp_all add: destination_writer_def\<close>)
  then have "signRpmRemotely url_Parse (server_post rt server_files app) fs url (ApiSigningToken app)
      (CapturedBytes (GetDelegate (stop_capture r'))) (stop_capture r') dest ow =
      (Ok (), set_contents fs1 dest (out @ left))"
    using e(1) post dest fs1 r'(3) by (simp add: signRpmRemotely_def file_op_def set_contents_def)
  moreover have "fs_file (set_contents fs1 dest (out @ left)) = (fs_file fs)(dest \<mapsto> (out @ left, m))"
    by (simp add: fs1 set_contents_def)
  ultimately show ?thesis using g(1) w(4) by blast
qed

section \<open>Signing with a local key\<close>

lemma destination_writer_fresh:
  assumes "CreateDestinationFile fs dest ow = (Ok (), fs1)" and "fs_room fs = None"
  shows "unlimited (NewFileWriterWithOffset (destination_writer fs1))" and "contents (NewFileWriterWithOffset (destination_writer fs1)) = []"
  by (rule CreateDestinationFile_Ok [OF assms(1)], simp add: assms(2) NewFileWriterWithOffset_def destination_writer_def)+

lemma SignRpmAndWriteToFile_copy:
  assumes dest: "CreateDestinationFile fs dest ow = (Ok (), fs1)" "fs_fault fs OpClose dest = None"
    and w: "SignRpmAndWrite L grow now g (NewFileWriterWithOffset (destination_writer fs1)) p key = Some (Ok (d', p'))"
  obtains m where "SignRpmAndWriteToFile L grow now fs g p dest ow key = Some (Ok (), set_contents fs1 dest (contents d'))"
    and "fs_file (set_contents fs1 dest (contents d')) = (fs_file fs)(dest \<mapsto> (contents d', m))"
proof -
  obtain m where fs1: "fs1 = fs\<lparr>fs_file := (fs_file fs)(dest \<mapsto> ([], m))\<rparr>"
    using CreateDestinationFile_Ok [OF dest(1)] .
  have "SignRpmAndWriteToFile L grow now fs g p dest ow key = Some (Ok (), set_contents fs1 dest (contents d'))"
    using w dest by (simp add: SignRpmAndWriteToFile_def file_op_def set_contents_def fs1)
  moreover have "fs_file (set_contents fs1 dest (contents d')) = (fs_file fs)(dest \<mapsto> (contents d', m))"
    by (simp add: fs1 set_contents_def)
  ultimately show thesis using that by blast
qed

text \<open>A run that only signs reaches the signing step with the parsed file and the reader behind the headers.\<close>

lemma client_main_signs:
  assumes c: "parse_args (env_version env) args no_options = Returns (Ok c)" "options_ok c" "signingMode c = SIGNING_MODE_RPM"
      "\<not> verifySignatures c" "\<not> printInfo c" "\<not> dumpSignatureHeader c" "\<not> dumpMainHeader c"
    and r: "OpenFileOrUrl fs (env_Get env) (hd (remainingArgs c)) = Ok (r, data)"
    and cap: "cap \<longleftrightarrow> signServerUrl c \<noteq> []"
    and p: "ParseRPM (env_hashes env) (env_cap env) False (NewIOReaderWithOffset (if cap then newHeaderCapturingReader r else r)) = Ok (g, r1)"
    and r2: "r2 = (if cap then stop_capture r1 else r1)"
  shows "\<exists>st. cs_fs st = fs \<and> client_main env args fs = sign_file env c g cap r2 st"
proof -
  have log: "obind (print_info c g l) (dump_headers c g) = Ok l" for l using c by (simp add: print_info_def dump_headers_def)
  have run: "\<exists>st'. cs_fs st' = fs \<and> client_run env c (hd (remainingArgs c)) st = sign_file env c g cap r2 st'" if "cs_fs st = fs" for st
  proof -
    let ?st = "if SetIsEmpty (GetSignatureVersions g)
      then st\<lparr>cs_log := log_Info ''RPM file is unsigned, no signatures to verify'' (cs_log st)\<rparr> else st"
    have "client_run env c (hd (remainingArgs c)) st = sign_file env c g cap r2 ?st"
      unfolding client_run_def that r using cap p
      by (simp add: with_outcome_def c(3,4) ParseRPMFromReader_def log Let_def r2)
    moreover have "cs_fs ?st = fs" using that by simp
    ultimately show ?thesis by blast
  qed
  have "sanity_checks c = Returns (Ok (hd (remainingArgs c)))"
    using c(2) unfolding options_ok_def sanity_checks_def by (auto simp: SetContains_def)
  then have "\<exists>st. cs_fs st = fs \<and> client_main env args fs = client_run env c (hd (remainingArgs c)) st"
    unfolding client_main_def Let_def c(1)
    by (simp only: program.case outcome.case) (rule exI, rule conjI [rotated], rule refl, simp)
  then show ?thesis using run by metis
qed


lemma example_signature:
  "SignDigest server_pgp 0 (header_bytes (MainHeader file_example)) key_example =
     Ok (0xc2 # header_bytes main_example, header_bytes main_example @ [4, 0xff])"
  by (simp add: server_pgp_example file_example_header_bytes)

lemma example_room:
  "can_replace (signature_tag server_pgp key_example) FORMAT_TYPE_BINARY
     (of_nat (length (0xc2 # header_bytes main_example))) (0xc2 # header_bytes main_example) (SignatureHeader file_example)"
  using can_replace_example by simp

definition url_example :: URL where
  "url_example = \<lparr>url_Scheme = ''http'', url_Host = ''h'', url_Path = ''/'', url_RawQuery = []\<rparr>"

definition env_example :: "(bytes, unit) client_env" where
  "env_example = \<lparr>env_pgp = server_pgp, env_hashes = hash_example, env_grow = id, env_cap = id, env_now = 0, env_version = ''1'',
     env_token = [], env_tmp = ''/tmp'', env_Get = (\<lambda>u. Err EOF), env_Post = (\<lambda>u b. Err EOF), env_Parse = (\<lambda>s. Ok url_example)\<rparr>"

definition args_example :: "string list" where
  "args_example = [''-s'', ''--priv-key'', ''/key'', ''-o'', ''/out'', ''/in.rpm'']"

definition cli_example :: cli where
  "cli_example = no_options\<lparr>signingMode := SIGNING_MODE_RPM, privateKeyFilename := ''/key'', destinationFileName := ''/out'',
     seenOpts := {''-o'', ''--priv-key'', ''-s''}, remainingArgs := [''/in.rpm'']\<rparr>"

definition input_fs :: os_fs where
  "input_fs = \<lparr>fs_file = [''/in.rpm'' \<mapsto> (file_bytes file_example @ [7, 8], 420), ''/key'' \<mapsto> ([2], 384)], fs_dirs = {}, fs_room = None,
     fs_fault = (\<lambda>op p. None)\<rparr>"

lemma args_example_parsed: "parse_args (env_version env_example) args_example no_options = Returns (Ok cli_example)"
  by (simp add: args_example_def is_help_def takes_value_def value_option_def flag_option_def unique_option_def SetContains_def
      SetAdd_def NewSet_def no_options_def cli_example_def)

lemma input_opened:
  "OpenFileOrUrl input_fs (env_Get env_example) (hd (remainingArgs cli_example)) =
     Ok (NewSeekableReader (NewIOReaderWithOffset (Source \<lparr>src_data = file_bytes file_example @ [7, 8], src_schedule = [], src_end = EOF\<rparr>)),
         Some (file_bytes file_example @ [7, 8]))"
  by (simp add: OpenFileOrUrl_def cli_example_def HasPrefix_def ascii_lower_def Let_def panic_on_error_def os_Open_def input_fs_def)


section \<open>Signing through the server\<close>


definition remote_env :: "(bytes, unit) client_env" where
  "remote_env = env_example\<lparr>env_Post := server_post runtime_example server_fs config_example\<rparr>"

definition remote_args :: "string list" where
  "remote_args = [''-s'', ''--sign-server'', ''http://h/'', ''--sign-server-token'', ''t0k'', ''-o'', ''/out'', ''/in.rpm'']"

definition remote_cli :: cli where
  "remote_cli = no_options\<lparr>signingMode := SIGNING_MODE_RPM, signServerUrl := ''http://h/'', signServerToken := ''t0k'',
     destinationFileName := ''/out'', seenOpts := {''-o'', ''--sign-server-token'', ''--sign-server'', ''-s''},
     remainingArgs := [''/in.rpm'']\<rparr>"

lemma remote_args_parsed: "parse_args (env_version remote_env) remote_args no_options = Returns (Ok remote_cli)"
  by (simp add: remote_args_def is_help_def takes_value_def value_option_def flag_option_def unique_option_def SetContains_def
      SetAdd_def NewSet_def no_options_def remote_cli_def)


section \<open>Verification\<close>

lemma log_Infof_emits:
  "LOG_LEVEL_INFO \<le> currentLogLevel l \<Longrightarrow>
   log_output (log_Infof format args l) = log_output l @ [Formatted format args] \<and> currentLogLevel (log_Infof format args l) = currentLogLevel l"
  by (simp add: log_Infof_def log_entry_to_def)

definition version_line :: "SignatureVersion \<Rightarrow> string list \<Rightarrow> string \<Rightarrow> log_entry" where
  "version_line sv args verdict = Formatted (''RPM file signature %v: '' @ verdict) (sv_Label sv # args)"

text \<open>With \<^verbatim>\<open>--verbose\<close> each version has one line: not present, ok, or failed with the error.\<close>

lemma report_version_line:
  assumes "LOG_LEVEL_INFO \<le> currentLogLevel l" and "\<And>m. verify_version L H v sv \<noteq> Panic m"
  shows "\<exists>l'. report_version L H True f v l sv = Ok l' \<and> LOG_LEVEL_INFO \<le> currentLogLevel l' \<and>
    log_output l' = log_output l @
      [if sv \<notin> GetSignatureVersions f then version_line sv [] ''<not present>''
       else case verify_version L H v sv of
              Err e \<Rightarrow> version_line sv [error_text e] ''FAILED (%s)''
            | _ \<Rightarrow> version_line sv [] ''ok'']"
  using assms(2) log_Infof_emits [OF assms(1)] assms(1)
  by (auto simp: report_version_def SetContains_def version_line_def split: outcome.split)

lemma report_signed:
  assumes "LOG_LEVEL_INFO \<le> currentLogLevel l" and "SIGNATURE_VERSION_V4 \<in> GetSignatureVersions g"
    and "SIGNATURE_VERSION_V3 \<notin> GetSignatureVersions g" and "VerifyV4Signature L v = Ok ()"
  shows "\<exists>l' x. ofold (report_version L H True g v) l AllSignatureVersions = Ok l' \<and>
    log_output l' = log_output l @
      [version_line SIGNATURE_VERSION_V3 [] ''<not present>'', version_line SIGNATURE_VERSION_V4 [] ''ok'', x] \<and>
    x \<in> {version_line SIGNATURE_VERSION_V6 [] ''<not present>'', version_line SIGNATURE_VERSION_V6 [''implement me''] ''FAILED (%s)''}"
proof -
  have ne: "SIGNATURE_VERSION_V4 \<noteq> SIGNATURE_VERSION_V3" "SIGNATURE_VERSION_V6 \<noteq> SIGNATURE_VERSION_V3" "SIGNATURE_VERSION_V6 \<noteq> SIGNATURE_VERSION_V4"
    by (simp_all add: SIGNATURE_VERSION_V3_def SIGNATURE_VERSION_V4_def SIGNATURE_VERSION_V6_def)
  have v4: "verify_version L H v SIGNATURE_VERSION_V4 = Ok ()" and v6: "verify_version L H v SIGNATURE_VERSION_V6 = Err (Errorf ''implement me'')"
    using ne assms(4) by (simp_all add: verify_version_def VerifyV6Signature_def)
  have "\<exists>l1. report_version L H True g v l SIGNATURE_VERSION_V3 = Ok l1 \<and> LOG_LEVEL_INFO \<le> currentLogLevel l1 \<and>
      log_output l1 = log_output l @ [version_line SIGNATURE_VERSION_V3 [] ''<not present>'']"
    using assms(1,3) log_Infof_emits [OF assms(1)] by (simp add: report_version_def SetContains_def version_line_def)
  then obtain l1 where 1: "report_version L H True g v l SIGNATURE_VERSION_V3 = Ok l1" "LOG_LEVEL_INFO \<le> currentLogLevel l1"
    "log_output l1 = log_output l @ [version_line SIGNATURE_VERSION_V3 [] ''<not present>'']" by blast
  obtain l2 where 2: "report_version L H True g v l1 SIGNATURE_VERSION_V4 = Ok l2" "LOG_LEVEL_INFO \<le> currentLogLevel l2"
    "log_output l2 = log_output l1 @ [version_line SIGNATURE_VERSION_V4 [] ''ok'']"
    using report_version_line [OF 1(2), of L H v SIGNATURE_VERSION_V4 g] v4 assms(2) by auto
  obtain l3 x where "report_version L H True g v l2 SIGNATURE_VERSION_V6 = Ok l3" "log_output l3 = log_output l2 @ [x]"
    "x \<in> {version_line SIGNATURE_VERSION_V6 [] ''<not present>'', version_line SIGNATURE_VERSION_V6 [''implement me''] ''FAILED (%s)''}"
    using report_version_line [OF 2(2), of L H v SIGNATURE_VERSION_V6 g] v6 by (auto simp: error_text_def)
  with 1 2 show ?thesis by (auto simp: AllSignatureVersions_def)
qed

text \<open>C5: what the client signed, the client verifies. A verbose run with \<^verbatim>\<open>--verify\<close> on a signed copy with any payload,
  with the public key of the signer, ends normally, changes no file, and reports the version 4 signature as ok, never as
  failed, and that there is no version 3 signature.\<close>

theorem client_verifies_signed_copy:
  assumes c: "parse_args (env_version env) args no_options = Returns (Ok c)" "options_ok c" "signingMode c = SIGNING_MODE_NOT_SET"
      "verifySignatures c" "verboseOutput c" "gpgPublicFiles c \<noteq> []" "\<not> printInfo c" "\<not> dumpSignatureHeader c" "\<not> dumpMainHeader c"
    and r: "OpenFileOrUrl fs (env_Get env) (hd (remainingArgs c)) = Ok (r, data)" "rest r = out @ left" "end_error r = EOF"
    and copy: "signed_copy (env_pgp env) (env_hashes env) ring key pkt f out"
    and keys: "LoadPublicKeys (env_pgp env) (os_Open fs) (gpgPublicFiles c) = Ok ring"
  shows "\<exists>st. client_main env args fs = (Finished, st) \<and> cs_fs st = fs \<and>
    Formatted ''RPM file signature %v: ok'' [''V4''] \<in> set (log_output (cs_log st)) \<and>
    Formatted ''RPM file signature %v: <not present>'' [''V3''] \<in> set (log_output (cs_log st)) \<and>
    (\<forall>e. Formatted ''RPM file signature %v: FAILED (%s)'' [''V4'', e] \<notin> set (log_output (cs_log st)))"
proof -
  have "rest (NewIOReaderWithOffset r) = out @ left" "end_error (NewIOReaderWithOffset r) = EOF" "has_offset (NewIOReaderWithOffset r)"
    "rd_offset (NewIOReaderWithOffset r) = 0" using r by (simp_all add: NewIOReaderWithOffset_def)
  then obtain g r1 v where g: "ParseRPM (env_hashes env) (env_cap env) False (NewIOReaderWithOffset r) = Ok (g, r1)"
    "sig_view (SignatureHeader g) = signed_view (env_pgp env) key pkt (sig_view (SignatureHeader f))"
    "NewSignatureVerifier g None ring = Ok v" "VerifySignatures (env_pgp env) (env_hashes env) {SIGNATURE_VERSION_V4} v = Ok ()"
    using copy unfolding signed_copy_def by metis
  note vs = GetSignatureVersions_signed [OF g(2)]
  have v4: "VerifyV4Signature (env_pgp env) v = Ok ()"
    using g(4) by (auto simp: VerifySignatures_def SetIsEmpty_def SetSize_def SetContains_def SIGNATURE_VERSION_V3_def SIGNATURE_VERSION_V4_def
        SIGNATURE_VERSION_V6_def elim!: obind_OkE)
  define l0 where "l0 = (if debugLogging c then SetCurrentLogLevel LOG_LEVEL_DEBUG root_logger else root_logger)"
  have l0: "LOG_LEVEL_INFO \<le> currentLogLevel l0" "log_output l0 = []"
    by (simp_all add: l0_def root_logger_def SetCurrentLogLevel_def LOG_LEVEL_INFO_def LOG_LEVEL_DEBUG_def)
  define l1 where "l1 = log_Infof (''Reading input file %s'' @ nl) [hd (remainingArgs c)] l0"
  define l2 where "l2 = log_Infof ''Verifying against public key %s'' [''['' @ join_strings (gpgPublicFiles c) '' '' @ '']''] l1"
  have l1: "LOG_LEVEL_INFO \<le> currentLogLevel l1" using log_Infof_emits [OF l0(1)] l0(1) by (simp add: l1_def)
  then have l2: "LOG_LEVEL_INFO \<le> currentLogLevel l2" "log_output l2 =
      [Formatted (''Reading input file %s'' @ nl) [hd (remainingArgs c)],
       Formatted ''Verifying against public key %s'' [''['' @ join_strings (gpgPublicFiles c) '' '' @ '']'']]"
    using log_Infof_emits [OF l0(1)] log_Infof_emits [OF l1] l0 by (simp_all add: l1_def l2_def)
  obtain l3 x where l3: "ofold (report_version (env_pgp env) (env_hashes env) True g v) l2 AllSignatureVersions = Ok l3"
    "log_output l3 = log_output l2 @ [version_line SIGNATURE_VERSION_V3 [] ''<not present>'', version_line SIGNATURE_VERSION_V4 [] ''ok'', x]"
    "x \<in> {version_line SIGNATURE_VERSION_V6 [] ''<not present>'', version_line SIGNATURE_VERSION_V6 [''implement me''] ''FAILED (%s)''}"
    using report_signed [OF l2(1) vs v4] by blast
  have sane: "sanity_checks c = Returns (Ok (hd (remainingArgs c)))"
    using c(2) unfolding options_ok_def sanity_checks_def by (auto simp: SetContains_def)
  have "finite (GetSignatureVersions g)" by (simp add: GetSignatureVersions_def Let_def SetAdd_def NewSet_def)
  then have "\<not> SetIsEmpty (GetSignatureVersions g)" using vs(1) by (auto simp: SetIsEmpty_def SetSize_def)
  then have "client_run env c (hd (remainingArgs c)) \<lparr>cs_fs = fs, cs_log = l1\<rparr> = (Finished, \<lparr>cs_fs = fs, cs_log = l3\<rparr>)"
    using c(3-9) r(1) g(1,3) keys vs l3(1)
    by (simp add: client_run_def with_outcome_def ParseRPMFromReader_def print_info_def dump_headers_def verify_file_def verbosely_def
        SetContains_def l2_def)
  then have "client_main env args fs = (Finished, \<lparr>cs_fs = fs, cs_log = l3\<rparr>)"
    using c(1,5) sane by (cases "debugLogging c") (simp_all add: client_main_def verbosely_def l1_def l0_def Let_def)
  moreover have "sv_Label SIGNATURE_VERSION_V3 = ''V3''" "sv_Label SIGNATURE_VERSION_V4 = ''V4''" "sv_Label SIGNATURE_VERSION_V6 = ''V6''"
    by (simp_all add: SIGNATURE_VERSION_V3_def SIGNATURE_VERSION_V4_def SIGNATURE_VERSION_V6_def)
  ultimately show ?thesis using l3(2,3) l2(2) by (auto simp: version_line_def)
qed

lemma signed_copy_example:
  "\<exists>out. signed_copy server_pgp hash_example [()] key_example (0xc2 # header_bytes main_example) file_example out"
proof -
  let ?r = "NewIOReaderWithOffset (NewArrayReader (file_bytes file_example))"
  have r: "end_error ?r = EOF" "rest ?r = file_bytes file_example @ []" "has_offset ?r" "rd_offset ?r = 0"
    by (simp_all add: NewIOReaderWithOffset_def NewArrayReader_def)
  have "unlimited NewArrayWriter" by (simp add: NewArrayWriter_def)
  from parsed_sign_write_copy [OF file_example_wf file_example_valid example_signature example_room server_pgp_example(2) this r, of id id]
  show ?thesis by blast
qed

definition verify_args :: "string list" where
  "verify_args = [''--verify'', ''-v'', ''--pub-key'', ''/pub'', ''/in.rpm'']"

definition verify_cli :: cli where
  "verify_cli = no_options\<lparr>verifySignatures := True, verboseOutput := True, gpgPublicFiles := [''/pub''],
     seenOpts := {''-v'', ''--verify''}, remainingArgs := [''/in.rpm'']\<rparr>"

lemma verify_args_parsed: "parse_args (env_version env_example) verify_args no_options = Returns (Ok verify_cli)"
  by (simp add: verify_args_def is_help_def takes_value_def value_option_def flag_option_def unique_option_def SetContains_def
      SetAdd_def NewSet_def no_options_def verify_cli_def)

theorem client_verifies_signed_copy_witness:
  "\<exists>fs st. client_main env_example verify_args fs = (Finished, st) \<and>
     Formatted ''RPM file signature %v: ok'' [''V4''] \<in> set (log_output (cs_log st))"
proof -
  obtain out where out: "signed_copy server_pgp hash_example [()] key_example (0xc2 # header_bytes main_example) file_example out"
    using signed_copy_example by blast
  let ?fs = "\<lparr>fs_file = [''/in.rpm'' \<mapsto> (out @ [7], 420), ''/pub'' \<mapsto> ([1], 384)], fs_dirs = {}, fs_room = None, fs_fault = (\<lambda>op p. None)\<rparr>"
  let ?r = "NewSeekableReader (NewIOReaderWithOffset (Source \<lparr>src_data = out @ [7], src_schedule = [], src_end = EOF\<rparr>))"
  have env: "env_pgp env_example = server_pgp" "env_hashes env_example = hash_example" by (simp_all add: env_example_def)
  have c: "options_ok verify_cli" "signingMode verify_cli = SIGNING_MODE_NOT_SET" "verifySignatures verify_cli" "verboseOutput verify_cli"
    "gpgPublicFiles verify_cli \<noteq> []" "\<not> printInfo verify_cli" "\<not> dumpSignatureHeader verify_cli" "\<not> dumpMainHeader verify_cli"
    by (simp_all add: options_ok_def verify_cli_def no_options_def NewSet_def)
  have r: "OpenFileOrUrl ?fs (env_Get env_example) (hd (remainingArgs verify_cli)) = Ok (?r, Some (out @ [7]))"
    "rest ?r = out @ [7]" "end_error ?r = EOF"
    by (simp_all add: OpenFileOrUrl_def verify_cli_def HasPrefix_def ascii_lower_def Let_def panic_on_error_def os_Open_def
        NewSeekableReader_def NewIOReaderWithOffset_def)
  have keys: "LoadPublicKeys server_pgp (os_Open ?fs) (gpgPublicFiles verify_cli) = Ok [()]"
    by (simp add: verify_cli_def LoadPublicKey_def os_Open_def server_pgp_def pgp_example_def)
  show ?thesis
    using client_verifies_signed_copy [OF verify_args_parsed c r, unfolded env, OF out keys] by blast
qed

section \<open>Failed verification\<close>

text \<open>A signature that fails verification adds a line to the output and nothing else: the run goes on and can
  end with status 0.\<close>

lemma failed_verification_is_logged:
  assumes "SIGNATURE_VERSION_V4 \<in> GetSignatureVersions f" and "VerifyV4Signature L v = Err e"
  shows "report_version L H verbose f v l SIGNATURE_VERSION_V4 =
    Ok (log_Infof ''RPM file signature %v: FAILED (%s)'' [''V4'', error_text e] l)"
  using assms by (simp add: report_version_def verify_version_def SetContains_def SIGNATURE_VERSION_V3_def SIGNATURE_VERSION_V4_def)

end
