(* ===== verification/Server_Life.thy ===== *)
theory Server_Life
  imports Server "HOL-Library.Multiset"
begin

text \<open>
  The life of the server process (\<^verbatim>\<open>startHttpServer\<close> and \<^verbatim>\<open>main\<close> of \<^verbatim>\<open>server/server.go\<close>) with the requests that
  net/http serves in goroutines of their own. A goroutine is a task; its steps are the handler, which reads files
  and writes only its own response, and the three parts of \<^verbatim>\<open>writeAccessLog\<close>, which work on shared globals.
  The step relation interleaves the steps of all tasks with the arrival of requests and the end of the server.
\<close>

section \<open>Tasks\<close>

datatype stage =
  Handling | Logging responseWriterWrapper | Creating responseWriterWrapper | Writing responseWriterWrapper | Finished handled

record task =
  tk_start :: string
  tk_writer :: Response
  tk_request :: Request
  tk_stage :: stage

definition task_line :: "AppConfig \<Rightarrow> task \<Rightarrow> responseWriterWrapper \<Rightarrow> string" where
  "task_line app t w = access_log_line (tk_start t) (tk_request t) app w"

fun log_stage :: "responseWriterWrapper \<Rightarrow> log_next \<Rightarrow> stage" where
  "log_stage w LogDone = Finished (Done w)"
| "log_stage w LogCreate = Creating w"
| "log_stage w LogWrite = Writing w"

text \<open>One step of \<^verbatim>\<open>AccessLogMiddleware\<close>; a finished task and a handler that does not return have none.\<close>

definition task_step ::
  "('sg, 'ent) runtime \<Rightarrow> AppConfig \<Rightarrow> task \<Rightarrow> server_state \<Rightarrow> (stage \<times> server_state) option" where
  "task_step rt app t st =
     (case tk_stage t of
        Handling \<Rightarrow>
          (case mux_ServeHTTP rt (srv_fs st) app (wrap_response (tk_writer t)) (tk_request t) (rootLogger st) of
             (Done w, l) \<Rightarrow> Some (Logging w, st\<lparr>rootLogger := l\<rparr>)
           | (Crashed m, l) \<Rightarrow> Some (Finished (Crashed m), st\<lparr>rootLogger := l\<rparr>)
           | (Hangs, l) \<Rightarrow> None)
      | Logging w \<Rightarrow> (let (n, st') = check_access_log (task_line app t w) app st in Some (log_stage w n, st'))
      | Creating w \<Rightarrow> (let (n, st') = create_access_log app st in Some (log_stage w n, st'))
      | Writing w \<Rightarrow> Some (Finished (Done w), write_access_log (task_line app t w) app st)
      | Finished h \<Rightarrow> None)"

section \<open>The server\<close>

text \<open>After a signal \<^verbatim>\<open>Shutdown\<close> closes the listeners, whose error it keeps, and waits for the requests in flight.\<close>

datatype phase = Serving | Draining "unit outcome" | Stopped "unit outcome"

record server =
  srv :: server_state
  tasks :: "task list"
  srv_phase :: phase

datatype event =
  Incoming string Response Request | Runs nat task | ListenFailed goerror | SignalReceived "unit outcome" | Drained | DeadlineExceeded

definition accept_task :: "string \<Rightarrow> Response \<Rightarrow> Request \<Rightarrow> task" where
  "accept_task start w r = \<lparr>tk_start = start, tk_writer = w, tk_request = r, tk_stage = Handling\<rparr>"

definition is_finished :: "task \<Rightarrow> bool" where
  "is_finished t \<longleftrightarrow> (case tk_stage t of Finished h \<Rightarrow> True | _ \<Rightarrow> False)"

definition all_finished :: "server \<Rightarrow> bool" where
  "all_finished s \<longleftrightarrow> list_all is_finished (tasks s)"

definition is_stopped :: "server \<Rightarrow> bool" where
  "is_stopped s \<longleftrightarrow> (case srv_phase s of Stopped result \<Rightarrow> True | _ \<Rightarrow> False)"

inductive server_step :: "('sg, 'ent) runtime \<Rightarrow> AppConfig \<Rightarrow> server \<Rightarrow> event \<Rightarrow> server \<Rightarrow> bool" for rt app where
  accepts: "srv_phase s = Serving \<Longrightarrow>
    server_step rt app s (Incoming start w r) (s\<lparr>tasks := tasks s @ [accept_task start w r]\<rparr>)"
| runs: "\<not> is_stopped s \<Longrightarrow> i < length (tasks s) \<Longrightarrow> tasks s ! i = t \<Longrightarrow> task_step rt app t (srv s) = Some (stg, st) \<Longrightarrow>
    server_step rt app s (Runs i t) (s\<lparr>srv := st, tasks := (tasks s)[i := t\<lparr>tk_stage := stg\<rparr>]\<rparr>)"
| listen_fails: "srv_phase s = Serving \<Longrightarrow> server_step rt app s (ListenFailed e) (s\<lparr>srv_phase := Stopped (Err e)\<rparr>)"
| signalled: "srv_phase s = Serving \<Longrightarrow>
    server_step rt app s (SignalReceived result)
      (s\<lparr>srv := (srv s)\<lparr>rootLogger := log_Info ''Signal received, shutting down'' (rootLogger (srv s))\<rparr>,
         srv_phase := Draining result\<rparr>)"
| drained: "srv_phase s = Draining result \<Longrightarrow> all_finished s \<Longrightarrow>
    server_step rt app s Drained (s\<lparr>srv_phase := Stopped result\<rparr>)"
| expires: "srv_phase s = Draining result \<Longrightarrow>
    server_step rt app s DeadlineExceeded (s\<lparr>srv_phase := Stopped (Err (Errorf ''context deadline exceeded''))\<rparr>)"

inductive server_run :: "('sg, 'ent) runtime \<Rightarrow> AppConfig \<Rightarrow> server \<Rightarrow> event list \<Rightarrow> server \<Rightarrow> bool" for rt app where
  run_Nil: "server_run rt app s [] s"
| run_snoc: "server_run rt app s es s' \<Longrightarrow> server_step rt app s' e s'' \<Longrightarrow> server_run rt app s (es @ [e]) s''"

definition startHttpServer :: "AppConfig \<Rightarrow> os_fs \<Rightarrow> LogImpl \<Rightarrow> server" where
  "startHttpServer app fs l =
     \<lparr>srv = \<lparr>srv_fs = fs, accessLog = None, attemptedAccessLogOpen = False,
              rootLogger = log_Infof ''Listening on %s'' [ListenAddress app] l\<rparr>,
      tasks = [], srv_phase = Serving\<rparr>"

definition VersionString :: "string \<Rightarrow> string \<Rightarrow> string" where
  "VersionString AppVersion GitRef = AppVersion @ '' ('' @ GitRef @ '')''"

text \<open>\<^verbatim>\<open>main\<close> up to the start of the server: the exit status with the line printed, or the
  configuration and the server as it starts; and from the end of the server: the exit status and the last message.\<close>

definition server_main ::
  "('sg, 'ent) runtime \<Rightarrow> os_fs \<Rightarrow> string \<Rightarrow> string \<Rightarrow> string list \<Rightarrow> (AppConfig \<times> server) program" where
  "server_main rt fs now env args =
     (if ''--version'' \<in> set args then Exits 0 (VersionString (rt_AppVersion rt) (rt_GitRef rt))
      else
        (let l = log_Infof (''Server started at %s, version: %s'' @ nl) [now, VersionString (rt_AppVersion rt) (rt_GitRef rt)]
                   (SetCurrentLogLevel LOG_LEVEL_INFO root_logger)
         in case loadAppConfig (rt_pgp rt) fs env args of
              Returns (Ok app) \<Rightarrow>
                (let l' = (if DebugMode app then SetCurrentLogLevel LOG_LEVEL_TRACE l
                           else if Verbose app then SetCurrentLogLevel LOG_LEVEL_DEBUG l else l)
                 in Returns (Ok (app, startHttpServer app fs l')))
            | Returns (Err e) \<Rightarrow> Exits 1 (''Failed to load application configuration: '' @ error_text e)
            | Returns (Panic m) \<Rightarrow> Returns (Panic m)
            | Exits n s \<Rightarrow> Exits n s))"

definition server_exit :: "unit outcome \<Rightarrow> LogImpl \<Rightarrow> nat \<times> LogImpl" where
  "server_exit result l =
     (case result of
        Err e \<Rightarrow> (1, log_Errorf ''Failed to start HTTP server: %v'' [error_text e] l)
      | _ \<Rightarrow> (0, l))"

inductive_cases server_stepE: "server_step rt app s e s'"
inductive_cases server_run_NilE: "server_run rt app s [] s'"

lemma server_run_append:
  "server_run rt app s' es' s'' \<Longrightarrow> server_run rt app s es s' \<Longrightarrow> server_run rt app s (es @ es') s''"
proof (induction s' es' s'' rule: server_run.induct)
  case (run_snoc s' es1 s1 e s2)
  then show ?case using server_run.run_snoc [of rt app s "es @ es1" s1 e s2] by simp
qed simp

lemma server_run_step: "server_step rt app s e s' \<Longrightarrow> server_run rt app s [e] s'"
  using run_snoc [OF run_Nil] by fastforce

text \<open>An invariant of the steps is an invariant of the runs.\<close>

lemma server_run_invariant:
  assumes "server_run rt app s es s'" and "P s" and "\<And>s e s'. P s \<Longrightarrow> server_step rt app s e s' \<Longrightarrow> P s'"
  shows "P s'"
  using assms by (induction rule: server_run.induct) blast+

section \<open>What a handler depends on\<close>

lemma logged_write_fst: "fst (logged_write format addr written l) = Done (snd written)"
  by (auto simp: logged_write_def split: prod.splits option.splits)

lemma handle_endpoint_logger: "fst (handle_endpoint rt fs w r app e l) = fst (handle_endpoint rt fs w r app e l')"
  by (cases e) (simp_all add: handle_endpoint_def handlePublicKey_def handleSignRpmHeader_def handleSignDetached_def
      handleClientDownload_def handleVersionRequest_def forbidden_def Let_def logged_write_fst split: outcome.split option.split prod.split)

lemma mux_logger: "fst (mux_ServeHTTP rt fs app w r l) = fst (mux_ServeHTTP rt fs app w r l')"
  using handle_endpoint_logger [of rt fs w r app _ l l'] by (simp add: mux_ServeHTTP_def split: option.split)

definition read_paths :: "AppConfig \<Rightarrow> string set" where
  "read_paths app = {GpgPublicKeyPath app, GpgPrivateKeyPath app} \<union> ran (RpmSignClientBinary app)"

definition same_reads :: "AppConfig \<Rightarrow> os_fs \<Rightarrow> os_fs \<Rightarrow> bool" where
  "same_reads app fs fs' \<longleftrightarrow> fs_fault fs' = fs_fault fs \<and> (\<forall>p\<in>read_paths app. fs_file fs' p = fs_file fs p)"

lemma same_reads_Open: "same_reads app fs fs' \<Longrightarrow> p \<in> read_paths app \<Longrightarrow> os_Open fs' p = os_Open fs p"
  by (cases "fs_fault fs OpOpen p") (simp_all add: same_reads_def os_Open_def)

lemma same_reads_keys:
  assumes "same_reads app fs fs'"
  shows "LoadGpgPublicKeyAsBytes fs' app = LoadGpgPublicKeyAsBytes fs app"
    and "LoadGpgPrivateKey L fs' app = LoadGpgPrivateKey L fs app"
  using same_reads_Open [OF assms]
  by (simp_all add: LoadGpgPublicKeyAsBytes_def LoadGpgPrivateKey_def LoadPrivateKeyFromFile_def read_paths_def)

lemma same_reads_endpoint:
  assumes "same_reads app fs fs'"
  shows "handle_endpoint rt fs' w r app e l = handle_endpoint rt fs w r app e l"
proof -
  have "RpmSignClientBinary app a = Some p \<Longrightarrow> os_Open fs' p = os_Open fs p" for a p
    by (rule same_reads_Open [OF assms]) (auto simp: read_paths_def ran_def)
  then have "handleClientDownload fs' w r app l = handleClientDownload fs w r app l"
    by (auto simp: handleClientDownload_def split: option.split)
  moreover have "signRpmData rt fs' q d app = signRpmData rt fs q d app" for q d
    unfolding signRpmData_def same_reads_keys(2) [OF assms] ..
  ultimately show ?thesis
    using same_reads_keys(1) [OF assms] same_reads_keys(2) [OF assms, of "rt_pgp rt"]
    by (cases e) (simp_all add: handle_endpoint_def handlePublicKey_def handleSignRpmHeader_def handleSignDetached_def
        doSigDetached_def)
qed

lemma same_reads_mux: "same_reads app fs fs' \<Longrightarrow> mux_ServeHTTP rt fs' app w r l = mux_ServeHTTP rt fs app w r l"
  by (simp add: mux_ServeHTTP_def same_reads_endpoint split: option.split)

section \<open>Files and answers\<close>

definition log_state_ok :: "AppConfig \<Rightarrow> os_fs \<Rightarrow> server_state \<Rightarrow> bool" where
  "log_state_ok app fs st \<longleftrightarrow>
     (\<forall>p. accessLog st = Some p \<longrightarrow> p = AccessLogPath app \<and> p \<noteq> [] \<and> attemptedAccessLogOpen st) \<and>
     (\<forall>q. q \<noteq> AccessLogPath app \<or> AccessLogPath app = [] \<longrightarrow> fs_file (srv_fs st) q = fs_file fs q) \<and>
     fs_fault (srv_fs st) = fs_fault fs"

lemma log_state_ok_logger [simp]: "log_state_ok app fs (st\<lparr>rootLogger := l\<rparr>) = log_state_ok app fs st"
  by (simp add: log_state_ok_def)

lemma check_access_log_ok:
  "check_access_log l app st = (n, st') \<Longrightarrow> log_state_ok app fs st \<Longrightarrow>
   log_state_ok app fs st' \<and> (n = LogCreate \<longrightarrow> AccessLogPath app \<noteq> [])"
  by (auto simp: check_access_log_def split: if_splits)

lemma create_access_log_ok:
  assumes "create_access_log app st = (n, st')" and "log_state_ok app fs st" and "AccessLogPath app \<noteq> []"
  shows "log_state_ok app fs st' \<and> n \<noteq> LogCreate"
proof -
  obtain r fs' where c: "os_Create (srv_fs st) (AccessLogPath app) = (r, fs')" by fastforce
  have "fs_fault fs' = fs_fault (srv_fs st)" "q \<noteq> AccessLogPath app \<Longrightarrow> fs_file fs' q = fs_file (srv_fs st) q" for q
    using os_Create_other [of q "AccessLogPath app" "srv_fs st"] os_Create_fault [of "srv_fs st" "AccessLogPath app"] c by simp_all
  with assms show ?thesis by (cases r) (auto simp: create_access_log_def c log_state_ok_def)
qed

lemma write_access_log_ok:
  assumes "log_state_ok app fs st"
  shows "log_state_ok app fs (write_access_log l app st)"
proof (cases "accessLog st")
  case None
  with assms show ?thesis by (simp add: write_access_log_def log_state_ok_def)
next
  case (Some p)
  obtain r fs' where w: "file_Write (srv_fs st) p (map byte_of_char l) = (r, fs')" by fastforce
  have "fs_fault fs' = fs_fault (srv_fs st)" "q \<noteq> p \<Longrightarrow> fs_file fs' q = fs_file (srv_fs st) q" for q
    using file_Write_other [of q p "srv_fs st" "map byte_of_char l"] file_Write_fault [of "srv_fs st" p "map byte_of_char l"] w
    by simp_all
  moreover have "write_access_log l app st = st\<lparr>srv_fs := fs'\<rparr> \<or>
      (\<exists>x. write_access_log l app st = st\<lparr>srv_fs := fs', accessLog := None, rootLogger := x\<rparr>)"
    by (cases r) (auto simp: write_access_log_def w Some)
  ultimately show ?thesis using assms Some by (auto simp: log_state_ok_def)
qed

definition may_create :: "AppConfig \<Rightarrow> stage \<Rightarrow> bool" where
  "may_create app stg \<longleftrightarrow> (\<forall>w. stg = Creating w \<longrightarrow> AccessLogPath app \<noteq> [])"

lemma task_step_ok:
  assumes "task_step rt app t st = Some (stg, st')" and "log_state_ok app fs st" and "may_create app (tk_stage t)"
  shows "log_state_ok app fs st' \<and> may_create app stg"
proof (cases "tk_stage t")
  case (Logging w)
  with assms check_access_log_ok show ?thesis
    by (cases "check_access_log (task_line app t w) app st"; cases "fst (check_access_log (task_line app t w) app st)")
      (fastforce simp: task_step_def may_create_def)+
next
  case (Creating w)
  with assms create_access_log_ok show ?thesis
    by (cases "create_access_log app st"; cases "fst (create_access_log app st)")
      (fastforce simp: task_step_def may_create_def)+
qed (use assms in \<open>auto simp: task_step_def may_create_def write_access_log_ok split: prod.splits handled.splits\<close>)

definition server_ok :: "AppConfig \<Rightarrow> os_fs \<Rightarrow> server \<Rightarrow> bool" where
  "server_ok app fs s \<longleftrightarrow> log_state_ok app fs (srv s) \<and> (\<forall>t\<in>set (tasks s). may_create app (tk_stage t))"

lemma server_step_ok:
  assumes "server_ok app fs s" and "server_step rt app s e s'"
  shows "server_ok app fs s'"
  using assms(2)
proof cases
  case (runs i t stg st)
  with assms(1) have "log_state_ok app fs st \<and> may_create app stg"
    by (intro task_step_ok [OF runs(6)]) (auto simp: server_ok_def)
  with runs assms(1) show ?thesis
    by (auto simp: server_ok_def dest!: subsetD [OF set_update_subset_insert])
qed (use assms(1) in \<open>auto simp: server_ok_def accept_task_def may_create_def\<close>)

lemma start_ok: "server_ok app fs (startHttpServer app fs l)"
  by (simp add: server_ok_def log_state_ok_def startHttpServer_def)

lemma run_ok: "server_run rt app (startHttpServer app fs l) es s \<Longrightarrow> server_ok app fs s"
  using server_run_invariant [of rt app _ es s "server_ok app fs"] start_ok server_step_ok by blast

text \<open>C23: serving never changes a file other than the access log, and without a configured access log
  it changes no file at all, over every interleaving of requests and every way the server ends.\<close>

theorem server_keeps_files:
  assumes "server_run rt app (startHttpServer app fs l) es s"
  shows "(\<forall>q. q \<noteq> AccessLogPath app \<or> AccessLogPath app = [] \<longrightarrow> fs_file (srv_fs (srv s)) q = fs_file fs q) \<and>
    (\<forall>q. accessLog (srv s) = Some q \<longrightarrow> q = AccessLogPath app \<and> attemptedAccessLogOpen (srv s))"
  using run_ok [OF assms] by (auto simp: server_ok_def log_state_ok_def)

theorem server_keeps_files_witness:
  "\<exists>s. server_run runtime_example config_example (startHttpServer config_example server_fs root_logger)
       [SignalReceived (Ok ())] s \<and> fs_file (srv_fs (srv s)) ''/key'' = fs_file server_fs ''/key''"
proof -
  have "server_step runtime_example config_example (startHttpServer config_example server_fs root_logger) (SignalReceived (Ok ()))
      ((startHttpServer config_example server_fs root_logger)
        \<lparr>srv := (srv (startHttpServer config_example server_fs root_logger))\<lparr>rootLogger := log_Info ''Signal received, shutting down''
           (rootLogger (srv (startHttpServer config_example server_fs root_logger)))\<rparr>, srv_phase := Draining (Ok ())\<rparr>)"
    by (rule signalled) (simp add: startHttpServer_def)
  note run = server_run_step [OF this]
  show ?thesis
    using server_keeps_files [OF run] run by (auto simp: config_example_def empty_config_def)
qed

text \<open>The answer of a task, once its handler is done.\<close>

fun stage_answer :: "stage \<Rightarrow> handled option" where
  "stage_answer Handling = None"
| "stage_answer (Logging w) = Some (Done w)"
| "stage_answer (Creating w) = Some (Done w)"
| "stage_answer (Writing w) = Some (Done w)"
| "stage_answer (Finished h) = Some h"

definition alone :: "('sg, 'ent) runtime \<Rightarrow> AppConfig \<Rightarrow> os_fs \<Rightarrow> task \<Rightarrow> handled" where
  "alone rt app fs t = fst (mux_ServeHTTP rt fs app (wrap_response (tk_writer t)) (tk_request t) root_logger)"

lemma log_stage_answer [simp]: "stage_answer (log_stage w n) = Some (Done w)"
  by (cases n) simp_all

lemma task_step_answer:
  assumes "task_step rt app t st = Some (stg, st')" and "same_reads app fs (srv_fs st)"
    and "\<And>h. stage_answer (tk_stage t) = Some h \<Longrightarrow> h = alone rt app fs t"
  shows "stage_answer stg = Some (alone rt app fs t)"
proof (cases "tk_stage t")
  case Handling
  obtain h l where m: "mux_ServeHTTP rt (srv_fs st) app (wrap_response (tk_writer t)) (tk_request t) (rootLogger st) = (h, l)"
    by fastforce
  then have "alone rt app fs t = h"
    unfolding alone_def same_reads_mux [OF assms(2), symmetric] by (metis mux_logger fst_conv)
  with assms(1) Handling m show ?thesis by (cases h) (auto simp: task_step_def)
qed (use assms in \<open>auto simp: task_step_def split: prod.splits\<close>)

definition requests_of :: "event list \<Rightarrow> (string \<times> Response \<times> Request) list" where
  "requests_of es = List.map_filter (\<lambda>e. case e of Incoming start w r \<Rightarrow> Some (start, w, r) | _ \<Rightarrow> None) es"

definition answers_ok :: "('sg, 'ent) runtime \<Rightarrow> AppConfig \<Rightarrow> os_fs \<Rightarrow> server \<Rightarrow> bool" where
  "answers_ok rt app fs s \<longleftrightarrow>
     (\<forall>t\<in>set (tasks s). \<forall>h. stage_answer (tk_stage t) = Some h \<longrightarrow> h = alone rt app fs t)"

lemma alone_stage [simp]: "alone rt app fs (t\<lparr>tk_stage := stg\<rparr>) = alone rt app fs t"
  by (simp add: alone_def)

lemma server_ok_reads:
  "server_ok app fs s \<Longrightarrow> AccessLogPath app \<notin> read_paths app \<or> AccessLogPath app = [] \<Longrightarrow> same_reads app fs (srv_fs (srv s))"
  unfolding server_ok_def log_state_ok_def same_reads_def by metis

lemma answers_step:
  assumes "server_ok app fs s" and "AccessLogPath app \<notin> read_paths app \<or> AccessLogPath app = []"
    and "answers_ok rt app fs s" and "server_step rt app s e s'"
  shows "answers_ok rt app fs s'"
  using assms(4)
proof cases
  case (runs i t stg st)
  have "stage_answer stg = Some (alone rt app fs t)"
    by (rule task_step_answer [OF runs(6) server_ok_reads [OF assms(1,2)]]) (use assms(3) runs in \<open>auto simp: answers_ok_def\<close>)
  with runs assms(3) show ?thesis
    by (auto simp: answers_ok_def dest!: subsetD [OF set_update_subset_insert])
qed (use assms(3) in \<open>auto simp: answers_ok_def accept_task_def\<close>)

lemma run_answers:
  assumes "server_run rt app (startHttpServer app fs l) es s" and "AccessLogPath app \<notin> read_paths app \<or> AccessLogPath app = []"
  shows "answers_ok rt app fs s"
proof -
  have "server_ok app fs s \<and> answers_ok rt app fs s"
  proof (rule server_run_invariant [OF assms(1)])
    show "server_ok app fs (startHttpServer app fs l) \<and> answers_ok rt app fs (startHttpServer app fs l)"
      using start_ok by (simp add: answers_ok_def startHttpServer_def)
  qed (use server_step_ok answers_step [OF _ assms(2)] in blast)
  then show ?thesis ..
qed

definition request_of :: "task \<Rightarrow> string \<times> Response \<times> Request" where
  "request_of t = (tk_start t, tk_writer t, tk_request t)"

lemma run_requests:
  "server_run rt app s es s' \<Longrightarrow> map request_of (tasks s') = map request_of (tasks s) @ requests_of es"
proof (induction rule: server_run.induct)
  case (run_snoc s es s' e s'')
  from run_snoc.hyps(2) show ?case
  proof cases
    case (runs i t stg st)
    then have "map request_of (tasks s'') = (map request_of (tasks s'))[i := request_of (tasks s' ! i)]"
      by (simp add: map_update request_of_def)
    with run_snoc runs show ?thesis by (simp add: requests_of_def map_filter_def nth_map [symmetric] del: nth_map)
  qed (use run_snoc in \<open>auto simp: requests_of_def map_filter_def request_of_def accept_task_def\<close>)
qed (simp add: requests_of_def map_filter_def)


section \<open>The access log under concurrency\<close>

definition writable :: "AppConfig \<Rightarrow> os_fs \<Rightarrow> bool" where
  "writable app fs \<longleftrightarrow>
     AccessLogPath app \<noteq> [] \<and> fs_fault fs OpCreate (AccessLogPath app) = None \<and> AccessLogPath app \<notin> fs_dirs fs \<and> fs_room fs = None"

definition log_bytes :: "AppConfig \<Rightarrow> server_state \<Rightarrow> bytes option" where
  "log_bytes app st = map_option fst (fs_file (srv_fs st) (AccessLogPath app))"

definition log_open :: "AppConfig \<Rightarrow> string \<Rightarrow> server_state \<Rightarrow> bool" where
  "log_open app written st \<longleftrightarrow>
     writable app (srv_fs st) \<and> accessLog st = Some (AccessLogPath app) \<and> log_bytes app st = Some (map byte_of_char written)"

lemma create_access_log_open:
  assumes "writable app (srv_fs st)"
  obtains st' where "create_access_log app st = (LogWrite, st')" and "log_open app [] st'"
  using assms that by (simp add: create_access_log_def os_Create_def writable_def log_open_def log_bytes_def)

lemma write_access_log_open:
  "log_open app written st \<Longrightarrow> log_open app (written @ line) (write_access_log line app st)"
  by (auto simp: log_open_def log_bytes_def writable_def write_access_log_def file_Write_def sink_write_def)

lemma log_open_logger [simp]: "log_open app written (st\<lparr>rootLogger := l\<rparr>) = log_open app written st"
  by (simp add: log_open_def log_bytes_def)

text \<open>What a run does to the log: the lines written, the creations of the file, and the lines written after the
  last creation.\<close>

definition line_written :: "AppConfig \<Rightarrow> event \<Rightarrow> string list" where
  "line_written app e =
     (case e of Runs i t \<Rightarrow> (case tk_stage t of Writing w \<Rightarrow> [task_line app t w] | _ \<Rightarrow> []) | _ \<Rightarrow> [])"

definition is_creation :: "event \<Rightarrow> bool" where
  "is_creation e \<longleftrightarrow> (case e of Runs i t \<Rightarrow> (case tk_stage t of Creating w \<Rightarrow> True | _ \<Rightarrow> False) | _ \<Rightarrow> False)"

definition lines_written :: "AppConfig \<Rightarrow> event list \<Rightarrow> string list" where
  "lines_written app es = concat (map (line_written app) es)"

definition creations :: "event list \<Rightarrow> nat" where
  "creations es = length (filter is_creation es)"

definition surviving_lines :: "AppConfig \<Rightarrow> event list \<Rightarrow> string list" where
  "surviving_lines app es = lines_written app (rev (takeWhile (\<lambda>e. \<not> is_creation e) (rev es)))"

definition finished_line :: "AppConfig \<Rightarrow> task \<Rightarrow> string list" where
  "finished_line app t = (case tk_stage t of Finished (Done w) \<Rightarrow> [task_line app t w] | _ \<Rightarrow> [])"

definition finished_lines :: "AppConfig \<Rightarrow> task list \<Rightarrow> string list" where
  "finished_lines app ts = concat (map (finished_line app) ts)"

lemma run_effects_snoc [simp]:
  "lines_written app (es @ [e]) = lines_written app es @ line_written app e"
  "creations (es @ [e]) = creations es + (if is_creation e then 1 else 0)"
  "surviving_lines app (es @ [e]) = (if is_creation e then [] else surviving_lines app es @ line_written app e)"
  by (simp_all add: lines_written_def creations_def surviving_lines_def)

lemma run_effects_Nil [simp]:
  "lines_written app [] = []" "creations [] = 0" "surviving_lines app [] = []"
  by (simp_all add: lines_written_def creations_def surviving_lines_def)

lemma finished_lines_simps [simp]:
  "finished_lines app [] = []" "finished_lines app (t # ts) = finished_line app t @ finished_lines app ts"
  by (simp_all add: finished_lines_def)

lemma finished_lines_append [simp]: "finished_lines app (ts @ us) = finished_lines app ts @ finished_lines app us"
  by (simp add: finished_lines_def)

lemma finished_lines_update:
  assumes "i < length ts" and "finished_line app (ts ! i) = []"
  shows "mset (finished_lines app (ts[i := t])) = mset (finished_line app t) + mset (finished_lines app ts)"
  using assms by (subst (2) id_take_nth_drop [OF assms(1)]) (simp add: upd_conv_take_nth_drop)

definition idle_stage :: "stage \<Rightarrow> bool" where
  "idle_stage stg \<longleftrightarrow> (case stg of Writing w \<Rightarrow> False | Finished (Done w) \<Rightarrow> False | _ \<Rightarrow> True)"

definition log_inv :: "AppConfig \<Rightarrow> event list \<Rightarrow> server \<Rightarrow> bool" where
  "log_inv app es s \<longleftrightarrow>
     (if creations es = 0 then
        writable app (srv_fs (srv s)) \<and> accessLog (srv s) = None \<and> \<not> attemptedAccessLogOpen (srv s) \<and>
        list_all (\<lambda>t. idle_stage (tk_stage t)) (tasks s) \<and> lines_written app es = []
      else log_open app (concat (surviving_lines app es)) (srv s)) \<and>
     (creations es \<le> 1 \<longrightarrow> surviving_lines app es = lines_written app es) \<and>
     mset (lines_written app es) = mset (finished_lines app (tasks s))"

lemma list_all_update: "list_all P xs \<Longrightarrow> P x \<Longrightarrow> list_all P (xs[i := x])"
  by (auto simp: list_all_iff dest!: subsetD [OF set_update_subset_insert])

lemma log_inv_run:
  assumes "log_inv app es s" and "i < length (tasks s)" and "task_step rt app (tasks s ! i) (srv s) = Some (stg, st)"
  shows "log_inv app (es @ [Runs i (tasks s ! i)]) (s\<lparr>srv := st, tasks := (tasks s)[i := (tasks s ! i)\<lparr>tk_stage := stg\<rparr>]\<rparr>)"
proof -
  let ?t = "tasks s ! i"
  let ?s = "s\<lparr>srv := st, tasks := (tasks s)[i := ?t\<lparr>tk_stage := stg\<rparr>]\<rparr>"
  have upd: "finished_line app ?t = [] \<Longrightarrow> mset (finished_lines app ((tasks s)[i := ?t\<lparr>tk_stage := stg\<rparr>])) =
      mset (finished_line app (?t\<lparr>tk_stage := stg\<rparr>)) + mset (finished_lines app (tasks s))"
    using finished_lines_update [OF assms(2)] by blast
  have idle: "idle_stage stg \<Longrightarrow> list_all (\<lambda>t. idle_stage (tk_stage t)) (tasks s) \<Longrightarrow>
      list_all (\<lambda>t. idle_stage (tk_stage t)) ((tasks s)[i := ?t\<lparr>tk_stage := stg\<rparr>])"
    by (simp add: list_all_update)
  show ?thesis
  proof (cases "tk_stage ?t")
    case Handling
    then obtain l where "st = (srv s)\<lparr>rootLogger := l\<rparr>" "idle_stage stg" "finished_line app (?t\<lparr>tk_stage := stg\<rparr>) = []"
      using assms(3) by (auto simp: task_step_def idle_stage_def finished_line_def split: prod.splits handled.splits)
    with Handling assms(1) upd idle show ?thesis
      by (auto simp: log_inv_def is_creation_def line_written_def finished_line_def)
  next
    case (Logging w)
    have n: "stg = (if creations es = 0 then Creating w else Writing w) \<and> st = srv s"
      using Logging assms(1,3)
      by (auto simp: task_step_def check_access_log_def log_inv_def log_open_def writable_def split: if_splits)
    with Logging assms(1) upd idle show ?thesis
      by (auto simp: log_inv_def is_creation_def line_written_def finished_line_def idle_stage_def)
  next
    case (Creating w)
    have "writable app (srv_fs (srv s))" using assms(1) by (auto simp: log_inv_def log_open_def split: if_splits)
    then obtain st' where "create_access_log app (srv s) = (LogWrite, st')" "log_open app [] st'"
      by (rule create_access_log_open)
    with Creating assms(1,3) upd show ?thesis
      by (auto simp: task_step_def log_inv_def is_creation_def line_written_def finished_line_def split: if_splits)
  next
    case (Writing w)
    have c: "creations es \<noteq> 0"
    proof
      assume "creations es = 0"
      then have "idle_stage (tk_stage ?t)" using assms(1,2) by (auto simp: log_inv_def list_all_length)
      with Writing show False by (simp add: idle_stage_def)
    qed
    have st: "stg = Finished (Done w)" "st = write_access_log (task_line app ?t w) app (srv s)"
      using Writing assms(3) by (simp_all add: task_step_def)
    have "log_open app (concat (surviving_lines app es) @ task_line app ?t w) st"
      using assms(1) c st by (auto simp: log_inv_def intro: write_access_log_open)
    with Writing c st assms(1) upd show ?thesis
      by (auto simp: log_inv_def is_creation_def line_written_def finished_line_def task_line_def)
  qed (use assms(3) in \<open>simp add: task_step_def\<close>)
qed

lemma log_inv_step:
  assumes "log_inv app es s" and "server_step rt app s e s'"
  shows "log_inv app (es @ [e]) s'"
  using assms(2)
proof cases
  case (runs i t stg st)
  with log_inv_run [OF assms(1), of i rt stg st] show ?thesis by simp
qed (use assms(1) in \<open>auto simp: log_inv_def is_creation_def line_written_def finished_line_def accept_task_def idle_stage_def\<close>)

lemma run_log_inv:
  assumes "server_run rt app (startHttpServer app fs l) es s" and "writable app fs"
  shows "log_inv app es s"
  using assms(1)
proof (induction "startHttpServer app fs l" es s rule: server_run.induct)
  case run_Nil
  from assms(2) show ?case by (simp add: log_inv_def startHttpServer_def)
qed (rule log_inv_step)


section \<open>Schedules\<close>

lemma run_task:
  assumes "server_run rt app s0 es (s\<lparr>srv := st, tasks := ts\<rparr>)" and "srv_phase s = Serving" and "i < length ts"
    and "task_step rt app (ts ! i) st = Some (stg, st')"
  shows "server_run rt app s0 (es @ [Runs i (ts ! i)]) (s\<lparr>srv := st', tasks := ts[i := (ts ! i)\<lparr>tk_stage := stg\<rparr>]\<rparr>)"
  using run_snoc [OF assms(1), of "Runs i (ts ! i)" "s\<lparr>srv := st', tasks := ts[i := (ts ! i)\<lparr>tk_stage := stg\<rparr>]\<rparr>"]
    runs [of "s\<lparr>srv := st, tasks := ts\<rparr>" i "ts ! i" rt app stg st'] assms(2-4)
  by (simp add: is_stopped_def)

lemma run_accept:
  assumes "server_run rt app s0 es (s\<lparr>srv := st, tasks := ts\<rparr>)" and "srv_phase s = Serving"
  shows "server_run rt app s0 (es @ [Incoming start w r]) (s\<lparr>srv := st, tasks := ts @ [accept_task start w r]\<rparr>)"
  by (rule run_snoc [OF assms(1)]) (use accepts [of "s\<lparr>srv := st, tasks := ts\<rparr>" rt app start w r] assms(2) in simp)

definition in_stage :: "string \<Rightarrow> Response \<Rightarrow> Request \<Rightarrow> stage \<Rightarrow> task" where
  "in_stage start w r stg = (accept_task start w r)\<lparr>tk_stage := stg\<rparr>"

lemma in_stage_simps [simp]:
  "tk_stage (in_stage start w r stg) = stg" "(in_stage start w r stg)\<lparr>tk_stage := stg'\<rparr> = in_stage start w r stg'"
  "tk_writer (in_stage start w r stg) = w" "tk_request (in_stage start w r stg) = r"
  "task_line app (in_stage start w r stg) x = access_log_line start r app x"
  by (simp_all add: in_stage_def accept_task_def task_line_def)

lemma accept_in_stage: "accept_task start w r = in_stage start w r Handling"
  by (simp add: in_stage_def accept_task_def)

lemma task_step_Handling:
  "task_step rt app (in_stage start w r Handling) st =
     (case mux_ServeHTTP rt (srv_fs st) app (wrap_response w) r (rootLogger st) of
        (Done x, l) \<Rightarrow> Some (Logging x, st\<lparr>rootLogger := l\<rparr>)
      | (Crashed m, l) \<Rightarrow> Some (Finished (Crashed m), st\<lparr>rootLogger := l\<rparr>)
      | (Hangs, l) \<Rightarrow> None)"
  by (simp add: task_step_def)

text \<open>A request that is served without interruption has the effect of \<^verbatim>\<open>AccessLogMiddleware\<close>.\<close>

definition serial :: "('sg, 'ent) runtime \<Rightarrow> AppConfig \<Rightarrow> server \<Rightarrow> string \<Rightarrow> Response \<Rightarrow> Request \<Rightarrow> stage \<Rightarrow> server_state \<Rightarrow> bool" where
  "serial rt app s start w r stg st \<longleftrightarrow>
     (\<exists>es. server_run rt app s es (s\<lparr>srv := st, tasks := tasks s @ [in_stage start w r stg]\<rparr>))"

lemma serial_start: "srv_phase s = Serving \<Longrightarrow> serial rt app s start w r Handling (srv s)"
  using run_accept [where s = s and st = "srv s" and ts = "tasks s", OF _ , of rt app s "[]"] run_Nil [of rt app s]
  unfolding serial_def accept_in_stage by force

lemma serial_step:
  assumes "serial rt app s start w r stg st" and "srv_phase s = Serving"
    and "task_step rt app (in_stage start w r stg) st = Some (stg', st')"
  shows "serial rt app s start w r stg' st'"
proof -
  obtain es where "server_run rt app s es (s\<lparr>srv := st, tasks := tasks s @ [in_stage start w r stg]\<rparr>)"
    using assms(1) by (auto simp: serial_def)
  from run_task [OF this assms(2), of "length (tasks s)"] assms(3) show ?thesis by (auto simp: serial_def)
qed

lemma serial_writeAccessLog:
  assumes "serial rt app s start w r (Logging x) st" and p: "srv_phase s = Serving"
  shows "serial rt app s start w r (Finished (Done x)) (writeAccessLog (access_log_line start r app x) app st)"
proof -
  let ?l = "access_log_line start r app x"
  obtain n1 st1 where c: "check_access_log ?l app st = (n1, st1)" by fastforce
  obtain n2 st2 where d: "create_access_log app st1 = (n2, st2)" by fastforce
  have n2: "n2 \<noteq> LogCreate" using d by (auto simp: create_access_log_def split: prod.splits outcome.splits)
  have 1: "serial rt app s start w r (log_stage x n1) st1"
    by (rule serial_step [OF assms]) (simp add: task_step_def c)
  have wr: "serial rt app s start w r (Finished (Done x)) (write_access_log ?l app st')"
    if "serial rt app s start w r (Writing x) st'" for st'
    by (rule serial_step [OF that p]) (simp add: task_step_def)
  show ?thesis
  proof (cases n1)
    case LogCreate
    then have "serial rt app s start w r (log_stage x n2) st2"
      using 1 by (auto intro!: serial_step [OF 1 p] simp: task_step_def d)
    with LogCreate n2 wr show ?thesis by (cases n2) (simp_all add: writeAccessLog_def c d)
  qed (use 1 wr in \<open>simp_all add: writeAccessLog_def c\<close>)
qed

lemma serial_request:
  assumes "AccessLogMiddleware rt app start w r (srv s) = (h, st)" and "h \<noteq> Hangs" and "srv_phase s = Serving"
  shows "serial rt app s start w r (Finished h) st"
proof -
  obtain h' l where m: "mux_ServeHTTP rt (srv_fs (srv s)) app (wrap_response w) r (rootLogger (srv s)) = (h', l)" by fastforce
  show ?thesis
  proof (cases h')
    case (Done x)
    then have "serial rt app s start w r (Logging x) ((srv s)\<lparr>rootLogger := l\<rparr>)"
      using m by (intro serial_step [OF serial_start [OF assms(3)] assms(3)]) (simp add: task_step_Handling)
    from serial_writeAccessLog [OF this assms(3)] assms(1) m Done show ?thesis by (simp add: AccessLogMiddleware_def)
  next
    case (Crashed x)
    then have "serial rt app s start w r (Finished h') ((srv s)\<lparr>rootLogger := l\<rparr>)"
      using m by (intro serial_step [OF serial_start [OF assms(3)] assms(3)]) (simp add: task_step_Handling)
    with assms(1) m Crashed show ?thesis by (simp add: AccessLogMiddleware_def)
  qed (use assms m in \<open>simp add: AccessLogMiddleware_def\<close>)
qed

lemma task_step_stages:
  "task_step rt app (in_stage start w r (Writing x)) st =
     Some (Finished (Done x), write_access_log (access_log_line start r app x) app st)"
  "create_access_log app st = (LogWrite, st') \<Longrightarrow> task_step rt app (in_stage start w r (Creating x)) st = Some (Writing x, st')"
  "accessLog st = None \<Longrightarrow> \<not> attemptedAccessLogOpen st \<Longrightarrow> AccessLogPath app \<noteq> [] \<Longrightarrow>
     task_step rt app (in_stage start w r (Logging x)) st = Some (Creating x, st)"
  by (simp_all add: task_step_def check_access_log_def)

lemma task_step_answered:
  assumes "fst (mux_ServeHTTP rt (srv_fs st) app (wrap_response w) r root_logger) = Done x"
  obtains l where "task_step rt app (in_stage start w r Handling) st = Some (Logging x, st\<lparr>rootLogger := l\<rparr>)"
proof -
  have "fst (mux_ServeHTTP rt (srv_fs st) app (wrap_response w) r (rootLogger st)) = Done x"
    using assms mux_logger by metis
  then obtain l where "mux_ServeHTTP rt (srv_fs st) app (wrap_response w) r (rootLogger st) = (Done x, l)"
    by (metis prod.collapse)
  then show thesis by (intro that [of l]) (simp add: task_step_Handling)
qed

text \<open>Two requests on a fresh server, each in its stage.\<close>

definition pair_at ::
  "('sg, 'ent) runtime \<Rightarrow> AppConfig \<Rightarrow> server \<Rightarrow> (stage \<Rightarrow> task) \<Rightarrow> (stage \<Rightarrow> task) \<Rightarrow> server_state \<Rightarrow> stage \<Rightarrow> stage \<Rightarrow> bool" where
  "pair_at rt app s a b st x y \<longleftrightarrow> (\<exists>es. server_run rt app s es (s\<lparr>srv := st, tasks := [a x, b y]\<rparr>))"

lemma pair_at_step:
  assumes "pair_at rt app s (in_stage t0 w0 r0) (in_stage t1 w1 r1) st x y" and "srv_phase s = Serving"
  shows "task_step rt app (in_stage t0 w0 r0 x) st = Some (x', st') \<Longrightarrow> pair_at rt app s (in_stage t0 w0 r0) (in_stage t1 w1 r1) st' x' y"
    and "task_step rt app (in_stage t1 w1 r1 y) st = Some (y', st') \<Longrightarrow> pair_at rt app s (in_stage t0 w0 r0) (in_stage t1 w1 r1) st' x y'"
proof -
  obtain es where run: "server_run rt app s es (s\<lparr>srv := st, tasks := [in_stage t0 w0 r0 x, in_stage t1 w1 r1 y]\<rparr>)"
    using assms(1) by (auto simp: pair_at_def)
  show "pair_at rt app s (in_stage t0 w0 r0) (in_stage t1 w1 r1) st' x' y" if "task_step rt app (in_stage t0 w0 r0 x) st = Some (x', st')"
    using run_task [OF run assms(2), of 0 x' st'] that by (auto simp: pair_at_def)
  show "pair_at rt app s (in_stage t0 w0 r0) (in_stage t1 w1 r1) st' x y'" if "task_step rt app (in_stage t1 w1 r1 y) st = Some (y', st')"
    using run_task [OF run assms(2), of 1 y' st'] that by (auto simp: pair_at_def)
qed

text \<open>Both can have found that there is no log before either has created it.\<close>

lemma pair_creating:
  fixes rt app fs l
  defines "s \<equiv> startHttpServer app fs l"
  assumes "AccessLogPath app \<noteq> []"
    and "fst (mux_ServeHTTP rt fs app (wrap_response w0) r0 root_logger) = Done x0"
    and "fst (mux_ServeHTTP rt fs app (wrap_response w1) r1 root_logger) = Done x1"
  obtains st where "pair_at rt app s (in_stage t0 w0 r0) (in_stage t1 w1 r1) st (Creating x0) (Creating x1)" and "srv_fs st = fs"
proof -
  let ?at = "pair_at rt app s (in_stage t0 w0 r0) (in_stage t1 w1 r1)"
  have s: "srv_phase s = Serving" "srv_fs (srv s) = fs" "accessLog (srv s) = None" "\<not> attemptedAccessLogOpen (srv s)"
    by (simp_all add: s_def startHttpServer_def)
  have "server_run rt app s [] (s\<lparr>srv := srv s, tasks := []\<rparr>)"
    using run_Nil [of rt app s] by (simp add: s_def startHttpServer_def)
  from run_accept [OF run_accept [OF this s(1)] s(1), of t0 w0 r0 t1 w1 r1] have "?at (srv s) Handling Handling"
    by (auto simp: pair_at_def accept_in_stage)
  moreover obtain l0 where l0: "task_step rt app (in_stage t0 w0 r0 Handling) (srv s) = Some (Logging x0, (srv s)\<lparr>rootLogger := l0\<rparr>)"
    using task_step_answered [of rt "srv s" app w0 r0 x0 t0] assms(3) s by auto
  moreover obtain l1 where l1: "task_step rt app (in_stage t1 w1 r1 Handling) ((srv s)\<lparr>rootLogger := l0\<rparr>) =
      Some (Logging x1, (srv s)\<lparr>rootLogger := l1\<rparr>)"
    using task_step_answered [of rt "(srv s)\<lparr>rootLogger := l0\<rparr>" app w1 r1 x1 t1] assms(4) s by auto
  ultimately have 1: "?at ((srv s)\<lparr>rootLogger := l1\<rparr>) (Logging x0) (Logging x1)"
    using pair_at_step [OF _ s(1)] by metis
  have "?at ((srv s)\<lparr>rootLogger := l1\<rparr>) (Creating x0) (Creating x1)"
    by (rule pair_at_step(2) [OF pair_at_step(1) [OF 1 s(1) task_step_stages(3)] s(1) task_step_stages(3)])
      (use s assms(2) in simp_all)
  then show thesis by (rule that) (simp add: s)
qed

text \<open>Creating the log and writing a line leaves this line only.\<close>

lemma create_and_write:
  assumes "writable app (srv_fs st)" and "pair_at rt app s (in_stage t0 w0 r0) (in_stage t1 w1 r1) st x y" and "srv_phase s = Serving"
  shows "x = Creating v \<Longrightarrow> \<exists>st'. pair_at rt app s (in_stage t0 w0 r0) (in_stage t1 w1 r1) st' (Finished (Done v)) y \<and>
      log_open app (access_log_line t0 r0 app v) st'"
    and "y = Creating v \<Longrightarrow> \<exists>st'. pair_at rt app s (in_stage t0 w0 r0) (in_stage t1 w1 r1) st' x (Finished (Done v)) \<and>
      log_open app (access_log_line t1 r1 app v) st'"
proof -
  obtain st1 where c: "create_access_log app st = (LogWrite, st1)" "log_open app [] st1"
    by (rule create_access_log_open [OF assms(1)])
  have w: "log_open app line (write_access_log line app st1)" for line
    using write_access_log_open [OF c(2), of line] by simp
  show "\<exists>st'. pair_at rt app s (in_stage t0 w0 r0) (in_stage t1 w1 r1) st' (Finished (Done v)) y \<and>
      log_open app (access_log_line t0 r0 app v) st'" if "x = Creating v"
    using pair_at_step(1) [OF pair_at_step(1) [OF assms(2,3)] assms(3) task_step_stages(1)] task_step_stages(2) [OF c(1)] w that by blast
  show "\<exists>st'. pair_at rt app s (in_stage t0 w0 r0) (in_stage t1 w1 r1) st' x (Finished (Done v)) \<and>
      log_open app (access_log_line t1 r1 app v) st'" if "y = Creating v"
    using pair_at_step(2) [OF pair_at_step(2) [OF assms(2,3)] assms(3) task_step_stages(1)] task_step_stages(2) [OF c(1)] w that by blast
qed

text \<open>C25: two requests that arrive together can lose a line of the access log. For any two requests the server answers there
  is an interleaving in which both find no log, both create it, and the second creation throws the line of the first away:
  both are answered and finished, the log holds the second line only.\<close>

theorem access_log_race:
  assumes "writable app fs"
    and "fst (mux_ServeHTTP rt fs app (wrap_response w0) r0 root_logger) = Done x0"
    and "fst (mux_ServeHTTP rt fs app (wrap_response w1) r1 root_logger) = Done x1"
  shows "\<exists>es s. server_run rt app (startHttpServer app fs l) es s \<and> requests_of es = [(t0, w0, r0), (t1, w1, r1)] \<and>
    map tk_stage (tasks s) = [Finished (Done x0), Finished (Done x1)] \<and>
    log_bytes app (srv s) = Some (map byte_of_char (access_log_line t1 r1 app x1))"
proof -
  let ?s = "startHttpServer app fs l" and ?a = "in_stage t0 w0 r0" and ?b = "in_stage t1 w1 r1"
  have p: "srv_phase ?s = Serving" "tasks ?s = []" by (simp_all add: startHttpServer_def)
  have "AccessLogPath app \<noteq> []" using assms(1) by (simp add: writable_def)
  then obtain st where st: "pair_at rt app ?s ?a ?b st (Creating x0) (Creating x1)" "srv_fs st = fs"
    by (rule pair_creating [OF _ assms(2,3)])
  then obtain st1 where st1: "pair_at rt app ?s ?a ?b st1 (Finished (Done x0)) (Creating x1)" "writable app (srv_fs st1)"
    using create_and_write(1) [OF _ st(1) p(1) refl] assms(1) by (auto simp: log_open_def)
  then obtain st2 where st2: "pair_at rt app ?s ?a ?b st2 (Finished (Done x0)) (Finished (Done x1))"
    "log_open app (access_log_line t1 r1 app x1) st2"
    using create_and_write(2) [OF _ st1(1) p(1) refl] by blast
  then obtain es where run: "server_run rt app ?s es (?s\<lparr>srv := st2, tasks := [?a (Finished (Done x0)), ?b (Finished (Done x1))]\<rparr>)"
    by (auto simp: pair_at_def)
  moreover have "requests_of es = [(t0, w0, r0), (t1, w1, r1)]"
    using run_requests [OF run] p(2) by (simp add: request_of_def in_stage_def accept_task_def)
  ultimately show ?thesis using st2(2) by (force simp: log_open_def)
qed

definition info_request :: Request where
  "info_request = request_example\<lparr>Method := ''GET'', URL_Path := ''/info'', EscapedPath := ''/info'', RawQuery := []\<rparr>"

definition logging_config :: AppConfig where
  "logging_config = config_example\<lparr>AccessLogPath := ''/log''\<rparr>"

lemma info_answered:
  "\<exists>x. \<forall>l. fst (mux_ServeHTTP runtime_example server_fs logging_config (wrap_response no_response) info_request l) = Done x"
proof -
  have "match_endpoint ''/info'' = Some Info" by code_simp
  then show ?thesis
    by (simp add: mux_match info_request_def endpoint_methods_def handle_endpoint_def handleVersionRequest_def logged_write_fst)
qed

lemma logging_config_writable: "writable logging_config server_fs"
  by (simp add: writable_def logging_config_def server_fs_def)

theorem access_log_race_witness:
  "\<exists>es s line. server_run runtime_example logging_config (startHttpServer logging_config server_fs root_logger) es s \<and>
     requests_of es = [(''one'', no_response, info_request), (''two'', no_response, info_request)] \<and>
     log_bytes logging_config (srv s) = Some (map byte_of_char line)"
proof -
  obtain x where "fst (mux_ServeHTTP runtime_example server_fs logging_config (wrap_response no_response) info_request root_logger) = Done x"
    using info_answered by blast
  from access_log_race [OF logging_config_writable this this, of root_logger "''one''" "''two''"] show ?thesis by blast
qed

lemma info_run:
  obtains es s where "server_run runtime_example logging_config (startHttpServer logging_config server_fs root_logger) es s"
    and "\<exists>x. map tk_stage (tasks s) = [Finished (Done x)]" and "requests_of es = [(''now'', no_response, info_request)]"
    and "srv_phase s = Serving"
proof -
  let ?s = "startHttpServer logging_config server_fs root_logger"
  obtain x where x: "fst (mux_ServeHTTP runtime_example server_fs logging_config (wrap_response no_response) info_request
      (rootLogger (srv ?s))) = Done x"
    using info_answered by blast
  obtain h st where m: "AccessLogMiddleware runtime_example logging_config ''now'' no_response info_request (srv ?s) = (h, st)"
    by fastforce
  have "h = Done x"
    using m x by (auto simp: AccessLogMiddleware_def startHttpServer_def split: prod.splits)
  with serial_request [OF m] have "serial runtime_example logging_config ?s ''now'' no_response info_request (Finished (Done x)) st"
    by (simp add: startHttpServer_def)
  then obtain es where run: "server_run runtime_example logging_config ?s es
      (?s\<lparr>srv := st, tasks := tasks ?s @ [in_stage ''now'' no_response info_request (Finished (Done x))]\<rparr>)"
    by (auto simp: serial_def)
  then show thesis
    using run_requests [OF run] by (intro that [OF run]) (simp_all add: startHttpServer_def request_of_def in_stage_def accept_task_def)
qed



section \<open>Shutdown\<close>

fun stage_weight :: "stage \<Rightarrow> nat" where
  "stage_weight Handling = 4"
| "stage_weight (Logging w) = 3"
| "stage_weight (Creating w) = 2"
| "stage_weight (Writing w) = 1"
| "stage_weight (Finished h) = 0"

definition drain_weight :: "server \<Rightarrow> nat" where
  "drain_weight s =
     (if is_stopped s then 0 else Suc (sum_list (map (\<lambda>t. stage_weight (tk_stage t)) (tasks s))))"

lemma task_step_weight: "task_step rt app t st = Some (stg, st') \<Longrightarrow> stage_weight stg < stage_weight (tk_stage t)"
  by (auto simp: task_step_def check_access_log_def create_access_log_def split: stage.splits prod.splits handled.splits outcome.splits if_splits)

lemma sum_list_update_less:
  "i < length xs \<Longrightarrow> f x < f (xs ! i) \<Longrightarrow> sum_list (map f (xs[i := x])) < (sum_list (map f xs) :: nat)"
  by (induction xs arbitrary: i) (auto split: nat.splits)

lemma drain_step:
  assumes "srv_phase s \<noteq> Serving" and "server_step rt app s e s'"
  shows "drain_weight s' < drain_weight s \<and> srv_phase s' \<noteq> Serving \<and> map request_of (tasks s') = map request_of (tasks s) \<and>
    (srv_phase s' = srv_phase s \<or> e = DeadlineExceeded \<or> (\<exists>r. srv_phase s = Draining r \<and> srv_phase s' = Stopped r))"
  using assms(2)
proof cases
  case (runs i t stg st)
  then have "map request_of (tasks s') = map request_of (tasks s)"
    by (simp add: map_update request_of_def list_update_same_conv)
  with runs assms(1) show ?thesis
    by (auto simp: drain_weight_def is_stopped_def sum_list_update_less [where f = "\<lambda>t. stage_weight (tk_stage t)"] task_step_weight)
qed (use assms(1) in \<open>auto simp: drain_weight_def is_stopped_def\<close>)

lemma drain_run:
  assumes "server_run rt app s es s'" and "srv_phase s = Draining result"
  shows "srv_phase s' \<noteq> Serving \<and> drain_weight s' + length es \<le> drain_weight s \<and>
    map request_of (tasks s') = map request_of (tasks s) \<and>
    (srv_phase s' \<in> {Draining result, Stopped result} \<or> is_stopped s' \<and> DeadlineExceeded \<in> set es)"
  using assms
proof (induction rule: server_run.induct)
  case (run_snoc s es s' e s'')
  then have s': "srv_phase s' \<noteq> Serving" by blast
  from run_snoc.hyps(2) have "is_stopped s'' \<or> \<not> is_stopped s'"
    by cases (auto simp: is_stopped_def split: phase.splits)
  moreover from run_snoc.hyps(2) have "is_stopped s''" if "e = DeadlineExceeded"
    using that by cases (auto simp: is_stopped_def)
  ultimately show ?case using run_snoc drain_step [OF s' run_snoc.hyps(2)] by (auto simp: is_stopped_def)
qed simp

lemma task_step_progress:
  assumes "same_reads app fs (srv_fs st)" and "alone rt app fs t \<noteq> Hangs" and "\<not> is_finished t"
  shows "\<exists>stg st'. task_step rt app t st = Some (stg, st')"
proof (cases "tk_stage t")
  case Handling
  obtain h l where m: "mux_ServeHTTP rt (srv_fs st) app (wrap_response (tk_writer t)) (tk_request t) (rootLogger st) = (h, l)"
    by fastforce
  then have "alone rt app fs t = h"
    unfolding alone_def same_reads_mux [OF assms(1), symmetric] by (metis mux_logger fst_conv)
  with assms(2) Handling m show ?thesis by (cases h) (auto simp: task_step_def)
qed (use assms(3) in \<open>auto simp: task_step_def is_finished_def split: prod.splits\<close>)

lemma drain_progress:
  assumes "server_ok app fs s" and "AccessLogPath app \<notin> read_paths app \<or> AccessLogPath app = []"
    and "\<forall>t\<in>set (tasks s). alone rt app fs t \<noteq> Hangs" and "srv_phase s = Draining result"
  shows "\<exists>e s'. e \<noteq> DeadlineExceeded \<and> server_step rt app s e s'"
proof (cases "all_finished s")
  case True
  then have "server_step rt app s Drained (s\<lparr>srv_phase := Stopped result\<rparr>)" by (rule drained [OF assms(4)])
  then show ?thesis by blast
next
  case False
  then obtain i where i: "i < length (tasks s)" "\<not> is_finished (tasks s ! i)"
    by (auto simp: all_finished_def list_all_length)
  then obtain stg st where "task_step rt app (tasks s ! i) (srv s) = Some (stg, st)"
    using task_step_progress [OF server_ok_reads [OF assms(1,2)], of rt "tasks s ! i"] assms(3) by auto
  then show ?thesis using runs [OF _ i(1) refl] assms(4) by (fastforce simp: is_stopped_def)
qed

lemma drain_weight_bound: "drain_weight s \<le> 4 * length (tasks s) + 1"
proof -
  have "stage_weight x \<le> 4" for x by (cases x) simp_all
  then have "sum_list (map (\<lambda>t. stage_weight (tk_stage t)) ts) \<le> 4 * length ts" for ts :: "task list"
    by (induction ts) (simp_all add: add_mono)
  then show ?thesis by (simp add: drain_weight_def)
qed

lemma alone_request: "alone rt app fs t = (case request_of t of (start, w, r) \<Rightarrow> fst (mux_ServeHTTP rt fs app (wrap_response w) r root_logger))"
  by (simp add: alone_def request_of_def)



end
