(* ===== verification/Parser_Sound.thy ===== *)
theory Parser_Sound
  imports File_Properties
begin

text \<open>
  What a header that the parser accepts looks like, whatever the input was. The readers of fixed-width
  integers consume exactly the encoding of what they return (locale \<open>strict_codec\<close>), so the bytes consumed
  are the preamble and the index of the result followed by a data store; every payload is the
  part of the store its entry points at, fits its format and count, and overlaps no other.
\<close>

section \<open>Readers that consume what they return\<close>

locale strict_codec = codec +
  assumes get_feeds: "get r = Ok (x, r') \<Longrightarrow> feeds r (enc x) r'"
begin

lemma get_list_feeds:
  "read_times get n r = Ok (xs, r') \<Longrightarrow> length xs = n \<and> feeds r (concat (map enc xs)) r'"
proof (induction n arbitrary: r xs)
  case 0
  then show ?case by (simp add: feeds_refl)
next
  case (Suc n)
  then obtain x ys r1 where x: "get r = Ok (x, r1)" and ys: "read_times get n r1 = Ok (ys, r')" and xs: "xs = x # ys"
    by (auto elim!: obind_OkE)
  from feeds_trans [OF get_feeds [OF x]] Suc.IH [OF ys] xs show ?case by auto
qed

text \<open>A successful read of \<open>n\<close> items needs \<open>n\<close> times the width.\<close>

lemma get_list_room: "read_times get n r = Ok (xs, r') \<Longrightarrow> width * n \<le> length (rest r)"
  using get_list_feeds [of n r xs r'] feeds_rest [of r "concat (map enc xs)" r'] put_get_list(3) [of xs] by auto

end

lemma split16:
  fixes a b :: u8
  shows "ucast (drop_bit 8 (push_bit 8 (ucast a) OR ucast b :: u16)) = a" and "ucast (push_bit 8 (ucast a) OR ucast b :: u16) = b"
  by (rule bit_word_eqI; auto simp: bit_simps dest: bit_imp_le_length)+

lemma split32:
  fixes a b :: u16
  shows "ucast (drop_bit 16 (push_bit 16 (ucast a) OR ucast b :: u32)) = a" and "ucast (push_bit 16 (ucast a) OR ucast b :: u32) = b"
  by (rule bit_word_eqI; auto simp: bit_simps dest: bit_imp_le_length)+

lemma split64:
  fixes a b :: u32
  shows "ucast (drop_bit 32 (push_bit 32 (ucast a) OR ucast b :: u64)) = a" and "ucast (push_bit 32 (ucast a) OR ucast b :: u64) = b"
  by (rule bit_word_eqI; auto simp: bit_simps dest: bit_imp_le_length)+

interpretation strict_short: strict_codec writeShort readShort be16 2
proof unfold_locales
  fix r x r' assume "readShort r = Ok (x, r')"
  then obtain buf where f: "FillBuffer 2 r = Ok (buf, r')" and x: "x = push_bit 8 (ucast (buf ! 0)) OR ucast (buf ! 1)"
    by (auto simp: readShort_def elim!: obind_OkE)
  from FillBuffer_result [OF f] have "buf = [buf ! 0, buf ! 1]" and "feeds r buf r'"
    by (auto simp: numeral_2_eq_2 length_Suc_conv)
  moreover have "be16 x = [buf ! 0, buf ! 1]" unfolding x be16_def split16 ..
  ultimately show "feeds r (be16 x) r'" by simp
qed

interpretation strict_word: strict_codec writeWord readWord be32 4
proof unfold_locales
  fix r x r' assume "readWord r = Ok (x, r')"
  then obtain high r1 low where "readShort r = Ok (high, r1)" "readShort r1 = Ok (low, r')"
    and x: "x = push_bit 16 (ucast high) OR ucast low"
    by (auto simp: readWord_def elim!: obind_OkE)
  then have "feeds r (be16 high @ be16 low) r'" using strict_short.get_feeds feeds_trans by blast
  then show "feeds r (be32 x) r'" unfolding x be32_def split32 .
qed

interpretation strict_long: strict_codec writeLongWord readLongWord be64 8
proof unfold_locales
  fix r x r' assume "readLongWord r = Ok (x, r')"
  then obtain high r1 low where "readWord r = Ok (high, r1)" "readWord r1 = Ok (low, r')"
    and x: "x = push_bit 32 (ucast high) OR ucast low"
    by (auto simp: readLongWord_def elim!: obind_OkE)
  then have "feeds r (be32 high @ be32 low) r'" using strict_word.get_feeds feeds_trans by blast
  then show "feeds r (be64 x) r'" unfolding x be64_def split64 .
qed

lemma readAhead_loop_feeds:
  "readAhead_loop cap n r = Ok (m, r') \<Longrightarrow> \<exists>bs. feeds r bs r' \<and> length bs + m = n"
proof (induction cap n r arbitrary: m r' rule: readAhead_loop.induct)
  case (1 cap n r)
  show ?case
  proof (cases "0 < n \<and> 0 < cap")
    case False
    with "1.prems" have "m = n" "r' = r" by (auto simp: readAhead_loop.simps [of cap n r])
    then show ?thesis using feeds_refl by (intro exI [of _ "[]"]) simp
  next
    case True
    define c where "c = (if n < cap then n else cap)"
    obtain bs e r1 where rd: "rd_read r c = (bs, e, r1)" by (cases "rd_read r c") auto
    note f = rd_read_feeds [OF rd]
    have cn: "c \<le> n" by (simp add: c_def)
    show ?thesis
    proof (cases "length bs < c")
      case True
      with "1.prems" \<open>0 < n \<and> 0 < cap\<close> rd have "m = n - length bs" "r' = r1"
        by (auto simp: readAhead_loop.simps [of cap n r] c_def [symmetric] Let_def split: if_splits)
      with f cn show ?thesis by auto
    next
      case False
      with "1.prems" \<open>0 < n \<and> 0 < cap\<close> rd have "readAhead_loop c (n - length bs) r1 = Ok (m, r')" "e = None \<or> e = Some EOF"
        by (auto simp: readAhead_loop.simps [of cap n r] c_def [symmetric] Let_def split: if_splits)
      with "1.IH" [OF \<open>0 < n \<and> 0 < cap\<close> c_def rd [symmetric] refl refl, of m r'] False
      obtain ds where "feeds r1 ds r'" "length ds + m = n - length bs" by auto
      with f feeds_trans [of r bs r1 ds r'] cn show ?thesis by (intro exI [of _ "bs @ ds"]) auto
    qed
  qed
qed

lemma readAhead_feeds: "readAhead n r = Ok r' \<Longrightarrow> \<exists>bs. feeds r bs r' \<and> length bs = unat n"
  using feeds_refl [of r]
  by (auto simp: readAhead_def split: if_splits elim!: obind_OkE dest!: readAhead_loop_feeds dest: FillBuffer_result) 

section \<open>Index entries\<close>

lemma parseIndexEntry_feeds:
  "parseIndexEntry isMain r = Ok (e, r') \<Longrightarrow> feeds r (entry_bytes e) r' \<and> isMainHeaderEntry e = isMain \<and> payload e = []"
  unfolding parseIndexEntry_def entry_bytes_def
  by (auto elim!: obind_OkE dest!: strict_word.get_feeds intro!: feeds_trans)

lemma parse_entries_feeds:
  "read_times (parseIndexEntry isMain) n r = Ok (es, r') \<Longrightarrow>
   length es = n \<and> feeds r (concat (map entry_bytes es)) r' \<and> (\<forall>e\<in>set es. isMainHeaderEntry e = isMain \<and> payload e = [])"
proof (induction n arbitrary: r es)
  case 0
  then show ?case by (simp add: feeds_refl)
next
  case (Suc n)
  then obtain e fs r1 where e: "parseIndexEntry isMain r = Ok (e, r1)"
    and fs: "read_times (parseIndexEntry isMain) n r1 = Ok (fs, r')" and es: "es = e # fs"
    by (auto elim!: obind_OkE)
  from parseIndexEntry_feeds [OF e] Suc.IH [OF fs] feeds_trans [of r "entry_bytes e" r1] es show ?case by auto
qed

section \<open>Payloads\<close>

lemma read_strings_terminated:
  "read_strings n i r = Ok (e, r') \<Longrightarrow> payload i = [] \<or> terminated m (payload i) \<Longrightarrow> (payload i = [] \<Longrightarrow> m = 0) \<Longrightarrow>
   payload e = [] \<or> terminated (m + n) (payload e)"
proof (induction n arbitrary: i r m)
  case (Suc n)
  then obtain s r1 where s: "readNullTerminatedString r = (s, Ok r1)"
    and more: "read_strings n (i\<lparr>payload := payload i @ s\<rparr>) r1 = Ok (e, r')"
    by (auto split: prod.splits outcome.splits)
  have "terminated 1 s" by (rule readNullTerminatedString_feeds(2) [OF s])
  with Suc.prems have "terminated (Suc m) (payload i @ s)" by (auto simp: terminated_def count_list_0_iff)
  with Suc.IH [OF more, of "Suc m"] show ?case by (auto simp: terminated_def)
qed auto

lemma read_payload_length: "read_payload n i r = Ok (e, r') \<Longrightarrow> length (payload e) = unat n"
  by (auto simp: read_payload_def readByteArray_def elim!: obind_OkE dest: FillBuffer_result)

lemma word_product_fits:
  assumes "unat (n * of_nat k :: u32) \<ge> k * unat n" and "k < 9"
  shows "unat (n * of_nat k :: u32) = k * unat n" and "k * unat n < 4294967296"
proof -
  have "unat (n * of_nat k :: u32) = (k * unat n) mod 4294967296"
    using assms(2) by (simp add: unat_word_ariths unat_of_nat_u32 mult.commute)
  moreover from this have "(k * unat n) mod 4294967296 = k * unat n"
    using assms(1) by (metis le_antisym mod_less_eq_dividend)
  ultimately show "unat (n * of_nat k :: u32) = k * unat n" "k * unat n < 4294967296"
    by (simp, metis mod_less_divisor zero_less_numeral)
qed

text \<open>The size of an integer payload is computed modulo 4 GiB; that all items could be read shows that it did not wrap.\<close>

lemma int_items_fit:
  assumes "strict_codec put get enc k" and "is_ok (int_items get e)" and "k < 9"
    and "length (payload e) = unat (dataItemCnt e * of_nat k)"
  shows "length (payload e) = k * unat (dataItemCnt e)" and "k * unat (dataItemCnt e) < 4294967296"
proof -
  obtain xs r where "read_times get (unat (dataItemCnt e)) (NewArrayReader (payload e)) = Ok (xs, r)"
    using assms(2) by (auto simp: int_items_def is_ok_iff split: outcome.splits)
  from strict_codec.get_list_room [OF assms(1) this] have "k * unat (dataItemCnt e) \<le> unat (dataItemCnt e * of_nat k)"
    using assms(4) by (simp add: NewArrayReader_def)
  from word_product_fits [OF this assms(3)] assms(4)
  show "length (payload e) = k * unat (dataItemCnt e)" and "k * unat (dataItemCnt e) < 4294967296" by simp_all
qed

lemma fixed_payload_ok:
  assumes "formatType e \<in> {1, 2, 3, 4, 5, 7}" and "length (payload e) = unat (fixed_size e)" and "payload e \<noteq> []"
    and "is_ok (PayloadAsPrettyString e)"
  shows "payload_ok e"
proof -
  from assms(1) consider "formatType e \<in> {1, 2, 7}" | "formatType e = 3" | "formatType e = 4" | "formatType e = 5" by blast
  then show ?thesis
  proof cases
    case 1
    with assms show ?thesis by (auto simp: payload_ok_def fixed_size_def Let_def)
  next
    case 2
    with int_items_fit [OF strict_short.strict_codec_axioms, of e] assms show ?thesis
      by (simp add: payload_ok_def fixed_size_def PayloadAsPrettyString_def Let_def)
  next
    case 3
    with int_items_fit [OF strict_word.strict_codec_axioms, of e] assms show ?thesis
      by (simp add: payload_ok_def fixed_size_def PayloadAsPrettyString_def Let_def)
  next
    case 4
    with int_items_fit [OF strict_long.strict_codec_axioms, of e] assms show ?thesis
      by (simp add: payload_ok_def fixed_size_def PayloadAsPrettyString_def Let_def)
  qed
qed

text \<open>A payload that was read and could be rendered is well-formed.\<close>

lemma populatePayload_ok:
  assumes "populatePayload i r = Ok (e, r')" and "payload i = []" and "payload e \<noteq> []" and "is_ok (IndexEntry_String e)"
  shows "payload_ok e"
proof -
  have pretty: "is_ok (PayloadAsPrettyString e)"
    using assms(4) by (auto simp: IndexEntry_String_def Let_def is_ok_iff elim!: obind_OkE)
  have e: "e = i\<lparr>payload := payload e\<rparr>" by (rule populatePayload_feeds(1) [OF assms(1,2)])
  have same: "formatType e = formatType i" "dataItemCnt e = dataItemCnt i"
    using arg_cong [OF e, of formatType] arg_cong [OF e, of dataItemCnt] by simp_all
  consider "formatType i \<in> {1, 2, 3, 4, 5, 7}" | "formatType i \<in> {8, 9}" | "formatType i = 6" | "formatType i = 0"
    using assms(1) by (auto simp: populatePayload_def split: if_splits)
  then show ?thesis
  proof cases
    case 1
    then have "length (payload e) = unat (fixed_size i)"
      using assms(1) read_payload_length by (auto simp: populatePayload_fixed)
    moreover have "fixed_size e = fixed_size i" by (simp add: fixed_size_def same)
    ultimately show ?thesis using fixed_payload_ok 1 assms(3) pretty same by simp
  next
    case 2
    then have "read_strings (unat (dataItemCnt i)) i r = Ok (e, r')" using assms(1) by (simp add: populatePayload_strings)
    from read_strings_terminated [OF this, of 0] assms(2,3) have "terminated (unat (dataItemCnt i)) (payload e)" by simp
    with 2 same assms(3) show ?thesis by (auto simp: payload_ok_def Let_def)
  next
    case 3
    obtain p res where p: "readNullTerminatedString r = (p, res)" by force
    with 3 assms have "res = Ok r'" "payload e = p"
      by (auto simp: populatePayload_def Let_def split: if_splits elim!: obind_OkE)
    with p readNullTerminatedString_feeds(2) [of r p r'] have t: "terminated 1 (payload e)" by simp
    then have "length (parseNullTerminatedStrings (payload e)) = 1"
      by (simp add: length_parseNullTerminatedStrings terminated_def)
    with pretty 3 same have "unat (dataItemCnt e) = 1"
      by (auto simp: PayloadAsPrettyString_def Let_def is_ok_iff split: if_splits)
    with t 3 same assms(3) show ?thesis by (simp add: payload_ok_def Let_def)
  next
    case 4
    with assms(1-3) show ?thesis by (simp add: populatePayload_def)
  qed
qed

text \<open>An entry whose payload is well-formed and is the part of the data store the entry points at.\<close>

definition placed :: "bytes \<Rightarrow> IndexEntry \<Rightarrow> bool" where
  "placed store e \<longleftrightarrow>
     payload_ok e \<and> unat (offset e) + length (payload e) \<le> length store \<and>
     payload e = take (length (payload e)) (drop (unat (offset e)) store)"

lemma feeds_array_take:
  assumes "feeds (arrayReader src pos) bs r'"
  shows "r' = arrayReader src (pos + length bs) \<and> pos + length bs \<le> max pos (length src) \<and> bs = take (length bs) (drop pos src)"
proof -
  have r': "r' = arrayReader src (pos + length bs)" using feeds_array [OF assms] .
  have "drop pos src = bs @ drop (pos + length bs) src" using feeds_rest [OF assms] r' by simp
  moreover from arg_cong [OF this, of length] have "pos + length bs \<le> max pos (length src)" by (cases bs) auto
  ultimately show ?thesis using r' by (metis append_eq_conv_conj)
qed

lemma parse_payload_placed:
  assumes st: "parse_payload isMain ds sz (es, sr, arrayReader store pos) i = Ok (es', sr', s')"
    and e: "payload (es ! i) = []" and pos: "pos \<le> length store" "length store < 4294967296"
  obtains p where "es' = es[i := (es ! i)\<lparr>payload := p\<rparr>]" and "placed store ((es ! i)\<lparr>payload := p\<rparr>)"
    and "pos \<le> unat (offset (es ! i))" and "s' = arrayReader store (unat (offset (es ! i)) + length p)"
proof -
  let ?e = "es ! i" and ?r = "arrayReader store pos"
  let ?o = "unat (offset ?e)"
  have p32: "pos < 4294967296" using pos by simp
  note cmp = store_position(1,2) [OF p32, of ?e]
  have le: "pos \<le> ?o"
    using st by (auto simp: parse_payload_def Let_def cmp split: if_splits)
  note skip = store_position(3) [OF p32 le]
  obtain s1 f s2 str where s1: "(if rd_offset ?r < ucast (offset ?e) then readAhead (ucast (ucast (offset ?e) - rd_offset ?r)) ?r else Ok ?r) = Ok s1"
    and s2: "populatePayload ?e s1 = Ok (f, s2)" and str: "IndexEntry_String f = Ok str" and ne: "payload f \<noteq> []"
    and res: "es' = es[i := f]" "s' = s2"
    using st by (auto simp: parse_payload_def Let_def split: if_splits elim!: obind_OkE)
  have s1': "s1 = arrayReader store ?o \<and> ?o \<le> length store"
  proof (cases "pos < ?o")
    case True
    then have "readAhead (ucast (ucast (offset ?e) - of_nat pos :: u64)) ?r = Ok s1"
      using s1 by (simp add: cmp)
    from readAhead_feeds [OF this] obtain bs where "feeds ?r bs s1" "length bs = ?o - pos" by (auto simp: skip)
    with feeds_array_take [of store pos bs s1] True pos show ?thesis by auto
  next
    case False
    with le have "pos = ?o" by simp
    with s1 pos cmp show ?thesis by simp
  qed
  have f: "f = ?e\<lparr>payload := payload f\<rparr>" "feeds (arrayReader store ?o) (payload f) s2"
    using populatePayload_feeds [OF s2 e] s1' by simp_all
  have "payload_ok f" using populatePayload_ok [OF s2 e ne] str by (simp add: is_ok_iff)
  with f(1) have ok: "payload_ok (?e\<lparr>payload := payload f\<rparr>)" by simp
  show thesis
  proof (rule that [of "payload f"])
    show "es' = es[i := ?e\<lparr>payload := payload f\<rparr>]" using res(1) f(1) by simp
    show "placed store (?e\<lparr>payload := payload f\<rparr>)"
      using ok feeds_array_take [OF f(2)] s1' by (simp add: placed_def)
    show "pos \<le> ?o" by (rule le)
    show "s' = arrayReader store (?o + length (payload f))" using feeds_array_take [OF f(2)] res(2) by simp
  qed
qed

definition entry_end :: "IndexEntry \<Rightarrow> nat" where
  "entry_end e = unat (offset e) + length (payload e)"

lemma parse_payloads_placed:
  assumes "length store < 4294967296"
  shows "\<lbrakk>ofold (parse_payload isMain ds sz) (es, sr, arrayReader store pos) idxs = Ok (es', sr', s');
     distinct idxs; set idxs \<subseteq> {..<length es}; \<forall>i\<in>set idxs. payload (es ! i) = []; pos \<le> length store\<rbrakk> \<Longrightarrow>
    length es' = length es \<and> (\<forall>i. i \<notin> set idxs \<longrightarrow> es' ! i = es ! i) \<and>
    (\<forall>i\<in>set idxs. strip (es' ! i) = strip (es ! i) \<and> placed store (es' ! i) \<and> pos \<le> unat (offset (es' ! i))) \<and>
    sorted_wrt (\<lambda>i j. entry_end (es' ! i) \<le> unat (offset (es' ! j))) idxs"
proof (induction idxs arbitrary: es sr pos)
  case Nil
  then show ?case by simp
next
  case (Cons i idxs)
  obtain es1 sr1 s1 where 1: "parse_payload isMain ds sz (es, sr, arrayReader store pos) i = Ok (es1, sr1, s1)"
    and 2: "ofold (parse_payload isMain ds sz) (es1, sr1, s1) idxs = Ok (es', sr', s')"
    using Cons.prems(1) by (auto elim!: obind_OkE)
  obtain p where p: "es1 = es[i := (es ! i)\<lparr>payload := p\<rparr>]" "placed store ((es ! i)\<lparr>payload := p\<rparr>)"
    "pos \<le> unat (offset (es ! i))" "s1 = arrayReader store (unat (offset (es ! i)) + length p)"
    by (rule parse_payload_placed [OF 1 _ Cons.prems(5) assms]) (use Cons.prems(4) in auto)
  let ?pos = "unat (offset (es ! i)) + length p"
  have i: "i < length es" "i \<notin> set idxs" using Cons.prems by auto
  have pre: "\<forall>j\<in>set idxs. payload (es1 ! j) = []" "?pos \<le> length store"
    using Cons.prems(4) i p(1,2) by (auto simp: nth_list_update placed_def)
  have IH: "length es' = length es1 \<and> (\<forall>j. j \<notin> set idxs \<longrightarrow> es' ! j = es1 ! j) \<and>
    (\<forall>j\<in>set idxs. strip (es' ! j) = strip (es1 ! j) \<and> placed store (es' ! j) \<and> ?pos \<le> unat (offset (es' ! j))) \<and>
    sorted_wrt (\<lambda>i j. entry_end (es' ! i) \<le> unat (offset (es' ! j))) idxs"
    using Cons.IH [OF 2 [unfolded p(4)] _ _ pre] Cons.prems(2,3) p(1) by simp
  have ei: "es' ! i = (es ! i)\<lparr>payload := p\<rparr>" using IH i p(1) by simp
  have "es' ! j = es ! j" if "j \<notin> set (i # idxs)" for j using IH that p(1) by simp
  moreover have "strip (es' ! j) = strip (es ! j) \<and> pos \<le> unat (offset (es' ! j))" if "j \<in> set idxs" for j
  proof -
    have "es1 ! j = es ! j" using p(1) i that by (metis nth_list_update_neq)
    then show ?thesis using IH that p(3) by (metis le_add1 le_trans)
  qed
  ultimately show ?case using IH p ei i by (auto simp: entry_end_def strip_def)
qed

lemma sortedEntryIndices_all: "set (sortedEntryIndices es) = {..<length es}" "distinct (sortedEntryIndices es)"
  by (auto simp: sortedEntryIndices_def)

lemma sorted_wrt_symmetric_pairs:
  assumes "sorted_wrt R xs" and "x \<in> set xs" and "y \<in> set xs" and "x \<noteq> y"
  shows "R x y \<or> R y x"
  using assms by (induction xs) auto

text \<open>The parser's last phase turns stripped entries into placed ones that do not overlap.\<close>

lemma parse_store:
  assumes "ofold (parse_payload isMain ds sz) (es, None, NewArrayReader store) (sortedEntryIndices es) = Ok (es', sr, s')"
    and "\<forall>e\<in>set es. payload e = []" and "length store < 4294967296"
  shows "map strip es' = es" and "\<forall>e\<in>set es'. placed store e" and "sorted_wrt apart es'"
proof -
  have st: "length es' = length es \<and>
    (\<forall>i\<in>{..<length es}. strip (es' ! i) = strip (es ! i) \<and> placed store (es' ! i)) \<and>
    sorted_wrt (\<lambda>i j. entry_end (es' ! i) \<le> unat (offset (es' ! j))) (sortedEntryIndices es)"
    using parse_payloads_placed [OF assms(3), of isMain ds sz es None 0 "sortedEntryIndices es" es' sr s']
      assms(1,2) sortedEntryIndices_all [of es] by (auto simp: NewArrayReader_def)
  have "strip (es ! i) = es ! i" if "i < length es" for i
    using assms(2) that by (simp add: strip_def)
  with st show "map strip es' = es" by (intro nth_equalityI) auto
  show "\<forall>e\<in>set es'. placed store e" using st by (auto simp: in_set_conv_nth)
  show "sorted_wrt apart es'"
    unfolding sorted_wrt_iff_nth_less
  proof (intro allI impI)
    fix i j assume ij: "i < j" "j < length es'"
    then have "i \<in> set (sortedEntryIndices es)" "j \<in> set (sortedEntryIndices es)" "i \<noteq> j"
      using st sortedEntryIndices_all(1) [of es] by auto
    from sorted_wrt_symmetric_pairs [OF st [THEN conjunct2, THEN conjunct2] this] show "apart (es' ! i) (es' ! j)"
      by (auto simp: apart_def entry_end_def)
  qed
qed

text \<open>What holds of every accepted header, with the data store it was read from.\<close>

definition header_typed :: "bool \<Rightarrow> bytes \<Rightarrow> RpmHeader \<Rightarrow> bool" where
  "header_typed isMain store h \<longleftrightarrow>
     Magic h = headerMagic \<and> length (reserved h) = 4 \<and> IsMainHeader h = isMain \<and>
     unat (indexEntryCount h) = length (IndexEntries h) \<and> unat (storeSizeInBytes h) = length store \<and>
     (\<forall>e\<in>set (IndexEntries h). isMainHeaderEntry e = isMain \<and> placed store e) \<and> sorted_wrt apart (IndexEntries h)"

lemma parse_body_sound:
  assumes "parse_body cap isMain start s = Ok (h, s')"
  shows "\<exists>store. header_typed isMain store h \<and>
    feeds s (preamble_bytes h @ concat (map entry_bytes (IndexEntries h)) @ store) s'"
proof -
  obtain magic s1 ver s2 resv s3 cnt s4 sz s5 es s6 store es' sr st where
    m: "FillBuffer 3 s = Ok (magic, s1)" "magic = headerMagic" and v: "readByte s1 = Ok (ver, s2)" and rs: "FillBuffer 4 s2 = Ok (resv, s3)"
    and c: "readWord s3 = Ok (cnt, s4)" and z: "readWord s4 = Ok (sz, s5)"
    and es: "read_times (parseIndexEntry isMain) (unat cnt) s5 = Ok (es, s6)"
    and d: "FillBuffer (unat sz) s6 = Ok (store, s')"
    and p: "ofold (parse_payload isMain (rd_offset s6) sz) (es, None, NewArrayReader store) (sortedEntryIndices es) = Ok (es', sr, st)"
    and h: "Magic h = magic" "version h = ver" "reserved h = resv" "indexEntryCount h = cnt" "storeSizeInBytes h = sz"
      "IsMainHeader h = isMain" "IndexEntries h = es'"
    using assms by (auto simp: parse_body_def split: if_splits outcome.splits elim!: obind_OkE)
  note E = parse_entries_feeds [OF es]
  have len: "length store < 4294967296" using FillBuffer_result(1) [OF d] unat_lt_u32 [of sz] by simp
  note S = parse_store [OF p _ len]
  have es': "map strip es' = es" "\<forall>e\<in>set es'. placed store e" "sorted_wrt apart es'" using S E by auto
  have n: "length es' = unat cnt" using es'(1) E by (metis length_map)
  have bytes: "concat (map entry_bytes es) = concat (map entry_bytes es')"
    unfolding es'(1) [symmetric] by (simp add: comp_def)
  have main: "isMainHeaderEntry e = isMain" if "e \<in> set es'" for e
  proof -
    have "strip e \<in> set es" using that es'(1) by (metis image_eqI list.set_map)
    with E show ?thesis by (auto simp: strip_def)
  qed
  have "feeds s (magic @ [ver] @ resv @ be32 cnt @ be32 sz @ concat (map entry_bytes es') @ store) s'"
    unfolding bytes [symmetric]
    by (rule feeds_trans [OF FillBuffer_result(2) [OF m(1)] feeds_trans [OF readByte_feeds [OF v]
        feeds_trans [OF FillBuffer_result(2) [OF rs] feeds_trans [OF strict_word.get_feeds [OF c]
        feeds_trans [OF strict_word.get_feeds [OF z] feeds_trans [OF _ FillBuffer_result(2) [OF d]]]]]]])
      (use E in blast)
  moreover have "header_typed isMain store h"
    using es' n main h m(2) FillBuffer_result(1) [OF rs] FillBuffer_result(1) [OF d] by (simp add: header_typed_def)
  ultimately show ?thesis using h by (auto simp: preamble_bytes_def)
qed

lemma advance_feeds:
  assumes "advanceToNext8ByteBoundary r = Ok r'"
  shows "\<exists>pad. feeds r pad r' \<and> length pad < 8"
proof -
  define q where "q = pad_to 8 (unat (rd_offset r))"
  have q: "q < 8" using pad_to_less [of 8 "unat (rd_offset r)"] by (simp add: q_def)
  have "CalcAlignmentByteCount (rd_offset r) 8 = Ok (of_nat q)"
    using CalcAlignmentByteCount_power [of 3 "rd_offset r"] by (simp add: q_def)
  then have "readAhead (ucast (of_nat q :: u8)) r = Ok r' \<or> r' = r"
    using assms by (auto simp: advanceToNext8ByteBoundary_def split: if_splits)
  moreover have "unat (of_nat q :: u8) = q" using q by (simp add: unsigned_of_nat take_bit_nat_eq_self_iff)
  then have "unat (ucast (of_nat q :: u8) :: u32) = q"
    unfolding unsigned_ucast_eq using q by (simp add: take_bit_nat_eq_self_iff)
  ultimately show ?thesis using readAhead_feeds [of _ r r'] feeds_refl [of r] q by force
qed

lemma feeds_digest:
  assumes "feeds (DigestReaderImpl r h) bs s"
  obtains r' where "s = DigestReaderImpl r' (h @ bs)" and "feeds r bs r'"
  using assms by (cases s) auto

lemma parseHeader_sound:
  assumes "parseHeader cap isMain s = Ok (h, s')"
  shows "\<exists>store pad. header_typed isMain store h \<and> length pad < 8 \<and>
    rest s = (preamble_bytes h @ concat (map entry_bytes (IndexEntries h)) @ store) @ pad @ rest s' \<and>
    (isMain \<longrightarrow> pad = [] \<and> Md5Digest h = preamble_bytes h @ concat (map entry_bytes (IndexEntries h)) @ store \<and>
       Sha1Digest h = Md5Digest h \<and> Sha256Digest h = Md5Digest h)"
proof (cases isMain)
  case True
  let ?s = "DigestReaderImpl (DigestReaderImpl (DigestReaderImpl s []) []) []"
  obtain g t where b: "parse_body cap True (rd_offset s) ?s = Ok (g, t)"
    and h: "h = g\<lparr>Md5Digest := GetDigest (GetDelegate (GetDelegate t)), Sha1Digest := GetDigest (GetDelegate t), Sha256Digest := GetDigest t\<rparr>"
      "s' = GetDelegate (GetDelegate (GetDelegate t))"
    using assms True by (auto simp: parseHeader_def NewDigestReaderImpl_def Let_def elim!: obind_OkE)
  obtain store where st: "header_typed True store g"
    "feeds ?s (preamble_bytes g @ concat (map entry_bytes (IndexEntries g)) @ store) t"
    using parse_body_sound [OF b] by blast
  let ?bs = "preamble_bytes g @ concat (map entry_bytes (IndexEntries g)) @ store"
  obtain t1 where t1: "t = DigestReaderImpl t1 ([] @ ?bs)" "feeds (DigestReaderImpl (DigestReaderImpl s []) []) ?bs t1"
    by (rule feeds_digest [OF st(2)])
  obtain t2 where t2: "t1 = DigestReaderImpl t2 ([] @ ?bs)" "feeds (DigestReaderImpl s []) ?bs t2" by (rule feeds_digest [OF t1(2)])
  obtain t3 where t3: "t2 = DigestReaderImpl t3 ([] @ ?bs)" "feeds s ?bs t3" by (rule feeds_digest [OF t2(2)])
  have "preamble_bytes h = preamble_bytes g" "IndexEntries h = IndexEntries g" "header_typed True store h"
    using st(1) by (simp_all add: h(1) preamble_bytes_def header_typed_def)
  moreover have "Md5Digest h = ?bs" "Sha1Digest h = ?bs" "Sha256Digest h = ?bs" "s' = t3"
    by (simp_all add: h t1(1) t2(1) t3(1))
  moreover have "rest s = ?bs @ rest s'" using feeds_rest [OF t3(2)] \<open>s' = t3\<close> by simp
  ultimately show ?thesis using True by (intro exI [of _ store] exI [of _ "[]"]) simp
next
  case False
  obtain t where b: "parse_body cap False (rd_offset s) s = Ok (h, t)" and a: "advanceToNext8ByteBoundary t = Ok s'"
    using assms False by (auto simp: parseHeader_def elim!: obind_OkE)
  obtain store where st: "header_typed False store h"
    "feeds s (preamble_bytes h @ concat (map entry_bytes (IndexEntries h)) @ store) t"
    using parse_body_sound [OF b] by blast
  obtain pad where "feeds t pad s'" "length pad < 8" using advance_feeds [OF a] by blast
  with st False feeds_rest [OF st(2)] feeds_rest [of t pad s'] show ?thesis
    by (intro exI [of _ store] exI [of _ pad]) simp
qed

text \<open>C9: a header that the parser accepts is well typed, whatever the input was. The bytes consumed are its
  preamble and its index, a data store of the announced size and, for the signature header, less than eight bytes of
  padding; every payload has the length or the terminators its format and count ask for, is the part of the store at its
  offset, and overlaps no other; and the digests of the main header cover exactly the bytes consumed.\<close>

theorem parseHeader_typed:
  assumes "parseHeader cap isMain s = Ok (h, s')"
  shows "\<exists>store pad. header_typed isMain store h \<and> length pad < 8 \<and>
    rest s = (preamble_bytes h @ concat (map entry_bytes (IndexEntries h)) @ store) @ pad @ rest s' \<and>
    (isMain \<longrightarrow> pad = [] \<and> Md5Digest h = preamble_bytes h @ concat (map entry_bytes (IndexEntries h)) @ store \<and>
       Sha1Digest h = Md5Digest h \<and> Sha256Digest h = Md5Digest h)"
  by (rule parseHeader_sound [OF assms])

theorem parseHeader_typed_witness:
  "\<exists>h' r' store. parseHeader id True (NewIOReaderWithOffset (NewArrayReader (header_bytes main_example @ [7]))) = Ok (h', r') \<and>
     header_typed True store h' \<and> Md5Digest h' = preamble_bytes h' @ concat (map entry_bytes (IndexEntries h')) @ store"
proof -
  let ?r = "NewIOReaderWithOffset (NewArrayReader (header_bytes main_example @ [7]))"
  have r: "end_error ?r = EOF" "rest ?r = header_bytes main_example @ [7]"
    by (simp_all add: NewIOReaderWithOffset_def NewArrayReader_def)
  have "IsMainHeader main_example" by (simp add: main_example_def)
  then obtain h' r' where "parseHeader id True ?r = Ok (h', r')"
    using parse_main_header_ok [OF main_example_wf _ r, of id] by metis
  with parseHeader_typed [OF this] show ?thesis by blast
qed

section \<open>Accepted files\<close>

lemma header_typed_payloads: "header_typed isMain store h \<Longrightarrow> \<forall>e\<in>set (IndexEntries h). payload_ok e"
  by (auto simp: header_typed_def placed_def)

lemma parsed_payloads:
  "parseHeader cap isMain s = Ok (h, s') \<Longrightarrow> \<forall>e\<in>set (IndexEntries h). payload_ok e"
  using parseHeader_sound [of cap isMain s h s'] header_typed_payloads by blast

text \<open>C28: a file that the parser accepted can be printed. Dumping its signature header always succeeds, and dumping
  its main header succeeds exactly when this has an entry.\<close>

theorem accepted_file_dumps:
  assumes "ParseRPM H cap md5 r = Ok (f, r')"
  shows "is_ok (DumpIndexEntries (SignatureHeader f) n compact) \<and>
    (is_ok (DumpIndexEntries (MainHeader f) n compact) \<longleftrightarrow> IndexEntries (MainHeader f) \<noteq> [])"
proof -
  obtain lead r1 sig r2 hdr r3 i where p: "parseHeader cap False r1 = Ok (sig, r2)" "parseHeader cap True r2 = Ok (hdr, r3)"
    and i: "sig_size_entry sig = Some i" and f: "SignatureHeader f = sig" "IndexEntries (MainHeader f) = IndexEntries hdr"
    using assms by (auto simp: ParseRPM_def Let_def split: option.splits if_splits outcome.splits elim!: obind_OkE)
  have "IndexEntries sig \<noteq> []"
    using i by (auto simp: sig_size_entry_def FindIndexEntry_def split: option.splits)
  then have "is_ok (DumpIndexEntries (SignatureHeader f) n compact)"
    using DumpIndexEntries_ok parsed_payloads [OF p(1)] f(1) by blast
  moreover have "is_ok (DumpIndexEntries (MainHeader f) n compact)" if "IndexEntries (MainHeader f) \<noteq> []"
    using DumpIndexEntries_ok parsed_payloads [OF p(2)] f(2) that by metis
  moreover have "\<not> is_ok (DumpIndexEntries (MainHeader f) n compact)" if "IndexEntries (MainHeader f) = []"
    using DumpIndexEntries_empty [OF that] by (simp add: is_ok_iff)
  ultimately show ?thesis by blast
qed

theorem accepted_file_dumps_witness:
  "\<exists>f r'. ParseRPM hash_example id False (NewIOReaderWithOffset (NewArrayReader (file_bytes file_example))) = Ok (f, r') \<and>
     is_ok (DumpIndexEntries (SignatureHeader f) 25 True)"
proof -
  let ?r = "NewIOReaderWithOffset (NewArrayReader (file_bytes file_example))"
  have r: "end_error ?r = EOF" "rest ?r = file_bytes file_example @ []" "has_offset ?r" "rd_offset ?r = 0"
    by (simp_all add: NewIOReaderWithOffset_def NewArrayReader_def)
  obtain f r' where "ParseRPM hash_example id False ?r = Ok (f, r')"
    using ParseRPM_ok [OF file_example_wf file_example_valid r, of id] by metis
  with accepted_file_dumps [OF this] show ?thesis by blast
qed

end
