(* ===== verification/System_Utils.thy ===== *)
theory System_Utils
  imports Http
begin

text \<open>
  The helpers of \<^verbatim>\<open>common/utils.go\<close> that touch the system beyond single files: random strings, directory listings,
  closing; and \<^verbatim>\<open>WriteToFile\<close> of \<^verbatim>\<open>common/rpmparser.go\<close>. The random source is the sequence of bytes it delivers
  before it fails; \<^verbatim>\<open>os.ReadDir\<close> and the compilation of regular expressions are parameters.
\<close>

section \<open>Random strings\<close>

definition big_endian :: "bytes \<Rightarrow> nat" where
  "big_endian bs = fold (\<lambda>b n. 256 * n + unat b) bs 0"

fun bit_length :: "nat \<Rightarrow> nat" where
  "bit_length n = (if n = 0 then 0 else Suc (bit_length (n div 2)))"

declare bit_length.simps [simp del]

text \<open>\<^verbatim>\<open>rand.Int\<close>: candidates of as many bits as the largest result are drawn until one is small enough.\<close>

definition mask_first :: "nat \<Rightarrow> bytes \<Rightarrow> bytes" where
  "mask_first bits bs = (case bs of [] \<Rightarrow> [] | b # cs \<Rightarrow> take_bit (if bits mod 8 = 0 then 8 else bits mod 8) b # cs)"

function rand_draw :: "nat \<Rightarrow> nat \<Rightarrow> bytes \<Rightarrow> (nat \<times> bytes) outcome" where
  "rand_draw bits limit source =
     (let k = (bits + 7) div 8
      in if length source < k \<or> k = 0 then Err EOF
         else
           (let n = big_endian (mask_first bits (take k source))
            in if n < limit then Ok (n, drop k source) else rand_draw bits limit (drop k source)))"
  by pat_completeness auto
termination by (relation "measure (\<lambda>(bits, limit, source). length source)") (auto simp: Let_def)

declare rand_draw.simps [simp del]

definition rand_Int :: "nat \<Rightarrow> bytes \<Rightarrow> (nat \<times> bytes) outcome" where
  "rand_Int limit source =
     (if limit = 0 then Panic ''crypto/rand: argument to Int is <= 0''
      else if bit_length (limit - 1) = 0 then Ok (0, source)
      else rand_draw (bit_length (limit - 1)) limit source)"

fun random_letters :: "nat \<Rightarrow> string \<Rightarrow> bytes \<Rightarrow> (string \<times> bytes) outcome" where
  "random_letters 0 letters source = Ok ([], source)"
| "random_letters (Suc n) letters source =
     obind (rand_Int (length letters) source) (\<lambda>(num, source1).
     obind (random_letters n letters source1) (\<lambda>(s, source2). Ok (letters ! num # s, source2)))"

definition RandomString :: "int \<Rightarrow> string \<Rightarrow> bytes \<Rightarrow> (string \<times> bytes) outcome" where
  "RandomString len allowedLetters source =
     (if len < 0 then Panic ''makeslice: len out of range'' else random_letters (nat len) allowedLetters source)"

section \<open>Listing directories\<close>

text \<open>\<^verbatim>\<open>filepath.Clean\<close> on the segments of a path, and \<^verbatim>\<open>filepath.Join\<close> of two elements.\<close>

fun clean_segments :: "bool \<Rightarrow> string list \<Rightarrow> string list \<Rightarrow> string list" where
  "clean_segments rooted acc [] = rev acc"
| "clean_segments rooted acc (s # ss) =
     (if s = [] \<or> s = ''.'' then clean_segments rooted acc ss
      else if s = ''..'' then
        (if acc = [] then clean_segments rooted (if rooted then [] else [s]) ss
         else if hd acc = ''..'' then clean_segments rooted (s # acc) ss
         else clean_segments rooted (tl acc) ss)
      else clean_segments rooted (s # acc) ss)"

definition filepath_Clean :: "string \<Rightarrow> string" where
  "filepath_Clean path =
     (let rooted = (path \<noteq> [] \<and> hd path = CHR ''/'');
          p = join_strings (clean_segments rooted [] (split_on (CHR ''/'') path)) ''/''
      in if rooted then CHR ''/'' # p else if p = [] then ''.'' else p)"

definition filepath_Join :: "string \<Rightarrow> string \<Rightarrow> string" where
  "filepath_Join dir name =
     (if dir = [] then (if name = [] then [] else filepath_Clean name) else filepath_Clean (dir @ CHR ''/'' # name))"

fun ListMatchingFiles ::
  "(string \<Rightarrow> (string \<times> bool) list outcome) \<Rightarrow> (string \<Rightarrow> (string \<Rightarrow> bool) option) \<Rightarrow> string list \<Rightarrow> string \<Rightarrow> string list outcome" where
  "ListMatchingFiles os_ReadDir regexp_Compile [] regex = Ok []"
| "ListMatchingFiles os_ReadDir regexp_Compile (path # paths) regex =
     obind (os_ReadDir path) (\<lambda>entries.
       case regexp_Compile regex of
         None \<Rightarrow> Panic ''regexp: Compile''
       | Some MatchString \<Rightarrow>
           obind (ListMatchingFiles os_ReadDir regexp_Compile paths regex) (\<lambda>rest.
             Ok (map (\<lambda>(name, isDir). filepath_Join path name) (filter (\<lambda>(name, isDir). \<not> isDir \<and> MatchString name) entries) @ rest)))"

section \<open>Closing\<close>

text \<open>\<^verbatim>\<open>closer x\<close> is the result of the method \<^verbatim>\<open>Close\<close> of \<open>x\<close>, if it has one.\<close>

definition Close :: "('a \<Rightarrow> unit outcome option) \<Rightarrow> 'a option \<Rightarrow> unit outcome" where
  "Close closer input =
     (case input of
        Some x \<Rightarrow> (case closer x of Some result \<Rightarrow> result | None \<Rightarrow> Ok ())
      | None \<Rightarrow> Ok ())"

definition CloseWriter :: "('a \<Rightarrow> unit outcome option) \<Rightarrow> 'a option \<Rightarrow> unit outcome" where
  "CloseWriter closer dest =
     (case dest of
        Some x \<Rightarrow> (case closer x of Some result \<Rightarrow> result | None \<Rightarrow> Ok ())
      | None \<Rightarrow> Ok ())"

definition CloseQuietly :: "('a \<Rightarrow> unit outcome option) \<Rightarrow> 'a option \<Rightarrow> unit outcome" where
  "CloseQuietly closer input = (case Close closer input of Panic m \<Rightarrow> Panic m | _ \<Rightarrow> Ok ())"

section \<open>Writing a file under a name\<close>

text \<open>\<open>arrived\<close> is what had reached the file when writing broke off.\<close>

definition WriteToFile :: "os_fs \<Rightarrow> bytes \<Rightarrow> RpmFile \<Rightarrow> string \<Rightarrow> rdr \<Rightarrow> unit outcome \<times> os_fs" where
  "WriteToFile fs arrived f outputName payload' =
     (case os_Create fs outputName of
        (Err e, fs1) \<Rightarrow> (Err (Errorf (''failed to open() output file '' @ outputName @ '' - '' @ error_text e)), fs1)
      | (Panic m, fs1) \<Rightarrow> (Panic m, fs1)
      | (Ok u, fs1) \<Rightarrow>
          (case RpmFile_Write f (NewFileWriterWithOffset (destination_writer fs1)) payload' of
             Err e \<Rightarrow>
               (Err (Errorf (''failed to write() '' @ outputName @ '' - '' @ error_text e)), set_contents fs1 outputName arrived)
           | Panic m \<Rightarrow> (Panic m, set_contents fs1 outputName arrived)
           | Ok (w, p') \<Rightarrow>
               (let fs2 = set_contents fs1 outputName (contents w)
                in case file_op OpClose fs2 outputName of
                     Err e \<Rightarrow> (Err (Errorf (''failed to close() '' @ outputName @ '' - '' @ error_text e)), fs2)
                   | r \<Rightarrow> (r, fs2))))"

section \<open>Properties\<close>

lemma rand_draw_less: "rand_draw bits limit source = Ok (n, source') \<Longrightarrow> n < limit"
proof (induction bits limit source rule: rand_draw.induct)
  case (1 bits limit source)
  from "1.prems" show ?case
    using "1.IH" [OF refl _ refl] by (auto simp: rand_draw.simps [of bits limit source] Let_def split: if_splits)
qed

lemma rand_Int_less: "rand_Int limit source = Ok (n, source') \<Longrightarrow> n < limit"
  by (auto simp: rand_Int_def dest: rand_draw_less split: if_splits)

lemma random_letters_sound:
  "random_letters n letters source = Ok (s, source') \<Longrightarrow> length s = n \<and> set s \<subseteq> set letters"
proof (induction n arbitrary: source s)
  case (Suc n)
  then obtain num source1 t where "rand_Int (length letters) source = Ok (num, source1)"
    "random_letters n letters source1 = Ok (t, source')" "s = letters ! num # t"
    by (auto elim!: obind_OkE)
  with Suc.IH [of source1 t] rand_Int_less [of "length letters" source num source1] show ?case by auto
qed simp

lemma bit_length_bound: "n < 2 ^ bit_length n"
proof (induction n rule: bit_length.induct)
  case (1 n)
  show ?case
  proof (cases "n = 0")
    case False
    with 1 have "n div 2 < 2 ^ bit_length (n div 2)" by simp
    then show ?thesis by (subst bit_length.simps) (simp add: False)
  qed (simp add: bit_length.simps)
qed

lemma bit_length_le: "n < 2 ^ k \<Longrightarrow> bit_length n \<le> k"
proof (induction n arbitrary: k rule: bit_length.induct)
  case (1 n)
  show ?case
  proof (cases "n = 0")
    case False
    with "1.prems" obtain j where "k = Suc j" by (cases k) auto
    with 1 False show ?thesis by (subst bit_length.simps) auto
  qed (simp add: bit_length.simps)
qed

text \<open>With at most 256 letters one byte is drawn per letter, and every letter can be drawn.\<close>

lemma rand_Int_reaches:
  assumes "i < limit" and "limit \<le> 256"
  shows "\<exists>bs. \<forall>more. rand_Int limit (bs @ more) = Ok (i, more)"
proof (cases "bit_length (limit - 1) = 0")
  case True
  then have "i = 0" using bit_length_bound [of "limit - 1"] assms(1) by simp
  with True assms show ?thesis by (intro exI [of _ "[]"]) (simp add: rand_Int_def)
next
  case False
  let ?b = "bit_length (limit - 1)"
  have b: "0 < ?b" "?b \<le> 8" using False bit_length_le [of "limit - 1" 8] assms by auto
  then have k: "(?b + 7) div 8 = 1" by auto
  let ?m = "if ?b mod 8 = 0 then 8 else ?b mod 8"
  have m: "?m = ?b" using b by (cases "?b = 8") auto
  have i: "i < 2 ^ ?b" using bit_length_bound [of "limit - 1"] assms(1) by linarith
  have u: "unat (of_nat i :: u8) = i" using assms by (simp add: unsigned_of_nat take_bit_nat_eq_self_iff)
  have "unat (take_bit ?b (of_nat i :: u8)) = i"
    using i by (simp add: unsigned_take_bit_eq u take_bit_nat_eq_self_iff)
  then have "big_endian (mask_first ?b [of_nat i]) = i" unfolding mask_first_def m by (simp add: big_endian_def m)
  with False k assms show ?thesis
    by (intro exI [of _ "[of_nat i]"]) (simp add: rand_Int_def rand_draw.simps Let_def)
qed

lemma random_letters_reaches:
  assumes "length letters \<le> 256"
  shows "set s \<subseteq> set letters \<Longrightarrow> \<exists>source. \<forall>more. random_letters (length s) letters (source @ more) = Ok (s, more)"
proof (induction s)
  case Nil
  show ?case by (intro exI [of _ "[]"]) simp
next
  case (Cons c s)
  then obtain i where i: "i < length letters" "letters ! i = c" by (auto simp: in_set_conv_nth)
  obtain bs where bs: "rand_Int (length letters) (bs @ more) = Ok (i, more)" for more
    using rand_Int_reaches [OF i(1) assms] by blast
  obtain source where "random_letters (length s) letters (source @ more) = Ok (s, more)" for more
    using Cons by auto
  with bs i show ?case by (intro exI [of _ "bs @ source"]) simp
qed

text \<open>A random string has the requested length and only allowed letters, and for an alphabet of at most 256
  letters every such string is the result for some random bytes. A negative length panics, an empty alphabet
  as soon as a letter is needed.\<close>

theorem RandomString_exact:
  assumes "letters \<noteq> []" and "length letters \<le> 256"
  shows "(\<exists>source source'. RandomString n letters source = Ok (s, source')) \<longleftrightarrow> int (length s) = n \<and> set s \<subseteq> set letters"
    (is "?l \<longleftrightarrow> ?r")
proof
  assume ?l
  then obtain source source' where "0 \<le> n" "random_letters (nat n) letters source = Ok (s, source')"
    by (auto simp: RandomString_def split: if_splits)
  with random_letters_sound [OF this(2)] show ?r by simp
next
  assume r: ?r
  then obtain source where "random_letters (length s) letters (source @ []) = Ok (s, [])"
    using random_letters_reaches [OF assms(2)] by blast
  then have "RandomString n letters source = Ok (s, [])" using r by (auto simp: RandomString_def)
  then show ?l by blast
qed

theorem RandomString_exact_witness:
  "\<exists>source source'. RandomString 3 ''ab'' source = Ok (''bab'', source')"
  using RandomString_exact [of "''ab''" 3 "''bab''"] by simp

lemma RandomString_panics:
  "n < 0 \<Longrightarrow> RandomString n letters source = Panic ''makeslice: len out of range''"
  "0 < n \<Longrightarrow> RandomString n [] source = Panic ''crypto/rand: argument to Int is <= 0''"
  by (cases "nat n"; simp add: RandomString_def rand_Int_def)+

lemma ListMatchingFiles_ok:
  assumes "\<forall>p\<in>set paths. os_ReadDir p = Ok (entries p)" and "regexp_Compile regex = Some matches"
  shows "ListMatchingFiles os_ReadDir regexp_Compile paths regex =
    Ok (concat (map (\<lambda>p. map (\<lambda>(name, isDir). filepath_Join p name) (filter (\<lambda>(name, isDir). \<not> isDir \<and> matches name) (entries p))) paths))"
  using assms by (induction paths) auto

lemma ListMatchingFiles_unreadable:
  assumes "\<forall>p\<in>set before. is_ok (os_ReadDir p)" and "os_ReadDir path = Err e" and "regexp_Compile regex \<noteq> None"
  shows "ListMatchingFiles os_ReadDir regexp_Compile (before @ path # after) regex = Err e"
  using assms by (induction before) (auto simp: is_ok_iff)

text \<open>\<^verbatim>\<open>WriteToFile\<close> leaves the bytes of a well-formed file and its payload under the name and changes no other file;
  and whatever fails on the way, no other file changes.\<close>

theorem WriteToFile_result:
  shows "(\<forall>q. q \<noteq> name \<longrightarrow> fs_file (snd (WriteToFile fs arrived f name p)) q = fs_file fs q) \<and>
    (file_wf f \<longrightarrow> end_error p = EOF \<longrightarrow> fs_room fs = None \<longrightarrow> is_ok (fst (os_Create fs name)) \<longrightarrow> fs_fault fs OpClose name = None \<longrightarrow>
      (\<exists>fs' m. WriteToFile fs arrived f name p = (Ok (), fs') \<and> fs_file fs' name = Some (file_bytes f @ rest p, m)))"
proof -
  obtain r fs1 where c: "os_Create fs name = (r, fs1)" by fastforce
  have other: "fs_file fs1 q = fs_file fs q" if "q \<noteq> name" for q
    using os_Create_other [OF that, of fs] c by simp
  have "fs_file (snd (WriteToFile fs arrived f name p)) q = fs_file fs q" if "q \<noteq> name" for q
    using other [OF that] that
    by (cases r) (auto simp: WriteToFile_def c set_contents_def Let_def split: outcome.split)
  moreover have "\<exists>fs' m. WriteToFile fs arrived f name p = (Ok (), fs') \<and> fs_file fs' name = Some (file_bytes f @ rest p, m)"
    if wf: "file_wf f" "end_error p = EOF" "fs_room fs = None" "is_ok (fst (os_Create fs name))" "fs_fault fs OpClose name = None"
  proof -
    have fs1: "r = Ok ()" "fs_fault fs1 = fs_fault fs" "fs_room fs1 = None" "\<exists>m. fs_file fs1 name = Some ([], m)"
      using c wf(3,4) by (auto simp: os_Create_def is_ok_iff split: option.splits if_splits)
    let ?w = "NewFileWriterWithOffset (destination_writer fs1)"
    have w: "unlimited ?w" "contents ?w = []"
      using fs1(3) by (simp_all add: NewFileWriterWithOffset_def destination_writer_def)
    have st: "storable (IndexEntries (SignatureHeader f))" "storable (IndexEntries (MainHeader f))"
      using wf(1) consistent_storable by (auto simp: file_wf_def header_wf_def)
    obtain d' p' where d: "RpmFile_Write f ?w p = Ok (d', p')" "wrote ?w (file_bytes f @ rest p) d'"
      using RpmFile_Write_ok [OF st w(1) wf(2)] by metis
    then have "contents d' = file_bytes f @ rest p" using wrote_contents [OF d(2)] w(2) by simp
    with d(1) fs1 wf(5) show ?thesis by (auto simp: WriteToFile_def c set_contents_def file_op_def)
  qed
  ultimately show ?thesis by blast
qed

theorem WriteToFile_result_witness:
  "\<exists>fs' m. WriteToFile fs_example [] file_example ''/out'' (NewArrayReader [1]) = (Ok (), fs') \<and>
     fs_file fs' ''/out'' = Some (file_bytes file_example @ [1], m)"
proof -
  have "is_ok (fst (os_Create fs_example ''/out''))" "fs_room fs_example = None" "fs_fault fs_example OpClose ''/out'' = None"
    by (simp_all add: os_Create_def fs_example_def)
  then show ?thesis
    using WriteToFile_result [of "''/out''" fs_example "[]" file_example "NewArrayReader [1]"] file_example_wf
    by (simp add: NewArrayReader_def)
qed

end
