(* ===== verification/Spec2Isabelle.thy ===== *)
theory Spec2Isabelle
  imports Client Server_Life Parser_Sound System_Utils
begin

text \<open>
  Verification of \<^bold>\<open>rpm-signing\<close>, a Go program that signs RPM packages: a command line client, an HTTP
  server that keeps the private key, and a common library that parses, edits, signs, verifies and writes RPM files.

  \<^bold>\<open>The program.\<close> An RPM file is a lead, a signature header, a main header and a compressed payload. A header is a
  list of index entries over a data store. The library parses the two headers from a stream of any chunking
  (\<^verbatim>\<open>src/common/rpmparser.go\<close>, \<^verbatim>\<open>serializer.go\<close>), checks the digests of the main header, replaces the signatures in the
  signature header and lays its data store out again, signs the main header with OpenPGP (\<^verbatim>\<open>signing.go\<close>, \<^verbatim>\<open>openpgp.go\<close>)
  and writes lead, headers and payload. The client (\<^verbatim>\<open>src/client\<close>) does this with a local key, or sends the header to the
  server (\<^verbatim>\<open>src/server\<close>) and joins the answer with the payload.

  \<^bold>\<open>Theories, from the bottom.\<close>
  \<^item> \<^verbatim>\<open>Rpm_Prelude\<close>: results (a value, an error, a panic), their sequencing, formatting of numbers, lemmas on words.
  \<^item> \<^verbatim>\<open>Utils\<close>, \<^verbatim>\<open>Bitmap\<close>, \<^verbatim>\<open>Dynamic_Array\<close>: \<^verbatim>\<open>utils.go\<close>, \<^verbatim>\<open>bitmap.go\<close>, \<^verbatim>\<open>dynamicarray.go\<close>. Alignment is exact and minimal;
    setting a range of bits sets exactly that range and reports any earlier one (locale \<^verbatim>\<open>bitmap_interface\<close>); the dynamic
    array writes exactly its bytes and refuses overlaps.
  \<^item> \<^verbatim>\<open>Readers\<close>, \<^verbatim>\<open>Serializer\<close>: the nest of readers and writers. A source has its data, a schedule of chunk sizes and an
    error at the end; \<^verbatim>\<open>feeds r bs r'\<close> says that \<^verbatim>\<open>r\<close> has delivered \<^verbatim>\<open>bs\<close>. Filling a buffer works for every schedule.
    Integers are read as they were written (locale \<^verbatim>\<open>codec\<close>, interpreted for the four widths).
  \<^item> \<^verbatim>\<open>Tags\<close>, \<^verbatim>\<open>Index_Entry\<close>: \<^verbatim>\<open>mainheadertags.go\<close>, \<^verbatim>\<open>signatureheadertags.go\<close> and the index entries of \<^verbatim>\<open>rpmparser.go\<close>: the
    registries and how lookups extend them, formats, values, rendering, payloads read back as stored.
  \<^item> \<^verbatim>\<open>Header\<close>, \<^verbatim>\<open>Header_Layout\<close>, \<^verbatim>\<open>Header_Edit\<close>, \<^verbatim>\<open>Header_Alloc\<close>: the editing operations of \<^verbatim>\<open>RpmHeader\<close>. Slices have a capacity
    and an identity, so that a pointer into a replaced array shows. The layout packs the payloads aligned and disjoint;
    on the map from tags to values, deleting and setting refine deletion and update of a map (locale \<^verbatim>\<open>tag_store\<close>);
    allocation terminates.
  \<^item> \<^verbatim>\<open>Header_IO\<close>, \<^verbatim>\<open>Header_RoundTrip\<close>, \<^verbatim>\<open>Header_Dump\<close>, \<^verbatim>\<open>Header_Properties\<close>: writing, parsing and printing headers; a written
    header parses to itself.
  \<^item> \<^verbatim>\<open>Rpm_File\<close>, \<^verbatim>\<open>File_RoundTrip\<close>, \<^verbatim>\<open>Signing\<close>, \<^verbatim>\<open>Signing_Proofs\<close>, \<^verbatim>\<open>File_Properties\<close>: files, validation, signing and verification; what is
    parsed has matching digests, and a signed, written and parsed file passes verification.
  \<^item> \<^verbatim>\<open>Parser_Sound\<close>: the converse of the round trip. Whatever the input, a header the parser accepts is well typed: the bytes
    consumed are its preamble, its index and a data store in which every payload lies at its offset, fits its format and
    count and overlaps no other (locale \<^verbatim>\<open>strict_codec\<close>, an extension of \<^verbatim>\<open>codec\<close>); such a file can be printed.
  \<^item> \<^verbatim>\<open>System_Utils\<close>: random strings, directory listings, closing, \<^verbatim>\<open>WriteToFile\<close>.
  \<^item> \<^verbatim>\<open>Files\<close>: a file system with failures injected per operation and path and with limited space; atomic writing,
    destination files, reading lines, opening files and URLs, seeking.
  \<^item> \<^verbatim>\<open>Config\<close>, \<^verbatim>\<open>Http\<close>, \<^verbatim>\<open>Log\<close>, \<^verbatim>\<open>Server\<close>: the configuration (every accepted one is complete), query strings (a value survives
    escaping), the token comparison, the handlers with their messages (locale \<^verbatim>\<open>guarded_handler\<close>: nothing is signed without
    the token; no error text reaches a client), the mux and the access log.
  \<^item> \<^verbatim>\<open>Server_Life\<close>: the server process as a step relation over tasks, one per request, whose steps interleave. The answer to a
    request is the one it gets alone; files other than the access log stay as they are; the log consists of whole lines and
    is complete if it was created once, while two first requests can lose a line; a shutdown completes.
  \<^item> \<^verbatim>\<open>Client\<close>: options, local and remote signing, verification, the run of \<^verbatim>\<open>main\<close>; a run changes only its outputs,
    a run that signs, with a local key or through the modelled server, leaves a file that parses and verifies, and a run
    with \<^verbatim>\<open>--verify\<close> reports its signature as ok.

  \<^bold>\<open>How the code is read.\<close> A Go error is \<^verbatim>\<open>Err\<close>, a panic is \<^verbatim>\<open>Panic\<close>, \<^verbatim>\<open>os.Exit\<close> is \<^verbatim>\<open>Exits\<close>. Fixed-width integers are words, so
  wrap-around is that of the machine; lengths of slices are natural numbers. Texts of wrapped errors are reduced to their
  literal prefix where nothing depends on the rest. Methods on pointers return the updated record. Loops are functions
  with a termination proof; the one loop whose end depends on the header, the allocation of space, is a
  \<^verbatim>\<open>partial_function\<close> whose result \<^verbatim>\<open>None\<close> stands for not returning, and \<^verbatim>\<open>allocateSpaceInDatastore_returns\<close> shows that it returns.
  The steps of a task are the handler as a whole, which reads files nobody writes and writes its own response, and the three
  parts of \<^verbatim>\<open>writeAccessLog\<close> between the accesses to its globals; the data races inside such a part are not modelled.
  No definition uses fuel; the bounds in hypotheses (total size below 4 GiB) are those of the format's 32-bit fields.

  \<^bold>\<open>Parameters.\<close> The OpenPGP library is a record of functions (\<^verbatim>\<open>pgp\<close>), the hash functions another (\<^verbatim>\<open>hashes\<close>), the growth of
  slices a function on capacities. The only law assumed of them is \<^verbatim>\<open>accepts_key\<close>: the key ring accepts what the key
  signed. HTTP requests of the client and the parsing of URLs are arguments as well; the end-to-end theorem instantiates
  the former with the modelled server.

  \<^bold>\<open>Not modelled.\<close> \<^verbatim>\<open>Members\<close> of sets (order unspecified), \<^verbatim>\<open>url.Parse\<close>, the matching of regular expressions and \<^verbatim>\<open>os.ReadDir\<close>
  (parameters), the target of the mux's redirects, the progress messages of the parser and the writer, the connections
  and timeouts of net/http beyond the deadline of a shutdown.
\<close>

end
